(* ===== verification/Prelude.thy ===== *)
theory Prelude
  imports Main "HOL-Library.Multiset" "HOL-Library.AList"
begin

section \<open>Prelude: outcomes of Go code, sequencing, shared lemmas\<close>

text \<open>
  What every theory of the development uses: the outcome of a Go call that may panic, the
  sequencing of calls that act on a world, the key type of Kubernetes objects, and a few facts on
  maps and lists. Two collections steer the component proofs: \<open>seq_simps\<close> holds the rewrite rules
  of sequencing, \<open>meta_simps\<close> the rules that read object metadata.
\<close>

named_theorems seq_simps
named_theorems meta_simps

subsection \<open>Outcomes\<close>

text \<open>
  A Go call returns or panics. An error that the code handles is a value, never a panic.
\<close>

datatype panic = CircularReference | NilDereference | IndexOutOfRange | LibraryPanic

datatype 'a outcome = Returned 'a | Panicked panic

text \<open>
  A computation takes the world and gives an outcome and the next world.
  \<open>bind_st m f\<close> runs \<open>m\<close>, and \<open>f\<close> on its result; a panic ends the run.
\<close>

type_synonym ('s, 'a) comp = "'s \<Rightarrow> 'a outcome \<times> 's"

definition return_st :: "'a \<Rightarrow> ('s, 'a) comp" where
  "return_st a s = (Returned a, s)"

definition bind_st :: "('s, 'a) comp \<Rightarrow> ('a \<Rightarrow> ('s, 'b) comp) \<Rightarrow> ('s, 'b) comp" where
  "bind_st m f s =
     (case m s of
        (Returned a, s') \<Rightarrow> f a s'
      | (Panicked p, s') \<Rightarrow> (Panicked p, s'))"

lemma bind_st_return [seq_simps]: "bind_st (return_st a) f = f a"
  by (rule ext) (simp add: bind_st_def return_st_def)

lemma bind_st_assoc: "bind_st (bind_st m f) g = bind_st m (\<lambda>a. bind_st (f a) g)"
  by (rule ext) (simp add: bind_st_def split: prod.split outcome.split)

lemma bind_st_Returned [seq_simps]: "m s = (Returned a, s') \<Longrightarrow> bind_st m f s = f a s'"
  by (simp add: bind_st_def)

lemma bind_st_Panicked [seq_simps]: "m s = (Panicked p, s') \<Longrightarrow> bind_st m f s = (Panicked p, s')"
  by (simp add: bind_st_def)

lemma bind_st_ReturnedE:
  assumes "bind_st m f s = (Returned b, s'')"
  obtains a s' where "m s = (Returned a, s')" and "f a s' = (Returned b, s'')"
  using assms by (auto simp: bind_st_def split: prod.splits outcome.splits)

text \<open>The same for pure code that may panic, and a pointer that is followed there.\<close>

definition bind_outcome :: "'a outcome \<Rightarrow> ('a \<Rightarrow> 'b outcome) \<Rightarrow> 'b outcome" where
  "bind_outcome x f = (case x of Returned a \<Rightarrow> f a | Panicked p \<Rightarrow> Panicked p)"

definition non_nil :: "'a option \<Rightarrow> 'a outcome" where
  "non_nil p = (case p of None \<Rightarrow> Panicked NilDereference | Some a \<Rightarrow> Returned a)"

lemma bind_outcome_simps [simp]:
  "bind_outcome (Returned a) f = f a"
  "bind_outcome (Panicked p) f = Panicked p"
  by (simp_all add: bind_outcome_def)

lemma non_nil_simps [simp]: "non_nil None = Panicked NilDereference" "non_nil (Some a) = Returned a"
  by (simp_all add: non_nil_def)

lemma bind_outcome_Returned_iff:
  "bind_outcome x f = Returned b \<longleftrightarrow> (\<exists>a. x = Returned a \<and> f a = Returned b)"
  by (cases x) auto

lemma non_nil_Returned_iff [simp]: "non_nil p = Returned a \<longleftrightarrow> p = Some a"
  by (cases p) auto

lemma map_outcome_Returned_iff: "map_outcome f x = Returned b \<longleftrightarrow> (\<exists>a. x = Returned a \<and> f a = b)"
  by (cases x) auto

subsection \<open>Names\<close>

text \<open>\<open>types.NamespacedName\<close>: the key of a Kubernetes object.\<close>

record namespaced_name =
  nn_namespace :: string
  nn_name :: string

lemma namespaced_name_collapse [simp]: "\<lparr>nn_namespace = nn_namespace nn, nn_name = nn_name nn\<rparr> = nn"
  by (cases nn) simp

subsection \<open>Lists and maps\<close>

lemma map_of_update [simp]: "map_of (AList.update k v xs) = (map_of xs)(k \<mapsto> v)"
  by (simp add: update_conv')

lemma set_range_order: "mset ys = mset xs \<Longrightarrow> set ys = set xs"
  by (rule mset_eq_setD)

lemma map_of_range_order:
  assumes "distinct (map fst xs)" and "mset ys = mset xs"
  shows "map_of ys = map_of xs"
proof (rule map_of_inject_set [THEN iffD2])
  show "distinct (map fst xs)" by fact
  have "mset (map fst ys) = mset (map fst xs)" using assms(2) by simp
  with assms(1) show "distinct (map fst ys)" by (metis mset_eq_imp_distinct_iff)
  show "set ys = set xs" using assms(2) by (rule set_range_order)
qed

end
