(* ===== verification/Purpose_Selector.thy ===== *)
theory Purpose_Selector
  imports Prelude
begin

section \<open>Purpose selectors\<close>

text \<open>
  \<open>api/dns/v1alpha1/config_types.go\<close>: \<open>PurposeSelector\<close>, \<open>PurposeSelectorRequirement\<close>,
  \<open>Matches\<close> and \<open>requirementMatches\<close>, modelled twice. The first model works on the trees that a
  decoded \<open>DNSServiceConfig\<close> holds and is the one the controller uses. The second works on a heap of
  requirement structs that refer to each other by address, with the map of requirements on the
  current path (\<open>seenRequirements\<close>) passed through every call as the code does; it can panic on a
  circular reference. The lemmas show that the second always ends, leaves the map as it found it,
  and agrees with the first wherever the heap holds a tree.
\<close>

subsection \<open>Selectors as trees\<close>

datatype requirement =
  Requirement
    (req_and: "requirement list")
    (req_or: "requirement list")
    (req_not: "requirement option")
    (req_name: string)

record purpose_selector =
  selector_requirement :: requirement

fun requirement_matches :: "requirement \<Rightarrow> string list \<Rightarrow> bool" where
  "requirement_matches (Requirement ands ors nt name) purposes =
     (if name \<noteq> [] then name \<in> set purposes
      else case nt of
        Some r \<Rightarrow> \<not> requirement_matches r purposes
      | None \<Rightarrow>
          if ands \<noteq> [] then list_all (\<lambda>r. requirement_matches r purposes) ands
          else if ors \<noteq> [] then list_ex (\<lambda>r. requirement_matches r purposes) ors
          else True)"

definition selector_matches :: "purpose_selector option \<Rightarrow> string list \<Rightarrow> bool" where
  "selector_matches ps purposes =
     (case ps of
        None \<Rightarrow> True
      | Some sel \<Rightarrow> requirement_matches (selector_requirement sel) purposes)"

text \<open>Selectors with exactly one field set, as users write them.\<close>

abbreviation req_name_is :: "string \<Rightarrow> requirement" where
  "req_name_is n \<equiv> Requirement [] [] None n"

abbreviation req_all_of :: "requirement list \<Rightarrow> requirement" where
  "req_all_of rs \<equiv> Requirement rs [] None []"

abbreviation req_any_of :: "requirement list \<Rightarrow> requirement" where
  "req_any_of rs \<equiv> Requirement [] rs None []"

abbreviation req_negation :: "requirement \<Rightarrow> requirement" where
  "req_negation r \<equiv> Requirement [] [] (Some r) []"

lemma requirement_matches_set:
  assumes "set ps = set qs"
  shows "requirement_matches r ps = requirement_matches r qs"
  using assms
  by (induction r ps arbitrary: qs rule: requirement_matches.induct)
     (auto simp: list_all_iff list_ex_iff split: option.split)

subsection \<open>Selectors on the heap\<close>

text \<open>
  An address is an index into the heap. \<open>And\<close> and \<open>Or\<close> are slices of structs, so a node holds the
  addresses of the elements; \<open>Not\<close> is a pointer. The Go map \<open>seenRequirements\<close> is the set of its
  keys. The map is threaded: a call adds its own address on entry and the deferred \<open>delete\<close> takes
  it out again on return. The first argument is fuel, one unit per nested call; \<open>None\<close> means that
  it ran out. An address outside the heap, which Go's pointers cannot hold, panics.
\<close>

type_synonym addr = nat

record req_node =
  node_and :: "addr list"
  node_or :: "addr list"
  node_not :: "addr option"
  node_name :: string

type_synonym req_heap = "req_node list"
type_synonym seen_result = "(bool \<times> addr set) outcome option"

definition deferred_delete :: "addr \<Rightarrow> seen_result \<Rightarrow> seen_result" where
  "deferred_delete a res =
     (case res of
        Some (Returned (b, seen)) \<Rightarrow> Some (Returned (b, seen - {a}))
      | _ \<Rightarrow> res)"

function (sequential)
  heap_matches :: "nat \<Rightarrow> req_heap \<Rightarrow> string list \<Rightarrow> addr option \<Rightarrow> addr set \<Rightarrow> seen_result" and
  heap_and :: "nat \<Rightarrow> req_heap \<Rightarrow> string list \<Rightarrow> addr list \<Rightarrow> addr set \<Rightarrow> seen_result" and
  heap_or :: "nat \<Rightarrow> req_heap \<Rightarrow> string list \<Rightarrow> addr list \<Rightarrow> addr set \<Rightarrow> seen_result" where
  "heap_matches 0 h ps r seen = None"
| "heap_matches (Suc fuel) h ps None seen = Some (Returned (True, seen))"
| "heap_matches (Suc fuel) h ps (Some a) seen =
     (if a \<in> seen then Some (Panicked CircularReference)
      else if length h \<le> a then Some (Panicked NilDereference)
      else deferred_delete a
        (if node_name (h ! a) \<noteq> []
         then Some (Returned (node_name (h ! a) \<in> set ps, insert a seen))
         else case node_not (h ! a) of
           Some n \<Rightarrow>
             (case heap_matches fuel h ps (Some n) (insert a seen) of
                Some (Returned (b, seen2)) \<Rightarrow> Some (Returned (\<not> b, seen2))
              | res \<Rightarrow> res)
         | None \<Rightarrow>
             if node_and (h ! a) \<noteq> [] then heap_and fuel h ps (node_and (h ! a)) (insert a seen)
             else if node_or (h ! a) \<noteq> [] then heap_or fuel h ps (node_or (h ! a)) (insert a seen)
             else Some (Returned (True, insert a seen))))"
| "heap_and fuel h ps [] seen = Some (Returned (True, seen))"
| "heap_and fuel h ps (a # as) seen =
     (case heap_matches fuel h ps (Some a) seen of
        Some (Returned (b, seen2)) \<Rightarrow>
          if \<not> b then Some (Returned (False, seen2)) else heap_and fuel h ps as seen2
      | res \<Rightarrow> res)"
| "heap_or fuel h ps [] seen = Some (Returned (False, seen))"
| "heap_or fuel h ps (a # as) seen =
     (case heap_matches fuel h ps (Some a) seen of
        Some (Returned (b, seen2)) \<Rightarrow>
          if b then Some (Returned (True, seen2)) else heap_or fuel h ps as seen2
      | res \<Rightarrow> res)"
  by pat_completeness auto
termination
  by (relation "measures
        [\<lambda>x. case x of Inl (f, _) \<Rightarrow> f | Inr (Inl (f, _)) \<Rightarrow> f | Inr (Inr (f, _)) \<Rightarrow> f,
         \<lambda>x. case x of Inl _ \<Rightarrow> 0
             | Inr (Inl (_, _, _, as, _)) \<Rightarrow> Suc (length as)
             | Inr (Inr (_, _, _, as, _)) \<Rightarrow> Suc (length as)]") auto

text \<open>
  \<open>(*PurposeSelector).Matches\<close>: a nil selector matches, otherwise the embedded requirement is
  evaluated with an empty map. \<open>Suc (length h)\<close> units of fuel are enough (\<open>heap_matches_enough\<close>).
\<close>

definition heap_selector_matches :: "req_heap \<Rightarrow> addr option \<Rightarrow> string list \<Rightarrow> bool outcome option" where
  "heap_selector_matches h ps purposes =
     (case ps of
        None \<Rightarrow> Some (Returned True)
      | Some a \<Rightarrow>
          map_option (map_outcome fst) (heap_matches (Suc (length h)) h purposes (Some a) {}))"

subsection \<open>The heap model ends, restores its map and refines the tree model\<close>

lemma deferred_delete_simps [simp]:
  "deferred_delete a None = None"
  "deferred_delete a (Some (Panicked p)) = Some (Panicked p)"
  "deferred_delete a (Some (Returned (b, seen))) = Some (Returned (b, seen - {a}))"
  by (simp_all add: deferred_delete_def)

lemma deferred_delete_Returned_iff:
  "deferred_delete a res = Some (Returned (b, seen)) \<longleftrightarrow>
   (\<exists>seen'. res = Some (Returned (b, seen')) \<and> seen = seen' - {a})"
  by (auto simp: deferred_delete_def split: option.splits outcome.splits)

lemma deferred_delete_None_iff [simp]: "deferred_delete a res = None \<longleftrightarrow> res = None"
  by (auto simp: deferred_delete_def split: option.splits outcome.splits)

lemma seen_result_cases:
  obtains (None) "(res :: seen_result) = None"
  | (Panicked) p where "res = Some (Panicked p)"
  | (Returned) b seen where "res = Some (Returned (b, seen))"
  by (cases res) (metis outcome.exhaust surj_pair)+

lemma heap_seen_restored:
  "heap_matches f h ps r seen = Some (Returned (b, seen')) \<Longrightarrow> seen' = seen"
  "heap_and f h ps as seen = Some (Returned (b, seen')) \<Longrightarrow> seen' = seen"
  "heap_or f h ps as seen = Some (Returned (b, seen')) \<Longrightarrow> seen' = seen"
proof (induction f h ps r seen and f h ps as seen and f h ps as seen
    arbitrary: b seen' and b seen' and b seen'
    rule: heap_matches_heap_and_heap_or.induct)
  case (3 fuel h ps a seen)
  from "3.prems" have a: "a \<notin> seen" "\<not> length h \<le> a" by (auto split: if_splits)
  note IH = "3.IH" [OF a]
  show ?case
  proof (cases "node_not (h ! a)")
    case None
    then have loops:
      "s = insert a seen"
      if "node_name (h ! a) = []" "node_and (h ! a) \<noteq> [] \<and>
            heap_and fuel h ps (node_and (h ! a)) (insert a seen) = Some (Returned (c, s)) \<or>
          node_and (h ! a) = [] \<and> node_or (h ! a) \<noteq> [] \<and>
            heap_or fuel h ps (node_or (h ! a)) (insert a seen) = Some (Returned (c, s))" for c s
      using that IH by blast
    from None "3.prems" a show ?thesis
      by (auto simp: deferred_delete_Returned_iff split: if_splits dest!: loops)
  next
    case (Some n)
    show ?thesis
    proof (cases "heap_matches fuel h ps (Some n) (insert a seen)" rule: seen_result_cases)
      case (Returned b' s)
      have "s = insert a seen" if "node_name (h ! a) = []"
        using IH(3) [OF _ Some Returned] that by simp
      with Returned "3.prems" a Some show ?thesis
        by (auto simp: deferred_delete_Returned_iff split: if_splits)
    qed (use "3.prems" a Some in \<open>auto simp: deferred_delete_Returned_iff split: if_splits\<close>)
  qed
next
  case (5 fuel h ps a as seen)
  show ?case
  proof (cases "heap_matches fuel h ps (Some a) seen" rule: seen_result_cases)
    case (Returned c s)
    then have "s = seen" by (rule "5.IH"(1))
    with Returned "5.prems" show ?thesis
      by (cases c) (auto dest!: "5.IH"(2) [OF Returned [unfolded \<open>s = seen\<close>] refl refl, rotated])
  qed (use "5.prems" in auto)
next
  case (7 fuel h ps a as seen)
  show ?case
  proof (cases "heap_matches fuel h ps (Some a) seen" rule: seen_result_cases)
    case (Returned c s)
    then have "s = seen" by (rule "7.IH"(1))
    with Returned "7.prems" show ?thesis
      by (cases c) (auto dest!: "7.IH"(2) [OF Returned [unfolded \<open>s = seen\<close>] refl refl, rotated])
  qed (use "7.prems" in auto)
qed simp_all

lemma card_unseen_insert:
  assumes "a \<notin> seen" and "a < (n :: nat)"
  shows "Suc (card ({..<n} - insert a seen)) = card ({..<n} - seen)"
proof -
  have "{..<n} - seen = insert a ({..<n} - insert a seen)" using assms by auto
  then show ?thesis by (metis Diff_iff card_insert_disjoint finite_Diff finite_lessThan insertI1)
qed

lemma heap_matches_enough:
  "card ({..<length h} - seen) < f \<Longrightarrow> heap_matches f h ps r seen \<noteq> None"
  "card ({..<length h} - seen) < f \<Longrightarrow> heap_and f h ps as seen \<noteq> None"
  "card ({..<length h} - seen) < f \<Longrightarrow> heap_or f h ps as seen \<noteq> None"
proof (induction f h ps r seen and f h ps as seen and f h ps as seen
    rule: heap_matches_heap_and_heap_or.induct)
  case (3 fuel h ps a seen)
  show ?case
  proof (cases "a \<in> seen \<or> length h \<le> a")
    case True
    then show ?thesis by auto
  next
    case False
    then have "card ({..<length h} - insert a seen) < fuel"
      using card_unseen_insert [of a seen "length h"] "3.prems" by simp
    with False 3 show ?thesis
      by (auto split: option.splits outcome.splits)
  qed
next
  case (5 fuel h ps a as seen)
  show ?case
  proof (cases "heap_matches fuel h ps (Some a) seen" rule: seen_result_cases)
    case (Returned c s)
    with 5 heap_seen_restored(1) [OF Returned] show ?thesis by (cases c) auto
  qed (use 5 in auto)
next
  case (7 fuel h ps a as seen)
  show ?case
  proof (cases "heap_matches fuel h ps (Some a) seen" rule: seen_result_cases)
    case (Returned c s)
    with 7 heap_seen_restored(1) [OF Returned] show ?thesis by (cases c) auto
  qed (use 7 in auto)
qed auto

fun represents :: "req_heap \<Rightarrow> addr \<Rightarrow> requirement \<Rightarrow> bool" where
  "represents h a (Requirement ands ors nt name) =
     (a < length h \<and> node_name (h ! a) = name \<and>
      list_all2 (\<lambda>x t. represents h x t) (node_and (h ! a)) ands \<and>
      list_all2 (\<lambda>x t. represents h x t) (node_or (h ! a)) ors \<and>
      rel_option (\<lambda>x t. represents h x t) (node_not (h ! a)) nt)"

lemma represents_in_heap: "represents h a t \<Longrightarrow> a < length h"
  by (cases t) simp

lemma list_all2_unique:
  assumes "list_all2 R xs ts" and "list_all2 R xs us"
    and "\<And>x t u. t \<in> set ts \<Longrightarrow> R x t \<Longrightarrow> R x u \<Longrightarrow> t = u"
  shows "ts = us"
  using assms
proof (induction ts arbitrary: xs us rule: list.induct)
  case Nil
  then show ?case by auto
next
  case (Cons t ts)
  from Cons.prems(1) obtain x xs' where xs: "xs = x # xs'" and x: "R x t" "list_all2 R xs' ts"
    by (auto simp: list_all2_Cons2)
  from Cons.prems(2) xs obtain u us' where us: "us = u # us'" and u: "R x u" "list_all2 R xs' us'"
    by (auto simp: list_all2_Cons1)
  from x u us Cons.prems(3) Cons.IH show ?case by (metis list.set_intros)
qed

lemma represents_unique: "represents h a t \<Longrightarrow> represents h a u \<Longrightarrow> t = u"
proof (induction t arbitrary: a u)
  case (Requirement ands ors nt name)
  obtain ands' ors' nt' name' where u: "u = Requirement ands' ors' nt' name'" by (cases u)
  have "ands = ands'"
    using Requirement.prems u by (auto intro: list_all2_unique dest: Requirement.IH(1))
  moreover have "ors = ors'"
    using Requirement.prems u by (auto intro: list_all2_unique dest: Requirement.IH(2))
  moreover have "nt = nt'"
    using Requirement.prems u Requirement.IH(3)
    by (cases "node_not (h ! a)") (auto simp: option_rel_Some1)
  ultimately show ?case using Requirement.prems u by auto
qed

text \<open>The requirements on the current path are ancestors: they stand for larger trees.\<close>

definition only_ancestors :: "req_heap \<Rightarrow> addr set \<Rightarrow> requirement \<Rightarrow> bool" where
  "only_ancestors h seen t \<longleftrightarrow> (\<forall>b\<in>seen. \<forall>t'. represents h b t' \<longrightarrow> size t < size t')"

lemma only_ancestors_fresh:
  "only_ancestors h seen t \<Longrightarrow> represents h a t \<Longrightarrow> a \<notin> seen"
  by (auto simp: only_ancestors_def)

lemma only_ancestors_child:
  assumes "only_ancestors h seen t" and "represents h a t" and "size t' < size t"
  shows "only_ancestors h (insert a seen) t'"
  unfolding only_ancestors_def
proof (intro ballI allI impI)
  fix b u
  assume "b \<in> insert a seen" and "represents h b u"
  then show "size t' < size u"
    using assms represents_unique [of h a t u] by (force simp: only_ancestors_def)
qed

lemma heap_and_refines:
  assumes "list_all2 (represents h) as ts"
    and "\<And>a t. t \<in> set ts \<Longrightarrow> represents h a t \<Longrightarrow>
           heap_matches f h ps (Some a) seen = Some (Returned (requirement_matches t ps, seen))"
  shows "heap_and f h ps as seen =
           Some (Returned (list_all (\<lambda>t. requirement_matches t ps) ts, seen))"
  using assms
proof (induction as arbitrary: ts)
  case Nil
  then show ?case by simp
next
  case (Cons a as)
  then obtain u us where ts: "ts = u # us" and u: "represents h a u" "list_all2 (represents h) as us"
    by (auto simp: list_all2_Cons1)
  have "heap_matches f h ps (Some a) seen = Some (Returned (requirement_matches u ps, seen))"
    using Cons.prems(2) ts u(1) by simp
  moreover have "heap_and f h ps as seen =
      Some (Returned (list_all (\<lambda>t. requirement_matches t ps) us, seen))"
    using Cons.IH [OF u(2)] Cons.prems(2) ts by simp
  ultimately show ?case using ts by simp
qed

lemma heap_or_refines:
  assumes "list_all2 (represents h) as ts"
    and "\<And>a t. t \<in> set ts \<Longrightarrow> represents h a t \<Longrightarrow>
           heap_matches f h ps (Some a) seen = Some (Returned (requirement_matches t ps, seen))"
  shows "heap_or f h ps as seen =
           Some (Returned (list_ex (\<lambda>t. requirement_matches t ps) ts, seen))"
  using assms
proof (induction as arbitrary: ts)
  case Nil
  then show ?case by simp
next
  case (Cons a as)
  then obtain u us where ts: "ts = u # us" and u: "represents h a u" "list_all2 (represents h) as us"
    by (auto simp: list_all2_Cons1)
  have "heap_matches f h ps (Some a) seen = Some (Returned (requirement_matches u ps, seen))"
    using Cons.prems(2) ts u(1) by simp
  moreover have "heap_or f h ps as seen =
      Some (Returned (list_ex (\<lambda>t. requirement_matches t ps) us, seen))"
    using Cons.IH [OF u(2)] Cons.prems(2) ts by simp
  ultimately show ?case using ts by simp
qed

lemma heap_matches_refines:
  assumes "represents h a t" and "only_ancestors h seen t" and "card ({..<length h} - seen) < f"
  shows "heap_matches f h ps (Some a) seen = Some (Returned (requirement_matches t ps, seen))"
  using assms
proof (induction t arbitrary: a seen f rule: measure_induct_rule [of size])
  case (less t)
  obtain ands ors nt name where t: "t = Requirement ands ors nt name" by (cases t)
  from less.prems(2,1) have fresh: "a \<notin> seen" by (rule only_ancestors_fresh)
  from less.prems(1) have a: "a < length h" by (rule represents_in_heap)
  obtain fuel where f: "f = Suc fuel" using less.prems(3) by (cases f) auto
  have room: "card ({..<length h} - insert a seen) < fuel"
    using card_unseen_insert [OF fresh a] less.prems(3) f by simp
  have sub: "heap_matches fuel h ps (Some b) (insert a seen) =
               Some (Returned (requirement_matches u ps, insert a seen))"
    if "size u < size t" "represents h b u" for b u
    using less.IH [OF that(1,2) only_ancestors_child [OF less.prems(2,1) that(1)] room] .
  have ands: "heap_and fuel h ps (node_and (h ! a)) (insert a seen) =
      Some (Returned (list_all (\<lambda>u. requirement_matches u ps) ands, insert a seen))"
    using less.prems(1) t
    by (intro heap_and_refines sub) (auto simp: less_Suc_eq_le trans_le_add1 size_list_estimation')
  have ors: "heap_or fuel h ps (node_or (h ! a)) (insert a seen) =
      Some (Returned (list_ex (\<lambda>u. requirement_matches u ps) ors, insert a seen))"
    using less.prems(1) t
    by (intro heap_or_refines sub)
       (auto simp: less_Suc_eq_le trans_le_add1 trans_le_add2 size_list_estimation')
  show ?case
  proof (cases nt)
    case None
    then show ?thesis using fresh a f t less.prems(1) ands ors by auto
  next
    case (Some u)
    with less.prems(1) t obtain b where b: "node_not (h ! a) = Some b" "represents h b u"
      by (auto simp: option_rel_Some2)
    have "size u < size t" using Some t by simp
    from sub [OF this b(2)] b(1) Some show ?thesis using fresh a f t less.prems(1) by auto
  qed
qed


lemma heap_selector_total: "heap_selector_matches h ps purposes \<noteq> None"
proof (cases ps)
  case None
  then show ?thesis by (simp add: heap_selector_matches_def)
next
  case (Some a)
  have "heap_matches (Suc (length h)) h purposes (Some a) {} \<noteq> None"
    by (rule heap_matches_enough(1)) simp
  with Some show ?thesis by (auto simp: heap_selector_matches_def)
qed

lemma heap_selector_refines:
  assumes "represents h a (selector_requirement sel)"
  shows "heap_selector_matches h (Some a) purposes =
           Some (Returned (selector_matches (Some sel) purposes))"
proof -
  have "heap_matches (Suc (length h)) h purposes (Some a) {} =
      Some (Returned (requirement_matches (selector_requirement sel) purposes, {}))"
    by (rule heap_matches_refines [OF assms]) (auto simp: only_ancestors_def)
  then show ?thesis by (simp add: heap_selector_matches_def selector_matches_def)
qed

text \<open>The heap of documentation example 3 (either purpose, not both) and a circular one.\<close>

definition xor_requirement :: "string \<Rightarrow> string \<Rightarrow> requirement" where
  "xor_requirement p q =
     req_all_of [req_any_of [req_name_is p, req_name_is q],
                 req_negation (req_all_of [req_name_is p, req_name_is q])]"

definition node_named :: "string \<Rightarrow> req_node" where
  "node_named n = \<lparr>node_and = [], node_or = [], node_not = None, node_name = n\<rparr>"

definition xor_heap :: req_heap where
  "xor_heap =
    [\<lparr>node_and = [1, 2], node_or = [], node_not = None, node_name = []\<rparr>,
     \<lparr>node_and = [], node_or = [4, 5], node_not = None, node_name = []\<rparr>,
     \<lparr>node_and = [], node_or = [], node_not = Some 3, node_name = []\<rparr>,
     \<lparr>node_and = [4, 5], node_or = [], node_not = None, node_name = []\<rparr>,
     node_named ''foo'', node_named ''bar'']"

lemma xor_heap_represents: "represents xor_heap 0 (xor_requirement ''foo'' ''bar'')"
  by (simp add: xor_heap_def xor_requirement_def node_named_def)

definition cyclic_heap :: req_heap where
  "cyclic_heap =
    [\<lparr>node_and = [1], node_or = [], node_not = None, node_name = []\<rparr>,
     \<lparr>node_and = [], node_or = [], node_not = Some 0, node_name = []\<rparr>]"

subsection \<open>When the evaluation panics\<close>

text \<open>
  One requirement refers to another. A heap is closed if every reference points into it, as Go's
  pointers do. The path that \<open>seenRequirements\<close> records leads along references to the requirement
  at hand, so a circular reference is reported only where there is one.
\<close>

definition children :: "req_heap \<Rightarrow> addr \<Rightarrow> addr set" where
  "children h a = set (node_and (h ! a)) \<union> set (node_or (h ! a)) \<union> set_option (node_not (h ! a))"

definition refers :: "req_heap \<Rightarrow> (addr \<times> addr) set" where
  "refers h = {(a, b). a < length h \<and> b \<in> children h a}"

definition closed_heap :: "req_heap \<Rightarrow> bool" where
  "closed_heap h \<longleftrightarrow> (\<forall>a < length h. \<forall>b \<in> children h a. b < length h)"

definition on_path :: "req_heap \<Rightarrow> addr set \<Rightarrow> addr list \<Rightarrow> bool" where
  "on_path h seen as \<longleftrightarrow> (\<forall>a \<in> set as. a < length h \<and> (\<forall>b \<in> seen. (b, a) \<in> (refers h)\<^sup>+))"

lemma on_path_children:
  assumes "closed_heap h" and "on_path h seen [a]" and "set as \<subseteq> children h a"
  shows "on_path h (insert a seen) as"
  using assms unfolding on_path_def closed_heap_def
  by (auto simp: refers_def intro: trancl_into_trancl)

lemma on_path_simps:
  "on_path h seen (a # as) \<longleftrightarrow> on_path h seen [a] \<and> on_path h seen as"
  by (auto simp: on_path_def)

lemma heap_panics_on_cycles:
  assumes "closed_heap h" and "acyclic (refers h)"
  shows "on_path h seen (case r of None \<Rightarrow> [] | Some a \<Rightarrow> [a]) \<Longrightarrow>
           heap_matches f h ps r seen \<noteq> Some (Panicked p)"
    and "on_path h seen as \<Longrightarrow> heap_and f h ps as seen \<noteq> Some (Panicked p)"
    and "on_path h seen as \<Longrightarrow> heap_or f h ps as seen \<noteq> Some (Panicked p)"
  using assms
proof (induction f h ps r seen and f h ps as seen and f h ps as seen
    rule: heap_matches_heap_and_heap_or.induct)
  case (3 fuel h ps a seen)
  from "3.prems" have a: "a \<notin> seen" "\<not> length h \<le> a"
    by (auto simp: on_path_def acyclic_def)
  have path: "on_path h (insert a seen) as" if "set as \<subseteq> children h a" for as
    using that "3.prems" by (auto intro: on_path_children)
  note IH = "3.IH" [OF a]
  show ?case
  proof (cases "node_not (h ! a)")
    case None
    have "heap_and fuel h ps (node_and (h ! a)) (insert a seen) \<noteq> Some (Panicked p)"
      if "node_name (h ! a) = []" "node_and (h ! a) \<noteq> []"
      using IH(1) [OF _ None that(2)] that(1) path "3.prems"(2,3) by (auto simp: children_def)
    moreover have "heap_or fuel h ps (node_or (h ! a)) (insert a seen) \<noteq> Some (Panicked p)"
      if "node_name (h ! a) = []" "node_and (h ! a) = []" "node_or (h ! a) \<noteq> []"
      using IH(2) [OF _ None _ that(3)] that(1,2) path "3.prems"(2,3) by (auto simp: children_def)
    ultimately show ?thesis using a None
      by (auto simp: deferred_delete_def split: option.splits outcome.splits)
  next
    case (Some n)
    have "heap_matches fuel h ps (Some n) (insert a seen) \<noteq> Some (Panicked p)"
      if "node_name (h ! a) = []"
      using IH(3) [OF _ Some] that path [of "[n]"] Some "3.prems"(2,3) by (auto simp: children_def)
    with a Some show ?thesis
      by (auto simp: deferred_delete_def split: option.splits outcome.splits)
  qed
next
  case (5 fuel h ps a as seen)
  from "5.prems" have path: "on_path h seen [a]" "on_path h seen as"
    by (auto simp: on_path_simps [of h seen a as])
  show ?case
  proof (cases "heap_matches fuel h ps (Some a) seen" rule: seen_result_cases)
    case (Returned c s)
    then have "s = seen" by (rule heap_seen_restored)
    with Returned "5.prems"(2,3) path show ?thesis
      by (cases c) (auto dest: "5.IH"(2) [OF Returned [unfolded \<open>s = seen\<close>] refl refl, rotated])
  qed (use "5.IH"(1) "5.prems"(2,3) path in auto)
next
  case (7 fuel h ps a as seen)
  from "7.prems" have path: "on_path h seen [a]" "on_path h seen as"
    by (auto simp: on_path_simps [of h seen a as])
  show ?case
  proof (cases "heap_matches fuel h ps (Some a) seen" rule: seen_result_cases)
    case (Returned c s)
    then have "s = seen" by (rule heap_seen_restored)
    with Returned "7.prems"(2,3) path show ?thesis
      by (cases c) (auto dest: "7.IH"(2) [OF Returned [unfolded \<open>s = seen\<close>] refl refl, rotated])
  qed (use "7.IH"(1) "7.prems"(2,3) path in auto)
qed auto

lemma less_acyclic: "(\<And>a b. (a, b) \<in> R \<Longrightarrow> a < (b :: nat)) \<Longrightarrow> acyclic R"
  by (rule acyclic_subset [OF wf_acyclic [OF wf_less]]) auto

lemma xor_heap_sound: "closed_heap xor_heap" "acyclic (refers xor_heap)"
  by (auto simp: closed_heap_def children_def xor_heap_def node_named_def numeral_nat less_Suc_eq)
     (rule less_acyclic, auto simp: refers_def children_def xor_heap_def node_named_def numeral_nat less_Suc_eq)

subsection \<open>Properties\<close>

text \<open>Evaluating a selector always ends, also when requirements refer to each other in a circle.\<close>

theorem selector_evaluation_ends: "\<exists>res. heap_selector_matches h ps purposes = Some res"
  using heap_selector_total [of h ps purposes] by auto

text \<open>
  C22. On a heap without circular references the evaluation returns a verdict: it neither reports a
  circular reference nor follows a pointer to nowhere. Shared requirements are no obstacle.
\<close>

theorem selector_without_cycle_returns:
  assumes "closed_heap h" and "acyclic (refers h)" and "a < length h"
  shows "\<exists>b. heap_selector_matches h (Some a) purposes = Some (Returned b)"
proof -
  obtain res where res: "heap_matches (Suc (length h)) h purposes (Some a) {} = Some res"
    using heap_matches_enough(1) [of h "{}" "Suc (length h)" purposes "Some a"] by auto
  have "heap_matches (Suc (length h)) h purposes (Some a) {} \<noteq> Some (Panicked p)" for p
    by (rule heap_panics_on_cycles(1) [OF assms(1,2)]) (use assms(3) in \<open>auto simp: on_path_def\<close>)
  with res show ?thesis
    by (cases res) (auto simp: heap_selector_matches_def)
qed

theorem selector_without_cycle_returns_witness:
  "closed_heap xor_heap \<and> acyclic (refers xor_heap) \<and>
   (\<exists>b. heap_selector_matches xor_heap (Some 0) [''foo''] = Some (Returned b))"
  using selector_without_cycle_returns [OF xor_heap_sound, of 0 "[''foo'']"] xor_heap_sound
  by (simp add: xor_heap_def)

text \<open>A circular reference that is evaluated is reported by a panic.\<close>

theorem circular_selector_panics:
  "heap_selector_matches cyclic_heap (Some 0) purposes = Some (Panicked CircularReference)"
  by (simp add: heap_selector_matches_def cyclic_heap_def)

text \<open>
  C21. On the requirements of a decoded configuration, the evaluation on the heap with its map of
  requirements on the path gives the verdict of the tree that the configuration shows.
\<close>

theorem selector_refines_tree:
  assumes "represents h a (selector_requirement sel)"
  shows "heap_selector_matches h (Some a) purposes = Some (Returned (selector_matches (Some sel) purposes))"
  using assms by (rule heap_selector_refines)

theorem selector_refines_tree_witness:
  "heap_selector_matches xor_heap (Some 0) [''bar''] =
   Some (Returned (selector_matches (Some \<lparr>selector_requirement = xor_requirement ''foo'' ''bar''\<rparr>) [''bar'']))"
  by (rule selector_refines_tree) (simp add: xor_heap_represents)

text \<open>The documented selector for one purpose or the other, but not both, means just that.\<close>

theorem xor_selector_meaning:
  assumes "p \<noteq> []" and "q \<noteq> []"
  shows "selector_matches (Some \<lparr>selector_requirement = xor_requirement p q\<rparr>) purposes \<longleftrightarrow>
           (p \<in> set purposes) \<noteq> (q \<in> set purposes)"
  using assms by (auto simp: selector_matches_def xor_requirement_def)

theorem xor_selector_meaning_witness:
  "selector_matches (Some \<lparr>selector_requirement = xor_requirement ''foo'' ''bar''\<rparr>) [''foo'', ''baz'']"
  using xor_selector_meaning [of "''foo''" "''bar''" "[''foo'', ''baz'']"] by simp

text \<open>
  Negation distributes over the two kinds of composition: not all of them is some not, and not
  any of them is all not.
\<close>

theorem selector_de_morgan:
  assumes "rs \<noteq> []"
  shows "requirement_matches (req_negation (req_all_of rs)) purposes =
           requirement_matches (req_any_of (map req_negation rs)) purposes \<and>
         requirement_matches (req_negation (req_any_of rs)) purposes =
           requirement_matches (req_all_of (map req_negation rs)) purposes"
  using assms by (auto simp: list_all_iff list_ex_iff)

theorem selector_de_morgan_witness:
  "requirement_matches (req_negation (req_all_of [req_name_is ''a'', req_name_is ''b''])) [''a''] =
   requirement_matches (req_any_of (map req_negation [req_name_is ''a'', req_name_is ''b''])) [''a'']"
  using selector_de_morgan [of "[req_name_is ''a'', req_name_is ''b'']" "[''a'']"] by simp

end
