(* ===== verification/Config_Types.thy ===== *)
theory Config_Types
  imports Purpose_Selector
begin

section \<open>Configuration and Kubernetes objects\<close>

text \<open>
  The types of \<open>api/dns/v1alpha1/config_types.go\<close> and the fields that the controller uses of the
  Kubernetes, Flux and openMCP objects it handles. A Go struct that embeds \<open>metav1.ObjectMeta\<close> is a
  record that extends \<open>object_meta\<close>. A pointer is an \<open>option\<close>. The specs of Flux sources and the
  parts of a HelmRelease that the controller never touches are carried as opaque text.
  A label or annotation map is a partial map (Go reads nil and empty maps alike).
\<close>

type_synonym labels = "string \<rightharpoonup> string"

text \<open>A \<open>time.Duration\<close>, in nanoseconds; the code only compares and stores it.\<close>

type_synonym duration = int

record object_meta =
  meta_name :: string
  meta_namespace :: string
  meta_labels :: labels
  meta_annotations :: labels
  meta_finalizers :: "string list"
  meta_owners :: "string list"
  meta_deleting :: bool

text \<open>\<open>client.ObjectKeyFromObject\<close> and \<open>testutils.RequestFromObject\<close>: an object's key.\<close>

definition object_key :: "'a object_meta_scheme \<Rightarrow> namespaced_name" where
  "object_key o' = \<lparr>nn_namespace = meta_namespace o', nn_name = meta_name o'\<rparr>"

lemma object_key_simps [simp, meta_simps]:
  "nn_namespace (object_key o') = meta_namespace o'"
  "nn_name (object_key o') = meta_name o'"
  by (simp_all add: object_key_def)

lemma object_key_finalizers [simp]: "object_key (o'\<lparr>meta_finalizers := fins\<rparr>) = object_key o'"
  by (simp add: object_key_def)

subsection \<open>The DNSServiceConfig\<close>

record secret_copy =
  copy_source :: string
  copy_target :: "string option"

record secrets_to_copy =
  to_platform_cluster :: "secret_copy list"
  to_target_cluster :: "secret_copy list"

record external_dns_source =
  chart_name :: string
  source_helm :: "string option"
  source_git :: "string option"
  source_oci :: "string option"

record purpose_config =
  config_name :: string
  config_selector :: "purpose_selector option"
  config_interval :: "duration option"
  config_helm_values :: "string option"

record service_config_spec =
  spec_source :: external_dns_source
  spec_secrets :: "secrets_to_copy option"
  spec_interval :: "duration option"
  spec_purposes :: "purpose_config list"

record service_config = object_meta +
  service_spec :: service_config_spec

subsection \<open>Other objects\<close>

record platform_service = object_meta +
  image_pull_secrets :: "string list"

record cluster = object_meta +
  cluster_purposes :: "string list"

record secret = object_meta +
  secret_data :: "string \<rightharpoonup> string"
  secret_type :: string

record access_request = object_meta +
  request_granted :: bool
  request_secret_ref :: "string option"

datatype source_kind = HelmRepository | GitRepository | OCIRepository

instantiation source_kind :: enum
begin

definition "enum_source_kind = [HelmRepository, GitRepository, OCIRepository]"

definition "enum_all_source_kind P \<longleftrightarrow> P HelmRepository \<and> P GitRepository \<and> P OCIRepository"

definition "enum_ex_source_kind P \<longleftrightarrow> P HelmRepository \<or> P GitRepository \<or> P OCIRepository"

instance
proof
  have univ: "x = HelmRepository \<or> x = GitRepository \<or> x = OCIRepository" for x :: source_kind
    by (cases x) simp_all
  show "(UNIV :: source_kind set) = set Enum.enum"
    using univ by (auto simp: enum_source_kind_def)
  show "distinct (Enum.enum :: source_kind list)"
    by (simp add: enum_source_kind_def)
  show "Enum.enum_all P \<longleftrightarrow> Ball UNIV P" for P :: "source_kind \<Rightarrow> bool"
    using univ by (auto simp: enum_all_source_kind_def) (metis univ)
  show "Enum.enum_ex P \<longleftrightarrow> Bex UNIV P" for P :: "source_kind \<Rightarrow> bool"
    by (auto simp: enum_ex_source_kind_def) (metis univ)
qed

end

lemma all_source_kinds: "(\<forall>k :: source_kind. P k) \<longleftrightarrow> P HelmRepository \<and> P GitRepository \<and> P OCIRepository"
  by (metis source_kind.exhaust)

text \<open>\<open>SourceKindHelmRepository\<close> and its siblings.\<close>

definition source_kind_name :: "source_kind \<Rightarrow> string" where
  "source_kind_name k =
     (case k of
        HelmRepository \<Rightarrow> ''HelmRepository''
      | GitRepository \<Rightarrow> ''GitRepository''
      | OCIRepository \<Rightarrow> ''OCIRepository'')"

lemma source_kind_name_inject [simp]: "source_kind_name j = source_kind_name k \<longleftrightarrow> j = k"
  by (cases j; cases k) (simp_all add: source_kind_name_def)

text \<open>A Flux source: \<open>source_type_kind\<close> is the kind its type metadata carries, often empty.\<close>

record flux_source = object_meta +
  source_type_kind :: string
  source_spec :: string

record source_reference =
  ref_api_version :: string
  ref_kind :: string
  ref_name :: string
  ref_namespace :: string

record chart_template =
  chart_source_ref :: source_reference
  chart_chart :: string
  chart_version :: string

record remediation =
  remediation_retries :: int
  remediation_rest :: string

record release_action =
  action_crds :: string
  action_remediation :: "remediation option"
  action_rest :: string

record kubeconfig_ref =
  kubeconfig_secret :: string
  kubeconfig_key :: string

record helm_release = object_meta +
  hr_chart :: "chart_template option"
  hr_chart_ref :: "source_reference option"
  hr_release_name :: string
  hr_target_namespace :: string
  hr_storage_namespace :: string
  hr_values :: "string option"
  hr_install :: "release_action option"
  hr_upgrade :: "release_action option"
  hr_kubeconfig :: "kubeconfig_ref option"
  hr_interval :: duration
  hr_rest :: string

subsection \<open>Choosing the configuration\<close>

text \<open>The loop of \<open>reconcile\<close> that takes the first configuration whose selector matches.\<close>

fun select_config :: "purpose_config list \<Rightarrow> string list \<Rightarrow> purpose_config option" where
  "select_config [] purposes = None"
| "select_config (cfg # cfgs) purposes =
     (if selector_matches (config_selector cfg) purposes then Some cfg
      else select_config cfgs purposes)"

lemma select_config_None_iff:
  "select_config cfgs purposes = None \<longleftrightarrow>
   (\<forall>cfg \<in> set cfgs. \<not> selector_matches (config_selector cfg) purposes)"
  by (induction cfgs) auto

subsection \<open>Properties\<close>

text \<open>
  The configuration that applies to a Cluster is the first in the list whose selector matches its
  purposes, and none if none matches.
\<close>

theorem first_matching_config_applies:
  "select_config cfgs purposes =
     (case filter (\<lambda>cfg. selector_matches (config_selector cfg) purposes) cfgs of
        [] \<Rightarrow> None | cfg # _ \<Rightarrow> Some cfg)"
  by (induction cfgs) auto

text \<open>Which configuration applies depends on the set of purposes only, not on order or repetition.\<close>

theorem config_depends_on_purpose_set:
  assumes "set ps = set qs"
  shows "select_config cfgs ps = select_config cfgs qs"
  using assms
  by (induction cfgs)
     (auto simp: selector_matches_def split: option.split dest: requirement_matches_set)

theorem config_depends_on_purpose_set_witness:
  "select_config
     [\<lparr>config_name = ''first'',
       config_selector = Some \<lparr>selector_requirement = req_negation (req_name_is ''b'')\<rparr>,
       config_interval = None, config_helm_values = None\<rparr>,
      \<lparr>config_name = ''second'',
       config_selector = Some \<lparr>selector_requirement = xor_requirement ''b'' ''c''\<rparr>,
       config_interval = None, config_helm_values = None\<rparr>] [''a'', ''b'', ''a''] =
   select_config
     [\<lparr>config_name = ''first'',
       config_selector = Some \<lparr>selector_requirement = req_negation (req_name_is ''b'')\<rparr>,
       config_interval = None, config_helm_values = None\<rparr>,
      \<lparr>config_name = ''second'',
       config_selector = Some \<lparr>selector_requirement = xor_requirement ''b'' ''c''\<rparr>,
       config_interval = None, config_helm_values = None\<rparr>] [''b'', ''a'']"
  by (rule config_depends_on_purpose_set) auto

end
