(* ===== verification/Kube_Api.thy ===== *)
theory Kube_Api
  imports Config_Types
begin

section \<open>What the controller is given: clients and libraries\<close>

text \<open>
  Code that is not part of the repository is a parameter. The API server behind a
  \<open>client.Client\<close> acts on a world of an arbitrary type \<open>'w\<close>: each operation takes the world and
  returns its answer and the next world, so a definition that takes such a client works for every
  server, with failures and concurrent changes by others included. \<open>lib\<close> collects the functions and
  constants of the libraries. The predicates at the end state documented behaviour of the libraries;
  theorems that need it name it as a hypothesis.
\<close>

subsection \<open>Clients\<close>

text \<open>API errors as \<open>apierrors.IsNotFound\<close> and \<open>apierrors.IsAlreadyExists\<close> classify them.\<close>

datatype api_error = NotFound | AlreadyExists | OtherError string

text \<open>\<open>client.IgnoreNotFound\<close>, and the test for an error that is not \<open>IsNotFound\<close>.\<close>

definition ignore_not_found :: "api_error option \<Rightarrow> api_error option" where
  "ignore_not_found e = (if e = Some NotFound then None else e)"

text \<open>The result of the mutate function that \<open>controllerutil.CreateOrUpdate\<close> is given.\<close>

datatype 'o mutated = Mutated 'o | MutateFailed string | MutatePanicked panic

text \<open>
  The operations of a client on objects of one kind. \<open>api_upsert\<close> is
  \<open>controllerutil.CreateOrUpdate\<close>: it takes the object it was called with and the mutate function,
  and on success returns the object as the call leaves it.
\<close>

record ('o, 'w) kind_api =
  api_get :: "namespaced_name \<Rightarrow> 'w \<Rightarrow> (api_error + 'o) \<times> 'w"
  api_list :: "string \<Rightarrow> labels \<Rightarrow> 'w \<Rightarrow> (api_error + 'o list) \<times> 'w"
  api_create :: "'o \<Rightarrow> 'w \<Rightarrow> api_error option \<times> 'w"
  api_patch :: "'o \<Rightarrow> 'o \<Rightarrow> 'w \<Rightarrow> (api_error + 'o) \<times> 'w"
  api_delete :: "namespaced_name \<Rightarrow> 'w \<Rightarrow> api_error option \<times> 'w"
  api_upsert :: "'o \<Rightarrow> ('o \<Rightarrow> 'o mutated) \<Rightarrow> 'w \<Rightarrow> (api_error + 'o) outcome \<times> 'w"

record 'w client =
  clusters_api :: "(cluster, 'w) kind_api"
  configs_api :: "(service_config, 'w) kind_api"
  services_api :: "(platform_service, 'w) kind_api"
  secrets_api :: "(secret, 'w) kind_api"
  namespaces_api :: "(object_meta, 'w) kind_api"
  sources_api :: "source_kind \<Rightarrow> (flux_source, 'w) kind_api"
  releases_api :: "(helm_release, 'w) kind_api"

subsection \<open>Cluster access\<close>

text \<open>\<open>reconcile.Result\<close>; only \<open>RequeueAfter\<close> is ever read or set.\<close>

record requeue_result =
  requeue_after :: duration

text \<open>
  \<open>accesslib.ClusterAccessReconciler\<close>. A \<open>*clusters.Cluster\<close> is a handle; \<open>None\<close> is the nil pointer.
\<close>

type_synonym target = nat

record 'w access_api =
  access_reconcile :: "namespaced_name \<Rightarrow> 'w \<Rightarrow> (requeue_result \<times> api_error option) \<times> 'w"
  access_request_of :: "namespaced_name \<Rightarrow> 'w \<Rightarrow> (access_request option \<times> api_error option) \<times> 'w"
  access_cluster :: "namespaced_name \<Rightarrow> 'w \<Rightarrow> (target option \<times> api_error option) \<times> 'w"
  access_reconcile_delete :: "namespaced_name \<Rightarrow> 'w \<Rightarrow> (requeue_result \<times> api_error option) \<times> 'w"

subsection \<open>Libraries\<close>

text \<open>
  \<open>lib_client_of\<close> is \<open>(*clusters.Cluster).Client\<close> (\<open>None\<close> is the nil interface),
  \<open>lib_remove_annotation\<close> is \<open>ctrlutils.EnsureAnnotation\<close> in mode \<open>DELETE\<close> with immediate patch,
  \<open>lib_shorten\<close> is \<open>ctrlutils.ShortenToXCharactersUnsafe\<close>, \<open>lib_merge\<close> is \<open>maputils.Merge\<close>,
  \<open>lib_set_owner\<close> is \<open>controllerutil.SetOwnerReference\<close> on the owner references,
  \<open>lib_project_sources\<close> and \<open>lib_project_requests\<close> are \<open>collections.ProjectSliceToSlice\<close>.
  \<open>lib_range\<close> and \<open>lib_range_clusters\<close> give the order in which a \<open>range\<close> loop visits the entries of
  a Go map; Go leaves it open and lets it differ from run to run, so it may depend on the world.
\<close>

record 'w lib =
  lib_client_of :: "target \<Rightarrow> 'w client option"
  lib_remove_annotation :: "string \<Rightarrow> cluster \<Rightarrow> 'w \<Rightarrow> (api_error + cluster) \<times> 'w"
  lib_shorten :: "string \<Rightarrow> int \<Rightarrow> string outcome"
  lib_max_name_length :: int
  lib_merge :: "labels list \<Rightarrow> labels"
  lib_set_owner :: "cluster \<Rightarrow> string list \<Rightarrow> string + string list"
  lib_add_finalizer :: "string \<Rightarrow> string list \<Rightarrow> bool \<times> string list"
  lib_remove_finalizer :: "string \<Rightarrow> string list \<Rightarrow> bool \<times> string list"
  lib_project_sources ::
    "(flux_source \<Rightarrow> source_kind \<times> flux_source) \<Rightarrow> flux_source list \<Rightarrow> (source_kind \<times> flux_source) list"
  lib_project_requests :: "(namespaced_name \<Rightarrow> namespaced_name) \<Rightarrow> namespaced_name list \<Rightarrow> namespaced_name list"
  lib_range :: "'w \<Rightarrow> (string \<times> string) list \<Rightarrow> (string \<times> string) list"
  lib_range_clusters :: "namespaced_name list \<Rightarrow> namespaced_name list"
  lib_managed_by_label :: string
  lib_managed_purpose_label :: string
  lib_operation_annotation :: string
  lib_operation_ignore :: string
  lib_operation_reconcile :: string
  lib_openmcp_group :: string
  lib_flux_api_version :: string
  lib_create_replace :: string
  lib_kubeconfig_key :: string

subsection \<open>Documented behaviour of the libraries\<close>

text \<open>A \<open>range\<close> loop visits every entry of the map once.\<close>

definition range_law :: "'w lib \<Rightarrow> bool" where
  "range_law L \<longleftrightarrow> (\<forall>w xs. mset (lib_range L w xs) = mset xs)"

definition range_clusters_law :: "'w lib \<Rightarrow> bool" where
  "range_clusters_law L \<longleftrightarrow> (\<forall>xs. mset (lib_range_clusters L xs) = mset xs)"

text \<open>\<open>maputils.Merge\<close>: of maps that share a key, the last one wins.\<close>

definition merge_law :: "'w lib \<Rightarrow> bool" where
  "merge_law L \<longleftrightarrow> (\<forall>ms. lib_merge L ms = foldl (++) Map.empty ms)"

text \<open>\<open>collections.ProjectSliceToSlice\<close> applies the projection to every element.\<close>

definition project_law :: "'w lib \<Rightarrow> bool" where
  "project_law L \<longleftrightarrow>
     (\<forall>f xs. lib_project_sources L f xs = map f xs) \<and>
     (\<forall>f xs. lib_project_requests L f xs = map f xs)"

text \<open>
  \<open>controllerutil.AddFinalizer\<close> and \<open>RemoveFinalizer\<close> report whether they changed the list; the
  finalizer is there, or gone, afterwards.
\<close>

definition finalizer_law :: "'w lib \<Rightarrow> bool" where
  "finalizer_law L \<longleftrightarrow>
     (\<forall>f fs. lib_add_finalizer L f fs =
        (if f \<in> set fs then (False, fs) else (True, fs @ [f]))) \<and>
     (\<forall>f fs. lib_remove_finalizer L f fs =
        (f \<in> set fs, filter (\<lambda>g. g \<noteq> f) fs))"

text \<open>
  \<open>ShortenToXCharactersUnsafe\<close> keeps names that fit, and never gives more than it was asked for.
\<close>

definition shorten_law :: "'w lib \<Rightarrow> bool" where
  "shorten_law L \<longleftrightarrow>
     (\<forall>s n t. lib_shorten L s n = Returned t \<longrightarrow> int (length t) \<le> n) \<and>
     (\<forall>s n. int (length s) \<le> n \<longrightarrow> lib_shorten L s n = Returned s)"

text \<open>
  \<open>controllerutil.SetOwnerReference\<close> updates the reference if the object has it already, so setting it
  again changes nothing.
\<close>

definition owner_law :: "'w lib \<Rightarrow> bool" where
  "owner_law L \<longleftrightarrow>
     (\<forall>c os os'. lib_set_owner L c os = Inr os' \<longrightarrow> lib_set_owner L c os' = Inr os')"

lemma merge_lawD: "merge_law L \<Longrightarrow> lib_merge L ms = foldl (++) Map.empty ms"
  by (simp add: merge_law_def)

end
