(* ===== verification/Reconcile_Base.thy ===== *)
theory Reconcile_Base
  imports Kube_Api
begin

section \<open>Results, errors and constants of the controller\<close>

text \<open>
  The parts of \<open>internal/controllers/cluster/controller.go\<close> that all its phases share: the
  \<open>ReconcileResult\<close> that is handed from phase to phase, the guard that ends a run after an error or a
  requeue, the reconciler's own fields, the constants, and \<open>clusterBasedResourceName\<close>. Error and
  event texts are structured values with one constructor per format string.
\<close>

subsection \<open>Results, messages and errors\<close>

text \<open>The reasons of \<open>clusterconst\<close>, and the one that \<open>constants.go\<close> adds.\<close>

datatype reason =
  PlatformClusterInteractionProblem
| TargetClusterInteractionProblem
| ConfigurationProblem
| InternalError

datatype copy_to = PlatformClusterCopy | TargetClusterCopy

text \<open>One constructor per \<open>fmt.Errorf\<close> of the controller, with what the text is built from.\<close>

datatype failure =
  RemoveAnnotationFailed api_error
| ConfigNotFound string
| GetConfigFailed string api_error
| GetPlatformServiceFailed string api_error
| GetClusterFailed namespaced_name api_error
| AddFinalizerFailed namespaced_name api_error
| RemoveFinalizerFailed namespaced_name api_error
| AccessReconcileFailed api_error
| AccessRequestFailed api_error
| AccessFailed api_error
| AccessDeleteFailed api_error
| NoAccessForCopying copy_to
| NoAccessForRemoving copy_to
| GetSourceSecretFailed namespaced_name api_error
| GetTargetSecretFailed namespaced_name api_error
| TargetSecretNotManaged namespaced_name
| WriteSecretFailed namespaced_name api_error
| ListSecretsFailed string api_error
| DeleteSecretFailed namespaced_name api_error
| ListSourcesFailed source_kind string api_error
| NoSourceConfigured
| WriteSourceFailed source_kind namespaced_name api_error
| DeleteSourceFailed string namespaced_name api_error
| GetNamespaceFailed string api_error
| CreateNamespaceFailed string api_error
| WriteReleaseFailed namespaced_name api_error
| GetReleaseFailed namespaced_name api_error
| ReleaseLabelMissing namespaced_name string string "string option"
| DeleteReleaseFailed namespaced_name api_error

record reasonable_error =
  error_reason :: reason
  error_failure :: failure

text \<open>The messages; \<open>NoMessage\<close> is the empty string, which no other message is.\<close>

datatype message =
  NoMessage
| CopiedSecrets nat string copy_to
| RemovedSecrets nat string copy_to nat
| WroteSource source_kind
| RemovedSources
| CreatedNamespace string
| WroteRelease
| AwaitingReleaseDeletion
| DeployTriggered
| ExternalDnsRemoved

text \<open>\<open>ReconcileResult\<close>: what one reconciliation has found and done so far.\<close>

record reconcile_result =
  rr_related :: "namespaced_name option"
  rr_result :: requeue_result
  rr_error :: "reasonable_error option"
  rr_config :: "purpose_config option"
  rr_source_kind :: "source_kind option"
  rr_access_request :: "access_request option"
  rr_access :: "target option"
  rr_message :: message
  rr_provider_config :: "service_config option"
  rr_platform_service :: "platform_service option"

definition empty_result :: reconcile_result where
  "empty_result =
     \<lparr>rr_related = None, rr_result = \<lparr>requeue_after = 0\<rparr>, rr_error = None, rr_config = None,
      rr_source_kind = None, rr_access_request = None, rr_access = None, rr_message = NoMessage,
      rr_provider_config = None, rr_platform_service = None\<rparr>"

definition reasoned :: "failure \<Rightarrow> reason \<Rightarrow> reasonable_error" where
  "reasoned f why = \<lparr>error_reason = why, error_failure = f\<rparr>"

definition fail :: "reconcile_result \<Rightarrow> failure \<Rightarrow> reason \<Rightarrow> reconcile_result" where
  "fail rr f why = rr\<lparr>rr_error := Some (reasoned f why)\<rparr>"

text \<open>The guard after every phase: \<open>rr.ReconcileError != nil || rr.Result.RequeueAfter > 0\<close>.\<close>

definition stopped :: "reconcile_result \<Rightarrow> bool" where
  "stopped rr \<longleftrightarrow> rr_error rr \<noteq> None \<or> requeue_after (rr_result rr) > 0"

definition chain ::
  "('s, reconcile_result) comp \<Rightarrow> (reconcile_result \<Rightarrow> ('s, reconcile_result) comp) \<Rightarrow>
   ('s, reconcile_result) comp" where
  "chain m f = bind_st m (\<lambda>rr. if stopped rr then return_st rr else f rr)"

text \<open>Following a pointer: nil panics.\<close>

definition deref :: "'a option \<Rightarrow> ('a \<Rightarrow> ('s, 'b) comp) \<Rightarrow> ('s, 'b) comp" where
  "deref p f = (case p of None \<Rightarrow> (\<lambda>s. (Panicked NilDereference, s)) | Some a \<Rightarrow> f a)"

lemma deref_simps [simp]: "deref (Some a) f = f a" "deref None f s = (Panicked NilDereference, s)"
  by (simp_all add: deref_def)

definition of_outcome :: "'a outcome \<Rightarrow> ('s, 'a) comp" where
  "of_outcome x s = (x, s)"

subsection \<open>The reconciler\<close>

datatype event_type = EventNormal | EventWarning

record event =
  event_regarding :: namespaced_name
  event_related :: "namespaced_name option"
  event_kind :: event_type
  event_reason :: "reason option"
  event_note :: "failure + message"

record 'w reconciler =
  platform :: "'w client"
  event_recorder :: "(event \<Rightarrow> 'w \<Rightarrow> 'w) option"
  provider_name :: string
  provider_namespace :: string
  environment :: string
  access_reconciler :: "'w access_api"

text \<open>The constants of \<open>controller.go\<close> and \<open>constants.go\<close>.\<close>

definition controller_name :: string where
  "controller_name = ''DNSCluster''"

definition default_requeue_after :: duration where
  "default_requeue_after = 30 * 1000000000"

definition target_cluster_namespace :: string where
  "target_cluster_namespace = ''external-dns''"

definition dns_operation_annotation :: "'w lib \<Rightarrow> string" where
  "dns_operation_annotation L = ''dns.'' @ lib_operation_annotation L"

definition cluster_finalizer :: "'w lib \<Rightarrow> string" where
  "cluster_finalizer L = ''platformservice.'' @ lib_openmcp_group L @ ''/dns''"

text \<open>\<open>expectedLabels\<close>, the labels of everything the controller creates for a Cluster.\<close>

definition expected_labels :: "'w lib \<Rightarrow> 'w reconciler \<Rightarrow> string \<Rightarrow> (string \<times> string) list" where
  "expected_labels L r cluster_name =
     [(lib_managed_by_label L, provider_name r @ ''.'' @ controller_name),
      (lib_managed_purpose_label L, cluster_name)]"

text \<open>
  The loops that compare an object's labels with the expected ones: every expected entry is there.
\<close>

definition has_labels :: "(string \<times> string) list \<Rightarrow> labels \<Rightarrow> bool" where
  "has_labels expected actual = list_all (\<lambda>(k, v). actual k = Some v) expected"

text \<open>
  \<open>clusterBasedResourceName\<close>.
\<close>

definition name_suffix :: string where
  "name_suffix = ''.external-dns''"

definition cluster_based_resource_name :: "'w lib \<Rightarrow> string \<Rightarrow> string outcome" where
  "cluster_based_resource_name L cluster_name =
     map_outcome (\<lambda>s. s @ name_suffix)
       (lib_shorten L cluster_name (lib_max_name_length L - int (length name_suffix)))"

subsection \<open>What the API server and the annotation helper are relied on for\<close>

text \<open>
  A read answers with the object of that key. A patch, and with it the removal of an annotation,
  answers with the patched object, whose name and namespace are those it had, because they cannot be
  changed.
\<close>

definition get_law :: "'w reconciler \<Rightarrow> bool" where
  "get_law r \<longleftrightarrow> (\<forall>key w obj w'.
     api_get (clusters_api (platform r)) key w = (Inr obj, w') \<longrightarrow> object_key obj = key)"

definition patch_law :: "'w reconciler \<Rightarrow> bool" where
  "patch_law r \<longleftrightarrow> (\<forall>old new w obj w'.
     api_patch (clusters_api (platform r)) old new w = (Inr obj, w') \<longrightarrow> object_key obj = object_key new)"

definition annotation_law :: "'w lib \<Rightarrow> bool" where
  "annotation_law L \<longleftrightarrow> (\<forall>k c w c' w'.
     lib_remove_annotation L k c w = (Inr c', w') \<longrightarrow> object_key c' = object_key c)"

lemma get_lawD:
  "get_law r \<Longrightarrow> api_get (clusters_api (platform r)) key w = (Inr obj, w') \<Longrightarrow> object_key obj = key"
  unfolding get_law_def by blast

lemma patch_lawD:
  "patch_law r \<Longrightarrow> api_patch (clusters_api (platform r)) old new w = (Inr obj, w') \<Longrightarrow>
   object_key obj = object_key new"
  unfolding patch_law_def by blast

lemma annotation_lawD:
  "annotation_law L \<Longrightarrow> lib_remove_annotation L k c w = (Inr c', w') \<Longrightarrow> object_key c' = object_key c"
  unfolding annotation_law_def by blast

subsection \<open>Basic facts\<close>

lemma stopped_fail [simp]: "stopped (fail rr f why)"
  by (simp add: stopped_def fail_def)

lemma stopped_message [simp]: "stopped (rr\<lparr>rr_message := m\<rparr>) = stopped rr"
  by (simp add: stopped_def)

lemma not_stopped_empty [simp]: "\<not> stopped empty_result"
  by (simp add: stopped_def empty_result_def)

lemma has_labels_iff: "has_labels ls m \<longleftrightarrow> (\<forall>(k, v) \<in> set ls. m k = Some v)"
  by (auto simp: has_labels_def list_all_iff)

subsection \<open>Properties\<close>

text \<open>
  C33. The name of the secondary resources ends in the suffix and never exceeds the length limit of
  Kubernetes names.
\<close>

theorem resource_name_within_limit:
  assumes "shorten_law L" and "cluster_based_resource_name L cluster_name = Returned name"
  shows "int (length name) \<le> lib_max_name_length L \<and>
         drop (length name - length name_suffix) name = name_suffix"
proof -
  from assms(2) obtain short where
    short: "lib_shorten L cluster_name (lib_max_name_length L - int (length name_suffix)) = Returned short"
    and name: "name = short @ name_suffix"
    by (auto simp: cluster_based_resource_name_def map_outcome_Returned_iff)
  have "int (length short) \<le> lib_max_name_length L - int (length name_suffix)"
    using assms(1) short unfolding shorten_law_def by blast
  with name show ?thesis by simp
qed

text \<open>Clusters whose names need no shortening get different names for their resources.\<close>

theorem resource_names_distinct:
  assumes "shorten_law L"
    and "int (length a) + int (length name_suffix) \<le> lib_max_name_length L"
    and "int (length b) + int (length name_suffix) \<le> lib_max_name_length L"
  shows "cluster_based_resource_name L a = cluster_based_resource_name L b \<longleftrightarrow> a = b"
proof -
  have "cluster_based_resource_name L s = Returned (s @ name_suffix)"
    if "int (length s) + int (length name_suffix) \<le> lib_max_name_length L" for s
    using assms(1) that unfolding shorten_law_def cluster_based_resource_name_def by simp
  with assms show ?thesis by simp
qed

end
