(* ===== verification/Secrets.thy ===== *)
theory Secrets
  imports Reconcile_Base
begin

section \<open>Copying and removing secrets\<close>

text \<open>
  \<open>copySecrets\<close>, \<open>removeSecrets\<close> and \<open>extractReferencedSecretNames\<close> of
  \<open>internal/controllers/cluster/controller.go\<close>. The Go map \<open>secretsToCopy\<close> is an association list
  with distinct keys, visited in the order \<open>lib_range\<close> gives; a \<open>sets.Set[string]\<close> is a set.
\<close>

subsection \<open>Which secrets are copied\<close>

definition target_secret_name :: "secret_copy \<Rightarrow> string" where
  "target_secret_name sc =
     (case copy_target sc of
        Some n \<Rightarrow> if n \<noteq> [] then n else copy_source sc
      | None \<Rightarrow> copy_source sc)"

definition secret_map :: "string list \<Rightarrow> secret_copy list \<Rightarrow> (string \<times> string) list" where
  "secret_map pull_secrets configured =
     fold (\<lambda>sc. AList.update (copy_source sc) (target_secret_name sc)) configured
       (fold (\<lambda>ips. AList.update ips ips) pull_secrets [])"

subsection \<open>copySecrets\<close>

definition new_secret :: "string \<Rightarrow> string \<Rightarrow> secret" where
  "new_secret ns name =
     \<lparr>meta_name = name, meta_namespace = ns, meta_labels = Map.empty, meta_annotations = Map.empty,
      meta_finalizers = [], meta_owners = [], meta_deleting = False,
      secret_data = Map.empty, secret_type = []\<rparr>"

lemma object_key_new_secret [simp, meta_simps]:
  "object_key (new_secret ns name) = \<lparr>nn_namespace = ns, nn_name = name\<rparr>"
  by (simp add: new_secret_def object_key_def)

text \<open>The mutate function that \<open>CreateOrUpdate\<close> is called with.\<close>

definition secret_mutation ::
  "'w lib \<Rightarrow> (string \<times> string) list \<Rightarrow> secret \<Rightarrow> secret \<Rightarrow> secret mutated" where
  "secret_mutation L expected source target = Mutated (target
     \<lparr>meta_labels := lib_merge L [meta_labels target, meta_labels source, map_of expected],
      meta_annotations := lib_merge L [meta_annotations target, meta_annotations source],
      secret_data := secret_data source,
      secret_type := secret_type source\<rparr>)"

type_synonym copy_result = "reasonable_error option \<times> string set"

definition write_secret ::
  "'w lib \<Rightarrow> 'w client \<Rightarrow> reason \<Rightarrow> (string \<times> string) list \<Rightarrow> secret \<Rightarrow> string set \<Rightarrow> secret \<Rightarrow>
   ('w, copy_result) comp" where
  "write_secret L access why expected source copied target w =
     (case api_upsert (secrets_api access) target (secret_mutation L expected source) w of
        (Panicked p, w') \<Rightarrow> (Panicked p, w')
      | (Returned (Inl e), w') \<Rightarrow>
          (Returned (Some (reasoned (WriteSecretFailed (object_key target) e) why), copied), w')
      | (Returned (Inr target'), w') \<Rightarrow>
          (Returned (None, insert (meta_name target') copied), w'))"

text \<open>The body of the loop, for one entry of the map.\<close>

definition copy_secret ::
  "'w lib \<Rightarrow> 'w reconciler \<Rightarrow> copy_to \<Rightarrow> 'w client \<Rightarrow> reason \<Rightarrow> string \<Rightarrow> (string \<times> string) list \<Rightarrow>
   string \<Rightarrow> string \<Rightarrow> string set \<Rightarrow> ('w, copy_result) comp" where
  "copy_secret L r ct access why ns expected source_name target_name copied w =
     (let source_key = \<lparr>nn_namespace = provider_namespace r, nn_name = source_name\<rparr>;
          target_key = \<lparr>nn_namespace = ns, nn_name = target_name\<rparr> in
      case api_get (secrets_api (platform r)) source_key w of
        (Inl e, w1) \<Rightarrow>
          (Returned (Some (reasoned (GetSourceSecretFailed source_key e)
             PlatformClusterInteractionProblem), copied), w1)
      | (Inr source, w1) \<Rightarrow>
          if ct = PlatformClusterCopy \<and> target_key = object_key source
          then (Returned (None, insert target_name copied), w1)
          else
            case api_get (secrets_api access) target_key w1 of
              (Inl e, w2) \<Rightarrow>
                if e \<noteq> NotFound
                then (Returned (Some (reasoned (GetTargetSecretFailed target_key e) why), copied), w2)
                else write_secret L access why expected source copied (new_secret ns target_name) w2
            | (Inr target, w2) \<Rightarrow>
                if \<not> has_labels expected (meta_labels target)
                then (Returned (Some (reasoned (TargetSecretNotManaged (object_key target))
                        ConfigurationProblem), copied), w2)
                else write_secret L access why expected source copied target w2)"

fun copy_loop ::
  "'w lib \<Rightarrow> 'w reconciler \<Rightarrow> copy_to \<Rightarrow> 'w client \<Rightarrow> reason \<Rightarrow> string \<Rightarrow> (string \<times> string) list \<Rightarrow>
   (string \<times> string) list \<Rightarrow> string set \<Rightarrow> ('w, copy_result) comp" where
  "copy_loop L r ct access why ns expected [] copied = return_st (None, copied)"
| "copy_loop L r ct access why ns expected ((s, t) # entries) copied =
     bind_st (copy_secret L r ct access why ns expected s t copied)
       (\<lambda>(e, copied').
          if e \<noteq> None then return_st (e, copied')
          else copy_loop L r ct access why ns expected entries copied')"

definition copy_configured ::
  "'w lib \<Rightarrow> 'w reconciler \<Rightarrow> string \<Rightarrow> (string \<times> string) list \<Rightarrow> reconcile_result \<Rightarrow> copy_to \<Rightarrow>
   'w client option \<Rightarrow> reason \<Rightarrow> secret_copy list \<Rightarrow> ('w, reconcile_result \<times> string set) comp" where
  "copy_configured L r ns expected rr ct target_access why configured =
     deref (rr_platform_service rr) (\<lambda>svc.
       let entries = secret_map (image_pull_secrets svc) configured in
       case target_access of
         None \<Rightarrow> return_st (fail rr (NoAccessForCopying ct) InternalError, {})
       | Some access \<Rightarrow>
           (\<lambda>w. bind_st
             (copy_loop L r ct access why ns expected (lib_range L w entries) {})
             (\<lambda>(e, copied). return_st
                (case e of
                   Some err \<Rightarrow> (rr\<lparr>rr_error := Some err\<rparr>, copied)
                 | None \<Rightarrow> (rr\<lparr>rr_message := CopiedSecrets (length entries) ns ct\<rparr>, copied))) w))"

definition copy_secrets ::
  "'w lib \<Rightarrow> 'w reconciler \<Rightarrow> string \<Rightarrow> (string \<times> string) list \<Rightarrow> reconcile_result \<Rightarrow> copy_to \<Rightarrow>
   ('w, reconcile_result \<times> string set) comp" where
  "copy_secrets L r ns expected rr ct =
     deref (rr_provider_config rr) (\<lambda>pc.
       case spec_secrets (service_spec pc) of
         None \<Rightarrow> return_st (rr, {})
       | Some stc \<Rightarrow>
           (case ct of
              PlatformClusterCopy \<Rightarrow>
                copy_configured L r ns expected rr ct (Some (platform r))
                  PlatformClusterInteractionProblem (to_platform_cluster stc)
            | TargetClusterCopy \<Rightarrow>
                deref (rr_access rr) (\<lambda>access.
                  copy_configured L r ns expected rr ct (lib_client_of L access)
                    TargetClusterInteractionProblem (to_target_cluster stc))))"

subsection \<open>removeSecrets\<close>

fun remove_loop ::
  "'w client \<Rightarrow> reason \<Rightarrow> string set \<Rightarrow> secret list \<Rightarrow> nat \<Rightarrow> nat \<Rightarrow>
   ('w, reasonable_error option \<times> nat \<times> nat) comp" where
  "remove_loop access why keep [] deleted kept w = (Returned (None, deleted, kept), w)"
| "remove_loop access why keep (obj # objs) deleted kept w =
     (if meta_name obj \<in> keep then remove_loop access why keep objs deleted (Suc kept) w
      else case api_delete (secrets_api access) (object_key obj) w of
        (res, w') \<Rightarrow>
          (case ignore_not_found res of
             Some e \<Rightarrow> (Returned (Some (reasoned (DeleteSecretFailed (object_key obj) e) why),
                          deleted, kept), w')
           | None \<Rightarrow> remove_loop access why keep objs (Suc deleted) kept w'))"

definition remove_from ::
  "string \<Rightarrow> (string \<times> string) list \<Rightarrow> reconcile_result \<Rightarrow> copy_to \<Rightarrow> string set \<Rightarrow>
   'w client option \<Rightarrow> reason \<Rightarrow> ('w, reconcile_result) comp" where
  "remove_from ns expected rr ct keep target_access why =
     (case target_access of
        None \<Rightarrow> return_st (fail rr (NoAccessForRemoving ct) InternalError)
      | Some access \<Rightarrow> (\<lambda>w.
          case api_list (secrets_api access) ns (map_of expected) w of
            (Inl e, w1) \<Rightarrow> (Returned (fail rr (ListSecretsFailed ns e) why), w1)
          | (Inr objs, w1) \<Rightarrow>
              bind_st (remove_loop access why keep objs 0 0)
                (\<lambda>(e, deleted, kept). return_st
                   (case e of
                      Some err \<Rightarrow> rr\<lparr>rr_error := Some err\<rparr>
                    | None \<Rightarrow> rr\<lparr>rr_message := RemovedSecrets deleted ns ct kept\<rparr>)) w1))"

definition remove_secrets ::
  "'w lib \<Rightarrow> 'w reconciler \<Rightarrow> string \<Rightarrow> (string \<times> string) list \<Rightarrow> reconcile_result \<Rightarrow> copy_to \<Rightarrow>
   string set \<Rightarrow> ('w, reconcile_result) comp" where
  "remove_secrets L r ns expected rr ct keep =
     (case ct of
        PlatformClusterCopy \<Rightarrow>
          remove_from ns expected rr ct keep (Some (platform r)) PlatformClusterInteractionProblem
      | TargetClusterCopy \<Rightarrow>
          deref (rr_access rr) (\<lambda>access.
            remove_from ns expected rr ct keep (lib_client_of L access)
              TargetClusterInteractionProblem))"

subsection \<open>extractReferencedSecretNames\<close>

definition extract_referenced_secret_names :: "service_config \<Rightarrow> platform_service option \<Rightarrow> string set" where
  "extract_referenced_secret_names config svc =
     (case spec_secrets (service_spec config) of
        None \<Rightarrow> {}
      | Some stc \<Rightarrow>
          copy_source ` set (to_platform_cluster stc) \<union> copy_source ` set (to_target_cluster stc)) \<union>
     (case svc of None \<Rightarrow> {} | Some ps \<Rightarrow> set (image_pull_secrets ps))"

subsection \<open>Which secrets are copied, as a map\<close>

lemma map_of_pull_secrets:
  "map_of (fold (\<lambda>ips. AList.update ips ips) pull xs) s = (if s \<in> set pull then Some s else map_of xs s)"
  by (induction pull arbitrary: xs) auto

lemma map_of_configured:
  "map_of (fold (\<lambda>sc. AList.update (copy_source sc) (target_secret_name sc)) configured xs) s =
     (case find (\<lambda>sc. copy_source sc = s) (rev configured) of
        Some sc \<Rightarrow> Some (target_secret_name sc)
      | None \<Rightarrow> map_of xs s)"
proof (induction configured arbitrary: xs rule: rev_induct)
  case Nil
  show ?case by simp
next
  case (snoc sc configured)
  then show ?case by simp
qed

lemma dom_map_of_secret_map:
  "fst ` set (secret_map pull configured) = set pull \<union> copy_source ` set configured"
proof -
  have "fst ` set (fold (\<lambda>sc. AList.update (copy_source sc) (target_secret_name sc)) configured xs) =
      fst ` set xs \<union> copy_source ` set configured" for xs
    by (induction configured arbitrary: xs) (auto simp: dom_update)
  moreover have "fst ` set (fold (\<lambda>ips. AList.update ips ips) pull xs) = fst ` set xs \<union> set pull" for xs
    by (induction pull arbitrary: xs) (auto simp: dom_update)
  ultimately show ?thesis by (auto simp: secret_map_def)
qed

lemma distinct_secret_map: "distinct (map fst (secret_map pull configured))"
proof -
  have "distinct (map fst xs) \<Longrightarrow>
      distinct (map fst (fold (\<lambda>sc. AList.update (copy_source sc) (target_secret_name sc)) configured xs))" for xs
    by (induction configured arbitrary: xs) (simp_all add: distinct_update)
  moreover have "distinct (map fst xs) \<Longrightarrow>
      distinct (map fst (fold (\<lambda>ips. AList.update ips ips) pull xs))" for xs
    by (induction pull arbitrary: xs) (simp_all add: distinct_update)
  ultimately show ?thesis by (simp add: secret_map_def)
qed

subsection \<open>Properties\<close>

text \<open>
  A secret is copied to the name that the last configuration entry for it gives, or under its own
  name if only the image pull secrets mention it; the map has one entry for each such secret.
\<close>

theorem secret_map_lookup:
  "distinct (map fst (secret_map pull configured)) \<and>
   map_of (secret_map pull configured) s =
     (case find (\<lambda>sc. copy_source sc = s) (rev configured) of
        Some sc \<Rightarrow> Some (target_secret_name sc)
      | None \<Rightarrow> if s \<in> set pull then Some s else None)"
  by (simp add: distinct_secret_map)
     (simp add: secret_map_def map_of_configured map_of_pull_secrets split: option.split)

text \<open>
  C25. When secrets to copy are configured, the watch on secrets reacts to every secret that copying to
  either cluster reads, and to no other. When none are configured, copying does nothing at all, but the
  watch still reacts to the image pull secrets.
\<close>

theorem watched_secrets_are_copied_secrets:
  assumes "rr_provider_config rr = Some config"
  shows "case spec_secrets (service_spec config) of
      Some stc \<Rightarrow> extract_referenced_secret_names config (Some svc) =
        fst ` set (secret_map (image_pull_secrets svc) (to_platform_cluster stc)) \<union>
        fst ` set (secret_map (image_pull_secrets svc) (to_target_cluster stc))
    | None \<Rightarrow> extract_referenced_secret_names config (Some svc) = set (image_pull_secrets svc) \<and>
        (\<forall>ns expected ct w. copy_secrets L r ns expected rr ct w = (Returned (rr, {}), w))"
  using assms
  by (auto simp: extract_referenced_secret_names_def dom_map_of_secret_map copy_secrets_def deref_def
      return_st_def split: option.split)

lemma secret_mutation_fields:
  assumes "merge_law L" and "distinct (map fst expected)"
    and "secret_mutation L expected source target = Mutated copy"
  shows "secret_data copy = secret_data source \<and> secret_type copy = secret_type source \<and>
         object_key copy = object_key target \<and> has_labels expected (meta_labels copy) \<and>
         (\<forall>k. k \<notin> fst ` set expected \<longrightarrow>
            meta_labels copy k = (meta_labels target ++ meta_labels source) k) \<and>
         secret_mutation L expected source copy = Mutated copy"
proof -
  have copy: "copy = target
     \<lparr>meta_labels := meta_labels target ++ meta_labels source ++ map_of expected,
      meta_annotations := meta_annotations target ++ meta_annotations source,
      secret_data := secret_data source, secret_type := secret_type source\<rparr>"
    using assms(1,3) by (simp add: secret_mutation_def merge_law_def)
  have twice: "(a ++ b ++ e) ++ b ++ e = a ++ b ++ e" for a b e :: labels
    by (rule ext) (auto simp: map_add_def split: option.split)
  have "(a ++ b) ++ b = a ++ b" for a b :: labels
    by (rule ext) (auto simp: map_add_def split: option.split)
  then have "secret_mutation L expected source copy = Mutated copy"
    using twice assms(1) by (simp add: secret_mutation_def merge_law_def copy)
  moreover have "has_labels expected (meta_labels copy)"
    using assms(2) by (auto simp: has_labels_iff copy map_add_Some_iff)
  moreover have "meta_labels copy k = (meta_labels target ++ meta_labels source) k"
    if "k \<notin> fst ` set expected" for k
  proof -
    from that have "map_of expected k = None" by (simp add: map_of_eq_None_iff)
    then show ?thesis by (simp add: copy map_add_def)
  qed
  ultimately show ?thesis by (simp add: copy object_key_def)
qed

text \<open>
  C24. What is written into a copy: data and type of the source, the expected labels whatever the
  source carries, and every other label and annotation of source and target. Writing it again
  changes nothing.
\<close>

theorem secret_copy_contents:
  assumes "merge_law L" and "distinct (map fst expected)"
    and "secret_mutation L expected source target = Mutated copy"
  shows "secret_data copy = secret_data source \<and> secret_type copy = secret_type source \<and>
         object_key copy = object_key target \<and> has_labels expected (meta_labels copy) \<and>
         (\<forall>k. k \<notin> fst ` set expected \<longrightarrow>
            meta_labels copy k = (meta_labels target ++ meta_labels source) k) \<and>
         secret_mutation L expected source copy = Mutated copy"
  using assms by (rule secret_mutation_fields)

end
