(* ===== verification/Flux_Sources.thy ===== *)
theory Flux_Sources
  imports Reconcile_Base
begin

section \<open>The Flux source of the helm chart\<close>

text \<open>
  \<open>deployHelmChartSource\<close> and \<open>undeployHelmChartSource\<close> of
  \<open>internal/controllers/cluster/controller.go\<close>. HelmRepository, GitRepository and OCIRepository are
  one record, told apart by the API they are read from; a typed Go object in a \<open>[]client.Object\<close> is
  the pair of its kind and the record.
\<close>

subsection \<open>Listing what exists\<close>

definition list_sources ::
  "'w reconciler \<Rightarrow> string \<Rightarrow> (string \<times> string) list \<Rightarrow> reconcile_result \<Rightarrow> source_kind \<Rightarrow>
   (flux_source list \<Rightarrow> ('w, reconcile_result) comp) \<Rightarrow> ('w, reconcile_result) comp" where
  "list_sources r ns expected rr k f w =
     (case api_list (sources_api (platform r) k) ns (map_of expected) w of
        (Inl e, w') \<Rightarrow>
          (Returned (fail rr (ListSourcesFailed k ns e) PlatformClusterInteractionProblem), w')
      | (Inr items, w') \<Rightarrow> f items w')"

definition with_existing_sources ::
  "'w reconciler \<Rightarrow> string \<Rightarrow> (string \<times> string) list \<Rightarrow> reconcile_result \<Rightarrow>
   (flux_source list \<Rightarrow> flux_source list \<Rightarrow> flux_source list \<Rightarrow> ('w, reconcile_result) comp) \<Rightarrow>
   ('w, reconcile_result) comp" where
  "with_existing_sources r ns expected rr f =
     list_sources r ns expected rr HelmRepository (\<lambda>helm.
     list_sources r ns expected rr GitRepository (\<lambda>git.
     list_sources r ns expected rr OCIRepository (\<lambda>oci.
     f helm git oci)))"

subsection \<open>deployHelmChartSource\<close>

text \<open>The chain of \<open>if\<close>s: which source is configured, helm before git before oci.\<close>

definition configured_source :: "external_dns_source \<Rightarrow> (source_kind \<times> string) option" where
  "configured_source src =
     (case source_helm src of
        Some spec \<Rightarrow> Some (HelmRepository, spec)
      | None \<Rightarrow>
          (case source_git src of
             Some spec \<Rightarrow> Some (GitRepository, spec)
           | None \<Rightarrow>
               (case source_oci src of
                  Some spec \<Rightarrow> Some (OCIRepository, spec)
                | None \<Rightarrow> None)))"

definition others_of_kind ::
  "source_kind \<Rightarrow> string \<Rightarrow> flux_source list \<Rightarrow> (source_kind \<times> flux_source) list" where
  "others_of_kind k name items = map (Pair k) (filter (\<lambda>obj. meta_name obj \<noteq> name) items)"

definition obsolete_sources ::
  "'w lib \<Rightarrow> source_kind \<Rightarrow> string \<Rightarrow> flux_source list \<Rightarrow> flux_source list \<Rightarrow> flux_source list \<Rightarrow>
   (source_kind \<times> flux_source) list" where
  "obsolete_sources L k name helm git oci =
     (case k of
        HelmRepository \<Rightarrow>
          others_of_kind HelmRepository name helm @
          lib_project_sources L (Pair GitRepository) git @
          lib_project_sources L (Pair OCIRepository) oci
      | GitRepository \<Rightarrow>
          others_of_kind GitRepository name git @
          lib_project_sources L (Pair HelmRepository) helm @
          lib_project_sources L (Pair OCIRepository) oci
      | OCIRepository \<Rightarrow>
          others_of_kind OCIRepository name oci @
          lib_project_sources L (Pair HelmRepository) helm @
          lib_project_sources L (Pair GitRepository) git)"

definition new_source :: "string \<Rightarrow> string \<Rightarrow> flux_source" where
  "new_source ns name =
     \<lparr>meta_name = name, meta_namespace = ns, meta_labels = Map.empty, meta_annotations = Map.empty,
      meta_finalizers = [], meta_owners = [], meta_deleting = False,
      source_type_kind = [], source_spec = []\<rparr>"

lemma object_key_new_source [simp, meta_simps]:
  "object_key (new_source ns name) = \<lparr>nn_namespace = ns, nn_name = name\<rparr>"
  by (simp add: new_source_def object_key_def)

text \<open>
  The mutate function: owner reference, labels, spec. The type assertion in \<open>setSpec\<close> always holds,
  because \<open>CreateOrUpdate\<close> runs it on the object that was made for the same kind.
\<close>

definition source_mutation ::
  "'w lib \<Rightarrow> cluster \<Rightarrow> (string \<times> string) list \<Rightarrow> string \<Rightarrow> flux_source \<Rightarrow> flux_source mutated" where
  "source_mutation L c expected spec obj =
     (case lib_set_owner L c (meta_owners obj) of
        Inl e \<Rightarrow> MutateFailed e
      | Inr owners \<Rightarrow> Mutated (obj
          \<lparr>meta_owners := owners,
           meta_labels := lib_merge L [meta_labels obj, map_of expected],
           source_spec := spec\<rparr>))"

text \<open>
  The deletion loop of both operations; the result is the first failure, with the object's kind as
  its type metadata gives it.
\<close>

fun delete_sources ::
  "'w client \<Rightarrow> (source_kind \<times> flux_source) list \<Rightarrow> ('w, failure option) comp" where
  "delete_sources access [] w = (Returned None, w)"
| "delete_sources access ((k, obj) # objs) w =
     (case api_delete (sources_api access k) (object_key obj) w of
        (res, w') \<Rightarrow>
          (case ignore_not_found res of
             Some e \<Rightarrow> (Returned (Some (DeleteSourceFailed (source_type_kind obj) (object_key obj) e)), w')
           | None \<Rightarrow> delete_sources access objs w'))"

definition finish_sources ::
  "'w client \<Rightarrow> (source_kind \<times> flux_source) list \<Rightarrow> reconcile_result \<Rightarrow> message \<Rightarrow>
   ('w, reconcile_result) comp" where
  "finish_sources access objs rr msg =
     bind_st (delete_sources access objs)
       (\<lambda>res. return_st
          (case res of
             Some f \<Rightarrow> fail rr f PlatformClusterInteractionProblem
           | None \<Rightarrow> rr\<lparr>rr_message := msg\<rparr>))"

definition write_source ::
  "'w lib \<Rightarrow> 'w reconciler \<Rightarrow> cluster \<Rightarrow> (string \<times> string) list \<Rightarrow> reconcile_result \<Rightarrow>
   source_kind \<Rightarrow> string \<Rightarrow> string \<Rightarrow> (source_kind \<times> flux_source) list \<Rightarrow>
   ('w, reconcile_result) comp" where
  "write_source L r c expected rr k spec name obsolete w =
     (let obj = new_source (meta_namespace c) name in
      case api_upsert (sources_api (platform r) k) obj (source_mutation L c expected spec) w of
        (Panicked p, w') \<Rightarrow> (Panicked p, w')
      | (Returned (Inl e), w') \<Rightarrow>
          (Returned (fail rr (WriteSourceFailed k (object_key obj) e)
             PlatformClusterInteractionProblem), w')
      | (Returned (Inr _), w') \<Rightarrow> finish_sources (platform r) obsolete rr (WroteSource k) w')"

definition deploy_helm_chart_source ::
  "'w lib \<Rightarrow> 'w reconciler \<Rightarrow> cluster \<Rightarrow> (string \<times> string) list \<Rightarrow> reconcile_result \<Rightarrow>
   ('w, reconcile_result) comp" where
  "deploy_helm_chart_source L r c expected rr =
     bind_st (of_outcome (cluster_based_resource_name L (meta_name c))) (\<lambda>name.
     with_existing_sources r (meta_namespace c) expected rr (\<lambda>helm git oci.
     deref (rr_provider_config rr) (\<lambda>pc.
       case configured_source (spec_source (service_spec pc)) of
         None \<Rightarrow> return_st (fail rr NoSourceConfigured ConfigurationProblem)
       | Some (k, spec) \<Rightarrow>
           write_source L r c expected (rr\<lparr>rr_source_kind := Some k\<rparr>) k spec name
             (obsolete_sources L k name helm git oci))))"

subsection \<open>undeployHelmChartSource\<close>

definition with_type_kind :: "source_kind \<Rightarrow> flux_source \<Rightarrow> source_kind \<times> flux_source" where
  "with_type_kind k obj =
     (k, if source_type_kind obj = [] then obj\<lparr>source_type_kind := source_kind_name k\<rparr> else obj)"

definition undeploy_helm_chart_source ::
  "'w lib \<Rightarrow> 'w reconciler \<Rightarrow> cluster \<Rightarrow> (string \<times> string) list \<Rightarrow> reconcile_result \<Rightarrow>
   ('w, reconcile_result) comp" where
  "undeploy_helm_chart_source L r c expected rr =
     with_existing_sources r (meta_namespace c) expected rr (\<lambda>helm git oci.
       finish_sources (platform r)
         (lib_project_sources L (with_type_kind HelmRepository) helm @
          lib_project_sources L (with_type_kind GitRepository) git @
          lib_project_sources L (with_type_kind OCIRepository) oci)
         rr RemovedSources)"

lemma set_obsolete_sources:
  assumes "project_law L"
  shows "set (obsolete_sources L k name helm git oci) =
           {(j, obj). obj \<in> set (case j of HelmRepository \<Rightarrow> helm | GitRepository \<Rightarrow> git | OCIRepository \<Rightarrow> oci) \<and>
                      (j = k \<longrightarrow> meta_name obj \<noteq> name)}"
  using assms
  by (cases k)
     (auto simp: obsolete_sources_def others_of_kind_def project_law_def split: source_kind.splits)

subsection \<open>Properties\<close>

text \<open>
  C26. When a source is deployed, exactly the listed sources other than the one that is written are
  deleted: those of the other kinds, and those of its kind with another name.
\<close>

theorem obsolete_sources_exact:
  assumes "project_law L"
  shows "set (obsolete_sources L k name helm git oci) =
           {(j, obj). obj \<in> set (case j of HelmRepository \<Rightarrow> helm | GitRepository \<Rightarrow> git | OCIRepository \<Rightarrow> oci) \<and>
                      (j = k \<longrightarrow> meta_name obj \<noteq> name)}"
  using assms by (rule set_obsolete_sources)

end
