(* ===== verification/Go_Strings.thy ===== *)
theory Go_Strings
  imports Prelude
begin

section \<open>Go's string functions\<close>

text \<open>
  The two functions of Go's package \<open>strings\<close> that the code calls on data: \<open>strings.Split\<close> with a
  separator of one byte, and \<open>strings.ReplaceAll\<close>. A Go string is a sequence of bytes, here a
  \<open>char\<close> list.
\<close>

subsection \<open>strings.Split\<close>

fun go_split :: "char \<Rightarrow> string \<Rightarrow> string list" where
  "go_split sep [] = [[]]"
| "go_split sep (c # cs) =
     (if c = sep then [] # go_split sep cs
      else case go_split sep cs of
             [] \<Rightarrow> [[c]]
           | p # ps \<Rightarrow> (c # p) # ps)"

fun go_join :: "char \<Rightarrow> string list \<Rightarrow> string" where
  "go_join sep [] = []"
| "go_join sep [p] = p"
| "go_join sep (p # q # ps) = p @ sep # go_join sep (q # ps)"

lemma go_split_not_Nil [simp]: "go_split sep s \<noteq> []"
  by (induction s) (auto split: list.split)

lemma go_join_Cons: "ps \<noteq> [] \<Longrightarrow> go_join sep (p # ps) = p @ sep # go_join sep ps"
  by (cases ps) auto

lemma go_join_split: "go_join sep (go_split sep s) = s"
proof (induction s)
  case Nil
  show ?case by simp
next
  case (Cons c cs)
  obtain p ps where split: "go_split sep cs = p # ps"
    by (cases "go_split sep cs") auto
  with Cons.IH show ?case
    by (cases ps) (auto simp: go_join_Cons)
qed

lemma go_split_no_sep: "p \<in> set (go_split sep s) \<Longrightarrow> sep \<notin> set p"
proof (induction s arbitrary: p)
  case Nil
  then show ?case by simp
next
  case (Cons c cs)
  then show ?case by (cases "go_split sep cs") (auto split: if_splits)
qed

lemma length_go_split: "length (go_split sep s) = Suc (count_list s sep)"
proof (induction s)
  case Nil
  show ?case by simp
next
  case (Cons c cs)
  then show ?case by (cases "go_split sep cs") auto
qed

lemma go_split_free: "sep \<notin> set s \<Longrightarrow> go_split sep s = [s]"
  by (induction s) auto

lemma go_split_append: "sep \<notin> set p \<Longrightarrow> go_split sep (p @ sep # s) = p # go_split sep s"
  by (induction p) auto

subsection \<open>strings.ReplaceAll\<close>

text \<open>
  Non-overlapping occurrences of \<open>old\<close>, from the left. The first equation is Go's treatment of an
  empty \<open>old\<close> on ASCII text (the replacement goes before every character and to the end); the
  program never calls it so.
\<close>

fun go_replace_all :: "string \<Rightarrow> string \<Rightarrow> string \<Rightarrow> string" where
  "go_replace_all [] new s = new @ concat (map (\<lambda>c. c # new) s)"
| "go_replace_all (p # ps) new [] = []"
| "go_replace_all (p # ps) new (c # cs) =
     (if take (Suc (length ps)) (c # cs) = p # ps
      then new @ go_replace_all (p # ps) new (drop (length ps) cs)
      else c # go_replace_all (p # ps) new cs)"

lemma go_replace_all_hit:
  assumes "old \<noteq> []"
  shows "go_replace_all old new (old @ rest) = new @ go_replace_all old new rest"
  using assms by (cases old) auto

lemma go_replace_all_miss:
  assumes "c \<noteq> p"
  shows "go_replace_all (p # ps) new (c # cs) = c # go_replace_all (p # ps) new cs"
  using assms by simp

lemma go_replace_all_skip:
  assumes "p \<notin> set t"
  shows "go_replace_all (p # ps) new (t @ cs) = t @ go_replace_all (p # ps) new cs"
  using assms by (induction t) auto

end
