(* ===== verification/Helm_Values.thy ===== *)
theory Helm_Values
  imports Go_Strings Reconcile_Base
begin

section \<open>Helm values and chart name\<close>

text \<open>
  The text functions inside \<open>deployHelmRelease\<close>: the replacement of the five placeholders in the
  helm values and the split of the chart name into name and version. In the raw JSON of the values
  the angle brackets of a placeholder are escaped, and the code looks for the escaped form.
\<close>

subsection \<open>Placeholders\<close>

datatype placeholder =
  PhProviderNamespace | PhProviderName | PhEnvironment | PhClusterNamespace | PhClusterName

definition placeholder_name :: "placeholder \<Rightarrow> string" where
  "placeholder_name p =
     (case p of
        PhProviderNamespace \<Rightarrow> ''provider.namespace''
      | PhProviderName \<Rightarrow> ''provider.name''
      | PhEnvironment \<Rightarrow> ''environment''
      | PhClusterNamespace \<Rightarrow> ''cluster.namespace''
      | PhClusterName \<Rightarrow> ''cluster.name'')"

definition backslash :: char where
  "backslash = CHR 0x5C"

definition escaped_token :: "placeholder \<Rightarrow> string" where
  "escaped_token p = (backslash # ''u003c'') @ placeholder_name p @ (backslash # ''u003e'')"

definition placeholder_value :: "'w reconciler \<Rightarrow> cluster \<Rightarrow> placeholder \<Rightarrow> string" where
  "placeholder_value r c p =
     (case p of
        PhProviderNamespace \<Rightarrow> provider_namespace r
      | PhProviderName \<Rightarrow> provider_name r
      | PhEnvironment \<Rightarrow> environment r
      | PhClusterNamespace \<Rightarrow> meta_namespace c
      | PhClusterName \<Rightarrow> meta_name c)"

text \<open>The order of the five \<open>strings.ReplaceAll\<close> calls.\<close>

definition placeholder_order :: "placeholder list" where
  "placeholder_order =
     [PhProviderNamespace, PhProviderName, PhEnvironment, PhClusterNamespace, PhClusterName]"

definition expand_values :: "'w reconciler \<Rightarrow> cluster \<Rightarrow> string \<Rightarrow> string" where
  "expand_values r c raw =
     fold (\<lambda>p vals. go_replace_all (escaped_token p) (placeholder_value r c p) vals)
       placeholder_order raw"

subsection \<open>Chart name and version\<close>

text \<open>
  \<open>strings.Split(chartName, "@")\<close>, its first element as the chart and the second, if there is one,
  as the version. Indexing an empty slice would panic.
\<close>

definition chart_name_version :: "string \<Rightarrow> (string \<times> string) outcome" where
  "chart_name_version name =
     (case go_split (CHR ''@'') name of
        [] \<Rightarrow> Panicked IndexOutOfRange
      | [chart] \<Rightarrow> Returned (chart, [])
      | chart # version # _ \<Rightarrow> Returned (chart, version))"

subsection \<open>Replacing placeholders\<close>

text \<open>
  A values text as a sequence of segments: plain text and placeholders. Plain text holds no escaped
  angle bracket: a backslash in it is followed by another letter than \<open>u\<close>.
\<close>

datatype segment = Plain string | Hole placeholder

fun segment_text :: "segment \<Rightarrow> string" where
  "segment_text (Plain s) = s"
| "segment_text (Hole p) = escaped_token p"

fun plain_text :: "string \<Rightarrow> bool" where
  "plain_text [] = True"
| "plain_text [c] = (c \<noteq> backslash)"
| "plain_text (c # d # cs) = ((c = backslash \<longrightarrow> d \<noteq> CHR ''u'') \<and> plain_text (d # cs))"

fun fill_segment :: "(placeholder \<Rightarrow> string) \<Rightarrow> placeholder set \<Rightarrow> segment \<Rightarrow> segment" where
  "fill_segment val ps (Plain s) = Plain s"
| "fill_segment val ps (Hole p) = (if p \<in> ps then Plain (val p) else Hole p)"

definition filled_text :: "(placeholder \<Rightarrow> string) \<Rightarrow> segment list \<Rightarrow> string" where
  "filled_text val segs = concat (map (\<lambda>seg. case seg of Plain s \<Rightarrow> s | Hole p \<Rightarrow> val p) segs)"

definition plain_segments :: "segment list \<Rightarrow> bool" where
  "plain_segments segs \<longleftrightarrow> (\<forall>s. Plain s \<in> set segs \<longrightarrow> plain_text s)"

lemma escaped_token_start: "\<exists>t. escaped_token p = backslash # CHR ''u'' # t"
  by (simp add: escaped_token_def)

lemma replace_plain:
  assumes "plain_text s"
  shows "go_replace_all (backslash # CHR ''u'' # t) new (s @ rest) =
           s @ go_replace_all (backslash # CHR ''u'' # t) new rest"
  using assms
proof (induction s rule: plain_text.induct)
  case (3 c d cs)
  then show ?case by (auto simp: take_Cons')
qed auto

lemma replace_token_hit:
  "go_replace_all (escaped_token p) new (escaped_token p @ rest) =
     new @ go_replace_all (escaped_token p) new rest"
  by (rule go_replace_all_hit) (simp add: escaped_token_def)

lemma replace_token_miss:
  "p \<noteq> q \<Longrightarrow> go_replace_all (escaped_token p) new (escaped_token q @ rest) =
     escaped_token q @ go_replace_all (escaped_token p) new rest"
  by (cases p; cases q) (simp_all add: escaped_token_def placeholder_name_def backslash_def)

text \<open>One replacement fills the holes of one placeholder.\<close>

lemma replace_one_placeholder:
  assumes "plain_segments segs"
  shows "go_replace_all (escaped_token p) (val p) (concat (map segment_text segs)) =
           concat (map segment_text (map (fill_segment val {p}) segs))"
  using assms unfolding plain_segments_def
proof (induction segs)
  case Nil
  show ?case by (simp add: escaped_token_def)
next
  case (Cons seg segs)
  obtain t where t: "escaped_token p = backslash # CHR ''u'' # t" using escaped_token_start by blast
  show ?case
  proof (cases seg)
    case (Plain s)
    with Cons show ?thesis by (simp add: t replace_plain)
  next
    case (Hole q)
    with Cons show ?thesis
      by (cases "p = q") (auto simp: replace_token_hit replace_token_miss)
  qed
qed

lemma fill_segment_twice:
  "fill_segment val ps (fill_segment val qs seg) = fill_segment val (ps \<union> qs) seg"
  by (cases seg) auto

lemma plain_segments_fill:
  assumes "plain_segments segs" and "\<forall>p. plain_text (val p)"
  shows "plain_segments (map (fill_segment val ps) segs)"
proof -
  have "plain_text s" if "Plain s = fill_segment val ps seg" and "seg \<in> set segs" for s seg
    using that assms by (cases seg) (auto simp: plain_segments_def split: if_splits)
  then show ?thesis by (auto simp: plain_segments_def)
qed

lemma replace_placeholders:
  assumes "plain_segments segs" and "\<forall>p. plain_text (val p)"
  shows "fold (\<lambda>p. go_replace_all (escaped_token p) (val p)) ps (concat (map segment_text segs)) =
           concat (map segment_text (map (fill_segment val (set ps)) segs))"
  using assms(1)
proof (induction ps arbitrary: segs)
  case Nil
  have "fill_segment val {} seg = seg" for seg by (cases seg) auto
  then show ?case by (simp add: comp_def)
next
  case (Cons p ps)
  from Cons.IH [OF plain_segments_fill [OF Cons.prems assms(2)], of "{p}"]
  show ?case
    by (simp add: replace_one_placeholder [OF Cons.prems] fill_segment_twice comp_def)
qed

lemma placeholder_order_complete: "set placeholder_order = UNIV"
  using placeholder.exhaust by (auto simp: placeholder_order_def)

lemma plain_text_without_backslash: "backslash \<notin> set s \<Longrightarrow> plain_text s"
  by (induction s rule: plain_text.induct) auto

subsection \<open>Properties\<close>

text \<open>
  C27. The helm values of a HelmRelease are the configured text with every placeholder replaced by its
  value and everything else left as it is, as long as the text has no other escaped bracket and the
  values, which are Kubernetes names, contain no backslash.
\<close>

theorem values_fill_every_placeholder:
  assumes "plain_segments segs" and "\<forall>p. backslash \<notin> set (placeholder_value r c p)"
  shows "expand_values r c (concat (map segment_text segs)) = filled_text (placeholder_value r c) segs"
proof -
  let ?val = "placeholder_value r c"
  have "expand_values r c (concat (map segment_text segs)) =
      concat (map segment_text (map (fill_segment ?val UNIV) segs))"
    unfolding expand_values_def
    using replace_placeholders [OF assms(1), of ?val placeholder_order] assms(2)
    by (simp add: plain_text_without_backslash placeholder_order_complete)
  moreover have "segment_text (fill_segment ?val UNIV seg) = (case seg of Plain s \<Rightarrow> s | Hole p \<Rightarrow> ?val p)"
    for seg by (cases seg) auto
  ultimately show ?thesis by (simp add: filled_text_def comp_def)
qed

text \<open>
  Splitting the chart name never fails: the chart is what stands before the first \<open>@\<close>, the version
  what stands between it and the next one, empty if there is none.
\<close>

theorem chart_name_version_spec:
  "chart_name_version name =
     Returned (takeWhile (\<lambda>c. c \<noteq> CHR ''@'') name,
               takeWhile (\<lambda>c. c \<noteq> CHR ''@'') (drop 1 (dropWhile (\<lambda>c. c \<noteq> CHR ''@'') name)))"
proof -
  let ?p = "\<lambda>c. c \<noteq> CHR ''@''"
  have first: "\<exists>ps. go_split (CHR ''@'') s = takeWhile ?p s # ps" for s
    by (induction s) (auto split: list.split)
  have split: "go_split (CHR ''@'') s = takeWhile ?p s #
      (case dropWhile ?p s of [] \<Rightarrow> [] | _ # rest \<Rightarrow> go_split (CHR ''@'') rest)" for s
    by (induction s) auto
  show ?thesis
  proof (cases "dropWhile ?p name")
    case Nil
    then show ?thesis
      by (simp add: chart_name_version_def split [of name] del: dropWhile_eq_Nil_conv)
  next
    case (Cons c rest)
    obtain ps where "go_split (CHR ''@'') rest = takeWhile ?p rest # ps" using first by blast
    with Cons show ?thesis by (simp add: chart_name_version_def split [of name])
  qed
qed

end
