(* ===== verification/Helm_Release.thy ===== *)
theory Helm_Release
  imports Helm_Values
begin

section \<open>The HelmRelease and the namespace it is installed into\<close>

text \<open>
  \<open>deployHelmRelease\<close>, \<open>undeployHelmRelease\<close> and \<open>ensureTargetClusterNamespace\<close> of
  \<open>internal/controllers/cluster/controller.go\<close>.
\<close>

subsection \<open>deployHelmRelease\<close>

definition new_release :: "string \<Rightarrow> string \<Rightarrow> helm_release" where
  "new_release ns name =
     \<lparr>meta_name = name, meta_namespace = ns, meta_labels = Map.empty, meta_annotations = Map.empty,
      meta_finalizers = [], meta_owners = [], meta_deleting = False,
      hr_chart = None, hr_chart_ref = None, hr_release_name = [], hr_target_namespace = [],
      hr_storage_namespace = [], hr_values = None, hr_install = None, hr_upgrade = None,
      hr_kubeconfig = None, hr_interval = 0, hr_rest = []\<rparr>"

lemma object_key_new_release [simp, meta_simps]:
  "object_key (new_release ns name) = \<lparr>nn_namespace = ns, nn_name = name\<rparr>"
  by (simp add: new_release_def object_key_def)

definition source_reference_to ::
  "'w lib \<Rightarrow> reconcile_result \<Rightarrow> helm_release \<Rightarrow> source_reference" where
  "source_reference_to L rr hr =
     \<lparr>ref_api_version = lib_flux_api_version L,
      ref_kind = (case rr_source_kind rr of None \<Rightarrow> [] | Some k \<Rightarrow> source_kind_name k),
      ref_name = meta_name hr,
      ref_namespace = meta_namespace hr\<rparr>"

definition set_chart :: "'w lib \<Rightarrow> reconcile_result \<Rightarrow> helm_release \<Rightarrow> helm_release outcome" where
  "set_chart L rr hr =
     (if rr_source_kind rr = Some OCIRepository
      then Returned (hr\<lparr>hr_chart := None, hr_chart_ref := Some (source_reference_to L rr hr)\<rparr>)
      else
        bind_outcome (non_nil (rr_provider_config rr)) (\<lambda>pc.
        bind_outcome (chart_name_version (chart_name (spec_source (service_spec pc)))) (\<lambda>(chart, version).
        Returned (hr\<lparr>hr_chart_ref := None,
          hr_chart := Some \<lparr>chart_source_ref = source_reference_to L rr hr,
                            chart_chart = chart, chart_version = version\<rparr>\<rparr>))))"

definition set_values ::
  "'w reconciler \<Rightarrow> cluster \<Rightarrow> reconcile_result \<Rightarrow> helm_release \<Rightarrow> helm_release outcome" where
  "set_values r c rr hr =
     bind_outcome (non_nil (rr_config rr)) (\<lambda>cfg.
     bind_outcome (non_nil (config_helm_values cfg)) (\<lambda>raw.
     Returned (hr\<lparr>hr_release_name := ''external-dns'',
                  hr_target_namespace := target_cluster_namespace,
                  hr_storage_namespace := target_cluster_namespace,
                  hr_values := Some (expand_values r c raw)\<rparr>)))"

text \<open>The install and upgrade sections: created when missing, CRD policy and retries set.\<close>

definition configure_action :: "'w lib \<Rightarrow> release_action option \<Rightarrow> release_action" where
  "configure_action L old =
     (let a = (case old of
                 None \<Rightarrow> \<lparr>action_crds = [], action_remediation = None, action_rest = []\<rparr>
               | Some a \<Rightarrow> a);
          rem = (case action_remediation a of
                   None \<Rightarrow> \<lparr>remediation_retries = 0, remediation_rest = []\<rparr>
                 | Some m \<Rightarrow> m)
      in a\<lparr>action_crds := lib_create_replace L,
           action_remediation := Some (rem\<lparr>remediation_retries := 3\<rparr>)\<rparr>)"

definition set_kubeconfig ::
  "'w lib \<Rightarrow> reconcile_result \<Rightarrow> helm_release \<Rightarrow> helm_release outcome" where
  "set_kubeconfig L rr hr =
     bind_outcome (non_nil (rr_access_request rr)) (\<lambda>ar.
     bind_outcome (non_nil (request_secret_ref ar)) (\<lambda>name.
     Returned (hr\<lparr>hr_kubeconfig :=
       Some \<lparr>kubeconfig_secret = name, kubeconfig_key = lib_kubeconfig_key L\<rparr>\<rparr>)))"

definition one_hour :: duration where
  "one_hour = 3600 * 1000000000"

definition release_interval :: "reconcile_result \<Rightarrow> duration outcome" where
  "release_interval rr =
     bind_outcome (non_nil (rr_config rr)) (\<lambda>cfg.
       case config_interval cfg of
         Some i \<Rightarrow> Returned i
       | None \<Rightarrow>
           bind_outcome (non_nil (rr_provider_config rr)) (\<lambda>pc.
             case spec_interval (service_spec pc) of
               Some i \<Rightarrow> Returned i
             | None \<Rightarrow> Returned one_hour))"

text \<open>The mutate function, after the owner reference has been set.\<close>

definition fill_release ::
  "'w lib \<Rightarrow> 'w reconciler \<Rightarrow> cluster \<Rightarrow> (string \<times> string) list \<Rightarrow> reconcile_result \<Rightarrow>
   string list \<Rightarrow> helm_release \<Rightarrow> helm_release outcome" where
  "fill_release L r c expected rr owners hr =
     bind_outcome (set_chart L rr (hr\<lparr>meta_owners := owners,
         meta_labels := lib_merge L [meta_labels hr, map_of expected]\<rparr>)) (\<lambda>hr1.
     bind_outcome (set_values r c rr hr1) (\<lambda>hr2.
     bind_outcome (set_kubeconfig L rr
       (hr2\<lparr>hr_install := Some (configure_action L (hr_install hr2)),
            hr_upgrade := Some (configure_action L (hr_upgrade hr2))\<rparr>)) (\<lambda>hr3.
     bind_outcome (release_interval rr) (\<lambda>interval.
     Returned (hr3\<lparr>hr_interval := interval\<rparr>)))))"

definition release_mutation ::
  "'w lib \<Rightarrow> 'w reconciler \<Rightarrow> cluster \<Rightarrow> (string \<times> string) list \<Rightarrow> reconcile_result \<Rightarrow>
   helm_release \<Rightarrow> helm_release mutated" where
  "release_mutation L r c expected rr hr =
     (case lib_set_owner L c (meta_owners hr) of
        Inl e \<Rightarrow> MutateFailed e
      | Inr owners \<Rightarrow>
          (case fill_release L r c expected rr owners hr of
             Panicked p \<Rightarrow> MutatePanicked p
           | Returned hr' \<Rightarrow> Mutated hr'))"

definition deploy_helm_release ::
  "'w lib \<Rightarrow> 'w reconciler \<Rightarrow> cluster \<Rightarrow> (string \<times> string) list \<Rightarrow> reconcile_result \<Rightarrow>
   ('w, reconcile_result) comp" where
  "deploy_helm_release L r c expected rr0 =
     bind_st (of_outcome (cluster_based_resource_name L (meta_name c))) (\<lambda>name w.
       let hr = new_release (meta_namespace c) name;
           rr = rr0\<lparr>rr_related := Some (object_key hr)\<rparr> in
       case api_upsert (releases_api (platform r)) hr (release_mutation L r c expected rr) w of
         (Panicked p, w') \<Rightarrow> (Panicked p, w')
       | (Returned (Inl e), w') \<Rightarrow>
           (Returned (fail rr (WriteReleaseFailed (object_key hr) e)
              PlatformClusterInteractionProblem), w')
       | (Returned (Inr _), w') \<Rightarrow> (Returned (rr\<lparr>rr_message := WroteRelease\<rparr>), w'))"

subsection \<open>undeployHelmRelease\<close>

definition await_release_deletion :: "reconcile_result \<Rightarrow> reconcile_result" where
  "await_release_deletion rr =
     rr\<lparr>rr_message := AwaitingReleaseDeletion,
        rr_result := \<lparr>requeue_after = default_requeue_after\<rparr>\<rparr>"

text \<open>The first expected label, in the order the loop visits them, that the object lacks.\<close>

definition missing_label :: "(string \<times> string) list \<Rightarrow> labels \<Rightarrow> (string \<times> string) option" where
  "missing_label entries actual = find (\<lambda>(k, v). actual k \<noteq> Some v) entries"

definition undeploy_helm_release ::
  "'w lib \<Rightarrow> 'w reconciler \<Rightarrow> cluster \<Rightarrow> (string \<times> string) list \<Rightarrow> reconcile_result \<Rightarrow>
   ('w, reconcile_result) comp" where
  "undeploy_helm_release L r c expected rr0 =
     bind_st (of_outcome (cluster_based_resource_name L (meta_name c))) (\<lambda>name w.
       let key = object_key (new_release (meta_namespace c) name);
           rr = rr0\<lparr>rr_related := Some key\<rparr>;
           why = PlatformClusterInteractionProblem in
       case api_get (releases_api (platform r)) key w of
         (Inl e, w1) \<Rightarrow>
           if e = NotFound then (Returned rr, w1)
           else (Returned (fail rr (GetReleaseFailed key e) why), w1)
       | (Inr hr, w1) \<Rightarrow>
           let rr1 = rr\<lparr>rr_related := Some (object_key hr)\<rparr> in
           if meta_deleting hr then (Returned (await_release_deletion rr1), w1)
           else
             case missing_label (lib_range L w1 expected) (meta_labels hr) of
               Some (k, v) \<Rightarrow>
                 (Returned (fail rr1 (ReleaseLabelMissing (object_key hr) k v (meta_labels hr k))
                    InternalError), w1)
             | None \<Rightarrow>
                 (case api_delete (releases_api (platform r)) (object_key hr) w1 of
                    (res, w2) \<Rightarrow>
                      (case ignore_not_found res of
                         Some e \<Rightarrow> (Returned (fail rr1 (DeleteReleaseFailed (object_key hr) e) why), w2)
                       | None \<Rightarrow> (Returned (await_release_deletion rr1), w2))))"

subsection \<open>ensureTargetClusterNamespace\<close>

definition new_namespace :: "string \<Rightarrow> object_meta" where
  "new_namespace name =
     \<lparr>meta_name = name, meta_namespace = [], meta_labels = Map.empty, meta_annotations = Map.empty,
      meta_finalizers = [], meta_owners = [], meta_deleting = False\<rparr>"

lemma object_key_new_namespace [simp, meta_simps]:
  "object_key (new_namespace name) = \<lparr>nn_namespace = [], nn_name = name\<rparr>"
  by (simp add: new_namespace_def object_key_def)

definition ensure_target_cluster_namespace ::
  "'w lib \<Rightarrow> string \<Rightarrow> reconcile_result \<Rightarrow> ('w, reconcile_result) comp" where
  "ensure_target_cluster_namespace L ns rr =
     deref (rr_access rr) (\<lambda>access.
     deref (lib_client_of L access) (\<lambda>cl w.
       let obj = new_namespace ns; why = TargetClusterInteractionProblem in
       case api_get (namespaces_api cl) (object_key obj) w of
         (Inr _, w1) \<Rightarrow> (Returned rr, w1)
       | (Inl e, w1) \<Rightarrow>
           if e \<noteq> NotFound then (Returned (fail rr (GetNamespaceFailed ns e) why), w1)
           else
             case api_create (namespaces_api cl) obj w1 of
               (res, w2) \<Rightarrow>
                 (case res of
                    None \<Rightarrow> (Returned (rr\<lparr>rr_message := CreatedNamespace ns\<rparr>), w2)
                  | Some e \<Rightarrow>
                      if e = AlreadyExists then (Returned (rr\<lparr>rr_message := CreatedNamespace ns\<rparr>), w2)
                      else (Returned (fail rr (CreateNamespaceFailed ns e) why), w2))))"

subsection \<open>Properties\<close>

text \<open>The pointers that the mutate function follows.\<close>

definition release_inputs_present :: "reconcile_result \<Rightarrow> bool" where
  "release_inputs_present rr \<longleftrightarrow>
     (\<exists>cfg ar. rr_config rr = Some cfg \<and> config_helm_values cfg \<noteq> None \<and>
        rr_access_request rr = Some ar \<and> request_secret_ref ar \<noteq> None \<and>
        (rr_provider_config rr \<noteq> None \<or>
         rr_source_kind rr = Some OCIRepository \<and> config_interval cfg \<noteq> None))"

lemma chart_name_version_returns: "\<exists>chart version. chart_name_version name = Returned (chart, version)"
  by (cases "go_split (CHR ''@'') name") (auto simp: chart_name_version_def split: list.split)

text \<open>
  Filling a HelmRelease fails only when the owner reference cannot be set, and panics only when
  the configuration, its helm values, the AccessRequest or its secret reference is missing; a granted
  AccessRequest without a secret reference is such a case.
\<close>

theorem release_mutation_outcomes:
  "(case release_mutation L r c expected rr hr of
      MutateFailed e \<Rightarrow> lib_set_owner L c (meta_owners hr) = Inl e
    | MutatePanicked p \<Rightarrow> p = NilDereference \<and> \<not> release_inputs_present rr
    | Mutated hr' \<Rightarrow> release_inputs_present rr)"
proof -
  have "\<forall>pc :: service_config.
      \<exists>y. chart_name_version (chart_name (spec_source (service_spec pc))) = Returned y"
    using chart_name_version_returns by blast
  then obtain f where split: "\<And>pc :: service_config.
      chart_name_version (chart_name (spec_source (service_spec pc))) = Returned (f pc)" by metis
  show ?thesis
    by (cases "lib_set_owner L c (meta_owners hr)"; cases "rr_config rr";
        cases "rr_provider_config rr"; cases "rr_access_request rr")
       (auto simp: release_mutation_def fill_release_def set_chart_def set_values_def set_kubeconfig_def
          release_interval_def release_inputs_present_def split bind_outcome_def non_nil_def
          split: option.split prod.split)
qed

text \<open>Chart and chart reference depend on the result so far and on the key of the HelmRelease only.\<close>

definition chart_fields ::
  "'w lib \<Rightarrow> reconcile_result \<Rightarrow> namespaced_name \<Rightarrow> (chart_template option \<times> source_reference option) outcome" where
  "chart_fields L rr nn =
     (let ref = \<lparr>ref_api_version = lib_flux_api_version L,
                 ref_kind = (case rr_source_kind rr of None \<Rightarrow> [] | Some k \<Rightarrow> source_kind_name k),
                 ref_name = nn_name nn, ref_namespace = nn_namespace nn\<rparr> in
      if rr_source_kind rr = Some OCIRepository then Returned (None, Some ref)
      else bind_outcome (non_nil (rr_provider_config rr)) (\<lambda>pc.
           bind_outcome (chart_name_version (chart_name (spec_source (service_spec pc)))) (\<lambda>(chart, version).
           Returned (Some \<lparr>chart_source_ref = ref, chart_chart = chart, chart_version = version\<rparr>, None))))"

lemma set_chart_fields:
  "set_chart L rr hr =
     map_outcome (\<lambda>(chart, ref). hr\<lparr>hr_chart := chart, hr_chart_ref := ref\<rparr>)
       (chart_fields L rr (object_key hr))"
  by (cases "rr_provider_config rr")
     (auto simp: set_chart_def chart_fields_def source_reference_to_def Let_def bind_outcome_def
       split: outcome.split)

lemma fill_release_Returned:
  assumes "fill_release L r c expected rr owners hr = Returned hr'"
  obtains cfg raw ar name chart chart_ref interval where
    "rr_config rr = Some cfg" "config_helm_values cfg = Some raw"
    "rr_access_request rr = Some ar" "request_secret_ref ar = Some name"
    "release_interval rr = Returned interval"
    "chart_fields L rr (object_key hr) = Returned (chart, chart_ref)"
    "hr' = hr\<lparr>meta_owners := owners,
         meta_labels := lib_merge L [meta_labels hr, map_of expected],
         hr_chart := chart, hr_chart_ref := chart_ref,
         hr_release_name := ''external-dns'', hr_target_namespace := target_cluster_namespace,
         hr_storage_namespace := target_cluster_namespace, hr_values := Some (expand_values r c raw),
         hr_install := Some (configure_action L (hr_install hr)),
         hr_upgrade := Some (configure_action L (hr_upgrade hr)),
         hr_kubeconfig := Some \<lparr>kubeconfig_secret = name, kubeconfig_key = lib_kubeconfig_key L\<rparr>,
         hr_interval := interval\<rparr>"
proof -
  have key: "object_key (hr\<lparr>meta_owners := owners, meta_labels := ls\<rparr>) = object_key hr" for ls
    by (simp add: object_key_def)
  from assms that show ?thesis
    by (auto simp: fill_release_def bind_outcome_Returned_iff set_values_def set_kubeconfig_def
        set_chart_fields map_outcome_Returned_iff key)
qed

lemma configure_action_twice [simp]:
  "configure_action L (Some (configure_action L a)) = configure_action L a"
  by (auto simp: configure_action_def Let_def split: option.split)

lemma release_mutation_Mutated:
  assumes "release_mutation L r c expected rr hr = Mutated hr'"
  obtains owners where "lib_set_owner L c (meta_owners hr) = Inr owners"
    "fill_release L r c expected rr owners hr = Returned hr'"
  using assms by (auto simp: release_mutation_def split: sum.splits outcome.splits)

lemma labels_twice: "(a ++ e) ++ e = (a ++ e :: labels)"
  by (rule ext) (auto simp: map_add_def split: option.split)

lemma release_mutation_again:
  assumes "merge_law L" and "owner_law L" and "release_mutation L r c expected rr hr = Mutated hr'"
  shows "release_mutation L r c expected rr hr' = Mutated hr'"
proof -
  from assms(3) obtain owners where owners: "lib_set_owner L c (meta_owners hr) = Inr owners"
    and fill: "fill_release L r c expected rr owners hr = Returned hr'"
    by (rule release_mutation_Mutated)
  from owners assms(2) have again: "lib_set_owner L c owners = Inr owners"
    unfolding owner_law_def by blast
  from fill show ?thesis
  proof (rule fill_release_Returned)
    fix cfg raw ar name chart chart_ref interval
    assume fields: "rr_config rr = Some cfg" "config_helm_values cfg = Some raw"
      "rr_access_request rr = Some ar" "request_secret_ref ar = Some name"
      "release_interval rr = Returned interval"
      "chart_fields L rr (object_key hr) = Returned (chart, chart_ref)"
      and hr': "hr' = hr\<lparr>meta_owners := owners,
         meta_labels := lib_merge L [meta_labels hr, map_of expected],
         hr_chart := chart, hr_chart_ref := chart_ref,
         hr_release_name := ''external-dns'', hr_target_namespace := target_cluster_namespace,
         hr_storage_namespace := target_cluster_namespace, hr_values := Some (expand_values r c raw),
         hr_install := Some (configure_action L (hr_install hr)),
         hr_upgrade := Some (configure_action L (hr_upgrade hr)),
         hr_kubeconfig := Some \<lparr>kubeconfig_secret = name, kubeconfig_key = lib_kubeconfig_key L\<rparr>,
         hr_interval := interval\<rparr>"
    have key: "object_key (hr'\<lparr>meta_owners := os, meta_labels := ls\<rparr>) = object_key hr" for os ls
      by (simp add: hr' object_key_def)
    have "set_chart L rr (hr'\<lparr>meta_owners := owners,
        meta_labels := lib_merge L [meta_labels hr', map_of expected]\<rparr>) = Returned hr'"
      using assms(1) by (simp add: set_chart_fields key fields) (simp add: hr' merge_lawD labels_twice)
    moreover have "meta_owners hr' = owners" by (simp add: hr')
    ultimately show ?thesis
      using again fields
      by (simp add: release_mutation_def fill_release_def set_values_def set_kubeconfig_def)
         (simp add: hr')
  qed
qed

text \<open>
  Filling a HelmRelease again changes nothing, so a reconciliation without changes leaves the
  deployed HelmRelease alone.
\<close>

theorem release_mutation_idempotent:
  assumes "merge_law L" and "owner_law L" and "release_mutation L r c expected rr hr = Mutated hr'"
  shows "release_mutation L r c expected rr hr' = Mutated hr'"
  using assms by (rule release_mutation_again)

text \<open>
  C28. What a filled HelmRelease says: it carries the expected labels and keeps its key and the fields
  that are not the controller's; it has a chart template, or for an OCI source a chart reference, but
  never both, and its source has its own name and namespace; the interval is that of the matching
  configuration, or else the global one, or else one hour.
\<close>

theorem release_contents:
  assumes "merge_law L" and "distinct (map fst expected)"
    and "release_mutation L r c expected rr hr = Mutated hr'"
  shows "has_labels expected (meta_labels hr') \<and> object_key hr' = object_key hr \<and>
    hr_rest hr' = hr_rest hr \<and> meta_annotations hr' = meta_annotations hr \<and>
    (hr_chart hr' = None \<longleftrightarrow> rr_source_kind rr = Some OCIRepository) \<and>
    (hr_chart_ref hr' = None \<longleftrightarrow> hr_chart hr' \<noteq> None) \<and>
    (\<forall>ref. hr_chart_ref hr' = Some ref \<or> map_option chart_source_ref (hr_chart hr') = Some ref \<longrightarrow>
       ref_name ref = meta_name hr \<and> ref_namespace ref = meta_namespace hr) \<and>
    hr_target_namespace hr' = target_cluster_namespace \<and>
    hr_interval hr' =
      (case rr_config rr of None \<Rightarrow> 0 | Some cfg \<Rightarrow>
        (case config_interval cfg of Some i \<Rightarrow> i | None \<Rightarrow>
          (case rr_provider_config rr of None \<Rightarrow> 0 | Some pc \<Rightarrow>
            (case spec_interval (service_spec pc) of Some i \<Rightarrow> i | None \<Rightarrow> one_hour))))"
proof -
  from assms(3) obtain owners where "fill_release L r c expected rr owners hr = Returned hr'"
    by (rule release_mutation_Mutated)
  then show ?thesis
  proof (rule fill_release_Returned)
    fix cfg raw ar name chart chart_ref interval
    assume fields: "rr_config rr = Some cfg" "release_interval rr = Returned interval"
      "chart_fields L rr (object_key hr) = Returned (chart, chart_ref)"
      and hr': "hr' = hr\<lparr>meta_owners := owners,
         meta_labels := lib_merge L [meta_labels hr, map_of expected],
         hr_chart := chart, hr_chart_ref := chart_ref,
         hr_release_name := ''external-dns'', hr_target_namespace := target_cluster_namespace,
         hr_storage_namespace := target_cluster_namespace, hr_values := Some (expand_values r c raw),
         hr_install := Some (configure_action L (hr_install hr)),
         hr_upgrade := Some (configure_action L (hr_upgrade hr)),
         hr_kubeconfig := Some \<lparr>kubeconfig_secret = name, kubeconfig_key = lib_kubeconfig_key L\<rparr>,
         hr_interval := interval\<rparr>"
    have "has_labels expected (meta_labels hr')"
      using assms(1,2) by (auto simp: hr' has_labels_iff merge_lawD map_add_Some_iff)
    moreover have "(hr_chart hr' = None \<longleftrightarrow> rr_source_kind rr = Some OCIRepository) \<and>
        (hr_chart_ref hr' = None \<longleftrightarrow> hr_chart hr' \<noteq> None) \<and>
        (\<forall>ref. hr_chart_ref hr' = Some ref \<or> map_option chart_source_ref (hr_chart hr') = Some ref \<longrightarrow>
           ref_name ref = meta_name hr \<and> ref_namespace ref = meta_namespace hr)"
      using fields(3)
      by (auto simp: hr' chart_fields_def Let_def bind_outcome_Returned_iff split: if_splits)
    moreover have "hr_interval hr' = (case config_interval cfg of Some i \<Rightarrow> i | None \<Rightarrow>
          (case rr_provider_config rr of None \<Rightarrow> 0 | Some pc \<Rightarrow>
            (case spec_interval (service_spec pc) of Some i \<Rightarrow> i | None \<Rightarrow> one_hour)))"
      using fields(1,2)
      by (auto simp: hr' release_interval_def bind_outcome_Returned_iff split: option.splits)
    ultimately show ?thesis by (cases chart) (simp_all add: fields(1) hr' object_key_def)
  qed
qed

end
