(* ===== verification/Known_Clusters.thy ===== *)
theory Known_Clusters
  imports Secrets
begin

section \<open>The registry of known Clusters and the watches that read it\<close>

text \<open>
  \<open>KnownClusters\<close> with \<open>addKnownCluster\<close>, \<open>removeKnownCluster\<close>, \<open>removeKnownClusterRaw\<close> and
  \<open>listKnownClusters\<close>, and the two event mappings of \<open>SetupWithManager\<close> that turn a change of the
  configuration or of a secret into requests for the known Clusters. Every operation holds the lock
  of the registry for its whole body, so each is one atomic step on the map, here the list of the
  map's keys. Requests are the keys of the objects to reconcile.
\<close>

type_synonym registry = "namespaced_name list"

definition initial_known_clusters :: registry where
  "initial_known_clusters = []"

definition add_known_cluster :: "'a object_meta_scheme \<Rightarrow> registry \<Rightarrow> registry" where
  "add_known_cluster c known = List.insert (object_key c) known"

definition remove_known_cluster_raw :: "string \<Rightarrow> string \<Rightarrow> registry \<Rightarrow> registry" where
  "remove_known_cluster_raw name ns known =
     filter (\<lambda>nn. nn \<noteq> \<lparr>nn_namespace = ns, nn_name = name\<rparr>) known"

definition remove_known_cluster :: "'a object_meta_scheme \<Rightarrow> registry \<Rightarrow> registry" where
  "remove_known_cluster c known = remove_known_cluster_raw (meta_name c) (meta_namespace c) known"

definition list_known_clusters :: "'w lib \<Rightarrow> registry \<Rightarrow> namespaced_name list" where
  "list_known_clusters L known = lib_range_clusters L known"

definition requests_for_known :: "'w lib \<Rightarrow> registry \<Rightarrow> namespaced_name list" where
  "requests_for_known L known = lib_project_requests L (\<lambda>nn. nn) (list_known_clusters L known)"

text \<open>
  \<open>mapSecretToRequests\<close>. The watch only delivers Secrets, so the type assertion is the constructor
  of the argument: \<open>None\<close> stands for an object of another type.
\<close>

definition map_secret_to_requests ::
  "'w lib \<Rightarrow> 'w reconciler \<Rightarrow> registry \<Rightarrow> secret option \<Rightarrow> 'w \<Rightarrow> namespaced_name list \<times> 'w" where
  "map_secret_to_requests L r known obj w =
     (case obj of
        None \<Rightarrow> ([], w)
      | Some secret \<Rightarrow>
          if meta_namespace secret \<noteq> provider_namespace r then ([], w)
          else
            let key = \<lparr>nn_namespace = [], nn_name = provider_name r\<rparr> in
            case api_get (configs_api (platform r)) key w of
              (Inl e, w1) \<Rightarrow> ([], w1)
            | (Inr config, w1) \<Rightarrow>
                (case api_get (services_api (platform r)) key w1 of
                   (Inl e, w2) \<Rightarrow> ([], w2)
                 | (Inr svc, w2) \<Rightarrow>
                     if meta_name secret \<notin> extract_referenced_secret_names config (Some svc)
                     then ([], w2)
                     else (requests_for_known L known, w2)))"

subsection \<open>The registry as an abstract set\<close>

text \<open>
  The interface: an object is added under its key, a name and namespace are removed, and the members
  are those of a set. What follows for histories of such steps is shown once, for every registry.
\<close>

datatype registry_step = Add object_meta | Remove string string

primrec step_key :: "registry_step \<Rightarrow> namespaced_name" where
  "step_key (Add c) = object_key c"
| "step_key (Remove name ns) = \<lparr>nn_namespace = ns, nn_name = name\<rparr>"

primrec is_add :: "registry_step \<Rightarrow> bool" where
  "is_add (Add c) = True"
| "is_add (Remove name ns) = False"

locale cluster_registry =
  fixes add :: "object_meta \<Rightarrow> 'r \<Rightarrow> 'r"
    and remove :: "string \<Rightarrow> string \<Rightarrow> 'r \<Rightarrow> 'r"
    and members :: "'r \<Rightarrow> namespaced_name set"
    and valid :: "'r \<Rightarrow> bool"
  assumes members_add: "members (add c known) = insert (object_key c) (members known)"
    and members_remove: "members (remove name ns known) =
          members known - {\<lparr>nn_namespace = ns, nn_name = name\<rparr>}"
    and valid_add: "valid known \<Longrightarrow> valid (add c known)"
    and valid_remove: "valid known \<Longrightarrow> valid (remove name ns known)"
begin

lemma members_apply_step:
  "members (case_registry_step add remove step known) =
     (if is_add step then insert (step_key step) (members known) else members known - {step_key step})"
  by (cases step) (simp_all add: members_add members_remove)

lemma valid_history: "valid known \<Longrightarrow> valid (fold (case_registry_step add remove) steps known)"
proof (induction steps arbitrary: known)
  case (Cons step steps)
  then show ?case by (cases step) (simp_all add: valid_add valid_remove)
qed simp

lemma member_after_history:
  "nn \<in> members (fold (case_registry_step add remove) steps known) \<longleftrightarrow>
     (case find (\<lambda>step. step_key step = nn) (rev steps) of
        Some step \<Rightarrow> is_add step
      | None \<Rightarrow> nn \<in> members known)"
proof (induction steps arbitrary: known rule: rev_induct)
  case (snoc step steps)
  then show ?case by (auto simp: members_apply_step)
qed simp

end

lemma remove_known_cluster_raw_set:
  "set (remove_known_cluster_raw name ns known) = set known - {\<lparr>nn_namespace = ns, nn_name = name\<rparr>}"
  by (auto simp: remove_known_cluster_raw_def)

interpretation known: cluster_registry
    add_known_cluster remove_known_cluster_raw set distinct
  by unfold_locales
     (auto simp: add_known_cluster_def remove_known_cluster_raw_def distinct_insert)

definition registry_after :: "registry_step list \<Rightarrow> registry" where
  "registry_after steps =
     fold (case_registry_step add_known_cluster remove_known_cluster_raw) steps initial_known_clusters"

subsection \<open>Properties\<close>

text \<open>
  After any sequence of additions and removals, a change of the configuration leads to a request
  for each Cluster whose last step was an addition, once for each, and for no other.
\<close>

theorem config_change_requests_known_clusters:
  assumes "range_clusters_law L" and "project_law L"
  shows "distinct (requests_for_known L (registry_after steps)) \<and>
         (nn \<in> set (requests_for_known L (registry_after steps)) \<longleftrightarrow>
          (\<exists>step. find (\<lambda>step. step_key step = nn) (rev steps) = Some step \<and> is_add step))"
proof -
  let ?known = "registry_after steps"
  have perm: "mset (requests_for_known L ?known) = mset ?known"
    using assms
    by (simp add: requests_for_known_def list_known_clusters_def project_law_def range_clusters_law_def)
  have "distinct ?known"
    unfolding registry_after_def by (rule known.valid_history) (simp add: initial_known_clusters_def)
  then have "distinct (requests_for_known L ?known)"
    using perm by (metis mset_eq_imp_distinct_iff)
  moreover have "set (requests_for_known L ?known) = set ?known" using perm by (rule mset_eq_setD)
  ultimately show ?thesis
    by (simp add: registry_after_def known.member_after_history initial_known_clusters_def
        split: option.split)
qed

text \<open>
  A changed secret leads to requests for all known Clusters if it lies in the provider namespace
  and is one that copying reads; otherwise, or if the configuration cannot be read, to none.
\<close>

theorem secret_change_requests_known_clusters:
  assumes "range_clusters_law L" and "project_law L"
    and "api_get (configs_api (platform r)) \<lparr>nn_namespace = [], nn_name = provider_name r\<rparr> w = (cfg, w1)"
    and "api_get (services_api (platform r)) \<lparr>nn_namespace = [], nn_name = provider_name r\<rparr> w1 = (svc, w2)"
  shows "set (fst (map_secret_to_requests L r known (Some sec) w)) =
    (case (cfg, svc) of
       (Inr config, Inr ps) \<Rightarrow>
         if meta_namespace sec = provider_namespace r \<and>
            meta_name sec \<in> extract_referenced_secret_names config (Some ps)
         then set known else {}
     | _ \<Rightarrow> {})"
proof -
  have "set (requests_for_known L known) = set known"
    using assms(1,2)
    by (auto simp: requests_for_known_def list_known_clusters_def project_law_def
        range_clusters_law_def intro!: set_range_order)
  with assms(3,4) show ?thesis
    by (auto simp: map_secret_to_requests_def split: sum.split)
qed

end
