(* ===== verification/Controller.thy ===== *)
theory Controller
  imports Secrets Flux_Sources Helm_Release Known_Clusters
begin

section \<open>The reconcile loop\<close>

text \<open>
  \<open>Reconcile\<close>, \<open>reconcile\<close>, \<open>handleCreateOrUpdate\<close> and \<open>handleDelete\<close> of
  \<open>internal/controllers/cluster/controller.go\<close>. The state of the reconciler is the world behind its
  clients and the registry of known Clusters.
\<close>

record 'w controller_state =
  world :: 'w
  known_clusters :: registry

definition on_world :: "('w, 'a) comp \<Rightarrow> ('w controller_state, 'a) comp" where
  "on_world m s = (case m (world s) of (x, w) \<Rightarrow> (x, s\<lparr>world := w\<rparr>))"

subsection \<open>handleCreateOrUpdate\<close>

text \<open>The phases after access to the Cluster has been obtained.\<close>

definition deploy_phases ::
  "'w lib \<Rightarrow> 'w reconciler \<Rightarrow> cluster \<Rightarrow> (string \<times> string) list \<Rightarrow> reconcile_result \<Rightarrow>
   ('w, reconcile_result) comp" where
  "deploy_phases L r c expected rr0 =
     bind_st (copy_secrets L r (meta_namespace c) expected rr0 PlatformClusterCopy) (\<lambda>(rr, copied).
     if stopped rr then return_st rr else
     chain (remove_secrets L r (meta_namespace c) expected rr PlatformClusterCopy copied) (\<lambda>rr.
     chain (deploy_helm_chart_source L r c expected rr) (\<lambda>rr.
     chain (ensure_target_cluster_namespace L target_cluster_namespace rr) (\<lambda>rr.
     bind_st (copy_secrets L r target_cluster_namespace expected rr TargetClusterCopy) (\<lambda>(rr, copied).
     if stopped rr then return_st rr else
     chain (remove_secrets L r target_cluster_namespace expected rr TargetClusterCopy copied) (\<lambda>rr.
     chain (deploy_helm_release L r c expected rr) (\<lambda>rr.
     return_st (rr\<lparr>rr_message := DeployTriggered\<rparr>))))))))"

text \<open>
  Access to the Cluster, then the phases. An error of \<open>AccessRequest\<close> is recorded, but the code goes
  on; the next guard stands after the first copying of secrets.
\<close>

definition deploy_with_access ::
  "'w lib \<Rightarrow> 'w reconciler \<Rightarrow> cluster \<Rightarrow> (string \<times> string) list \<Rightarrow> reconcile_result \<Rightarrow>
   ('w, reconcile_result) comp" where
  "deploy_with_access L r c expected rr w =
     (let req = object_key c; acc = access_reconciler r in
      case access_reconcile acc req w of
        ((res, Some e), w1) \<Rightarrow> (Returned (fail rr (AccessReconcileFailed e) InternalError), w1)
      | ((res, None), w1) \<Rightarrow>
          if requeue_after res > 0 then (Returned (rr\<lparr>rr_result := res\<rparr>), w1)
          else
            case access_request_of acc req w1 of
              ((ar, err), w2) \<Rightarrow>
                let rr1 = (case err of
                             None \<Rightarrow> rr
                           | Some e \<Rightarrow> fail rr (AccessRequestFailed e) InternalError);
                    rr2 = rr1\<lparr>rr_access_request := ar\<rparr> in
                case access_cluster acc req w2 of
                  ((access, Some e), w3) \<Rightarrow> (Returned (fail rr2 (AccessFailed e) InternalError), w3)
                | ((access, None), w3) \<Rightarrow>
                    deploy_phases L r c expected (rr2\<lparr>rr_access := access\<rparr>) w3)"

definition create_after_finalizer ::
  "'w lib \<Rightarrow> 'w reconciler \<Rightarrow> cluster \<Rightarrow> (string \<times> string) list \<Rightarrow> reconcile_result \<Rightarrow>
   ('w controller_state, reconcile_result) comp" where
  "create_after_finalizer L r c expected rr s =
     on_world (deploy_with_access L r c expected rr)
       (s\<lparr>known_clusters := add_known_cluster c (known_clusters s)\<rparr>)"

definition handle_create_or_update ::
  "'w lib \<Rightarrow> 'w reconciler \<Rightarrow> cluster \<Rightarrow> (string \<times> string) list \<Rightarrow> reconcile_result \<Rightarrow>
   ('w controller_state, reconcile_result) comp" where
  "handle_create_or_update L r c expected rr s =
     (case lib_add_finalizer L (cluster_finalizer L) (meta_finalizers c) of
        (changed, fins) \<Rightarrow>
          let c1 = c\<lparr>meta_finalizers := fins\<rparr> in
          if changed then
            case api_patch (clusters_api (platform r)) c c1 (world s) of
              (Inl e, w) \<Rightarrow>
                (Returned (fail rr (AddFinalizerFailed (object_key c) e)
                   PlatformClusterInteractionProblem), s\<lparr>world := w\<rparr>)
            | (Inr c2, w) \<Rightarrow> create_after_finalizer L r c2 expected rr (s\<lparr>world := w\<rparr>)
          else create_after_finalizer L r c1 expected rr s)"

subsection \<open>handleDelete\<close>

text \<open>After the HelmRelease is gone: secrets, sources, secrets, access.\<close>

definition remove_target_secrets ::
  "'w lib \<Rightarrow> 'w reconciler \<Rightarrow> cluster \<Rightarrow> (string \<times> string) list \<Rightarrow> access_request option \<Rightarrow>
   reconcile_result \<Rightarrow> ('w, reconcile_result) comp" where
  "remove_target_secrets L r c expected ar rr w =
     (case ar of
        Some a \<Rightarrow>
          if \<not> meta_deleting a \<and> request_granted a then
            case access_cluster (access_reconciler r) (object_key c) w of
              ((access, Some e), w1) \<Rightarrow> (Returned (fail rr (AccessFailed e) InternalError), w1)
            | ((access, None), w1) \<Rightarrow>
                remove_secrets L r target_cluster_namespace expected (rr\<lparr>rr_access := access\<rparr>)
                  TargetClusterCopy {} w1
          else (Returned rr, w)
      | None \<Rightarrow> (Returned rr, w))"

definition delete_access ::
  "'w reconciler \<Rightarrow> cluster \<Rightarrow> reconcile_result \<Rightarrow> ('w, reconcile_result) comp" where
  "delete_access r c rr w =
     (case access_reconcile_delete (access_reconciler r) (object_key c) w of
        ((res, Some e), w1) \<Rightarrow> (Returned (fail rr (AccessDeleteFailed e) InternalError), w1)
      | ((res, None), w1) \<Rightarrow>
          if requeue_after res > 0 then (Returned (rr\<lparr>rr_result := res\<rparr>), w1)
          else (Returned rr, w1))"

definition cleanup_phases ::
  "'w lib \<Rightarrow> 'w reconciler \<Rightarrow> cluster \<Rightarrow> (string \<times> string) list \<Rightarrow> access_request option \<Rightarrow>
   reconcile_result \<Rightarrow> ('w, reconcile_result) comp" where
  "cleanup_phases L r c expected ar rr =
     chain (remove_target_secrets L r c expected ar rr) (\<lambda>rr.
     chain (undeploy_helm_chart_source L r c expected rr) (\<lambda>rr.
     chain (remove_secrets L r (meta_namespace c) expected rr PlatformClusterCopy {}) (\<lambda>rr.
     delete_access r c rr)))"

definition cleanup_with_access ::
  "'w lib \<Rightarrow> 'w reconciler \<Rightarrow> cluster \<Rightarrow> (string \<times> string) list \<Rightarrow> reconcile_result \<Rightarrow>
   ('w, reconcile_result) comp" where
  "cleanup_with_access L r c expected rr w =
     (let req = object_key c; acc = access_reconciler r in
      case access_reconcile acc req w of
        ((res, Some e), w1) \<Rightarrow> (Returned (fail rr (AccessReconcileFailed e) InternalError), w1)
      | ((res, None), w1) \<Rightarrow>
          if requeue_after res > 0 then (Returned (rr\<lparr>rr_result := res\<rparr>), w1)
          else
            case access_request_of acc req w1 of
              ((ar, err), w2) \<Rightarrow>
                (case ignore_not_found err of
                   Some e \<Rightarrow> (Returned (fail rr (AccessRequestFailed e) InternalError), w2)
                 | None \<Rightarrow> cleanup_phases L r c expected ar rr w2))"

definition release_cluster ::
  "'w lib \<Rightarrow> 'w reconciler \<Rightarrow> cluster \<Rightarrow> reconcile_result \<Rightarrow>
   ('w controller_state, reconcile_result) comp" where
  "release_cluster L r c rr s =
     (case lib_remove_finalizer L (cluster_finalizer L) (meta_finalizers c) of
        (changed, fins) \<Rightarrow>
          let c1 = c\<lparr>meta_finalizers := fins\<rparr>;
              finish = (\<lambda>c' s'. (Returned (rr\<lparr>rr_message := ExternalDnsRemoved\<rparr>),
                 s'\<lparr>known_clusters := remove_known_cluster c' (known_clusters s')\<rparr>)) in
          if changed then
            case api_patch (clusters_api (platform r)) c c1 (world s) of
              (Inl e, w) \<Rightarrow>
                (Returned (fail rr (RemoveFinalizerFailed (object_key c) e)
                   PlatformClusterInteractionProblem), s\<lparr>world := w\<rparr>)
            | (Inr c2, w) \<Rightarrow> finish c2 (s\<lparr>world := w\<rparr>)
          else finish c1 s)"

definition handle_delete ::
  "'w lib \<Rightarrow> 'w reconciler \<Rightarrow> cluster \<Rightarrow> (string \<times> string) list \<Rightarrow> reconcile_result \<Rightarrow>
   ('w controller_state, reconcile_result) comp" where
  "handle_delete L r c expected rr s =
     (if cluster_finalizer L \<notin> set (meta_finalizers c) then
        (Returned rr, s\<lparr>known_clusters := remove_known_cluster c (known_clusters s)\<rparr>)
      else
        chain (on_world (undeploy_helm_release L r c expected rr)) (\<lambda>rr.
        chain (on_world (cleanup_with_access L r c expected rr)) (\<lambda>rr.
        release_cluster L r c rr)) s)"

subsection \<open>reconcile\<close>

text \<open>The operation annotation: the DNS-specific one, or else the generic one.\<close>

definition requested_operation :: "'w lib \<Rightarrow> cluster \<Rightarrow> string option" where
  "requested_operation L c =
     (case meta_annotations c (dns_operation_annotation L) of
        Some op \<Rightarrow> Some op
      | None \<Rightarrow> meta_annotations c (lib_operation_annotation L))"

definition reconcile_configured ::
  "'w lib \<Rightarrow> 'w reconciler \<Rightarrow> cluster \<Rightarrow> (string \<times> string) list \<Rightarrow> reconcile_result \<Rightarrow>
   service_config \<Rightarrow> ('w controller_state, reconcile_result) comp" where
  "reconcile_configured L r c expected rr config =
     (let rr1 = rr\<lparr>rr_config := select_config (spec_purposes (service_spec config)) (cluster_purposes c)\<rparr> in
      if \<not> meta_deleting c \<and> rr_config rr1 \<noteq> None
      then handle_create_or_update L r c expected rr1
      else handle_delete L r c expected rr1)"

definition reconcile_loaded ::
  "'w lib \<Rightarrow> 'w reconciler \<Rightarrow> cluster \<Rightarrow> ('w controller_state, reconcile_result) comp" where
  "reconcile_loaded L r c s =
     (let key = \<lparr>nn_namespace = [], nn_name = provider_name r\<rparr>;
          name = provider_name r;
          expected = expected_labels L r (meta_name c);
          why = PlatformClusterInteractionProblem in
      case api_get (configs_api (platform r)) key (world s) of
        (Inl e, w1) \<Rightarrow>
          (Returned (if e = NotFound then fail empty_result (ConfigNotFound name) ConfigurationProblem
             else fail empty_result (GetConfigFailed name e) why), s\<lparr>world := w1\<rparr>)
      | (Inr config, w1) \<Rightarrow>
          let rr = empty_result\<lparr>rr_provider_config := Some config\<rparr> in
          case api_get (services_api (platform r)) key w1 of
            (Inl e, w2) \<Rightarrow>
              (Returned (fail rr (GetPlatformServiceFailed name e) why), s\<lparr>world := w2\<rparr>)
          | (Inr svc, w2) \<Rightarrow>
              reconcile_configured L r c expected (rr\<lparr>rr_platform_service := Some svc\<rparr>) config
                (s\<lparr>world := w2\<rparr>))"

definition reconcile_cluster ::
  "'w lib \<Rightarrow> 'w reconciler \<Rightarrow> cluster \<Rightarrow> ('w controller_state, reconcile_result) comp" where
  "reconcile_cluster L r c s =
     (if requested_operation L c = Some (lib_operation_ignore L) then (Returned empty_result, s)
      else if requested_operation L c = Some (lib_operation_reconcile L) then
        case lib_remove_annotation L (lib_operation_annotation L) c (world s) of
          (Inl e, w) \<Rightarrow>
            (Returned (fail empty_result (RemoveAnnotationFailed e) PlatformClusterInteractionProblem),
             s\<lparr>world := w\<rparr>)
        | (Inr c', w) \<Rightarrow> reconcile_loaded L r c' (s\<lparr>world := w\<rparr>)
      else reconcile_loaded L r c s)"

subsection \<open>Reconcile\<close>

text \<open>
  What \<open>Reconcile\<close> returns: the result for the work queue and the error, which is either that of a
  failed read of the Cluster or the \<open>ReconcileError\<close>.
\<close>

definition result_event :: "cluster \<Rightarrow> reconcile_result \<Rightarrow> event option" where
  "result_event c rr =
     (case rr_error rr of
        Some err \<Rightarrow> Some \<lparr>event_regarding = object_key c, event_related = rr_related rr,
          event_kind = EventWarning, event_reason = Some (error_reason err),
          event_note = Inl (error_failure err)\<rparr>
      | None \<Rightarrow>
          if rr_message rr \<noteq> NoMessage
          then Some \<lparr>event_regarding = object_key c, event_related = rr_related rr,
            event_kind = EventNormal, event_reason = None, event_note = Inr (rr_message rr)\<rparr>
          else None)"

definition send_event :: "'w reconciler \<Rightarrow> event option \<Rightarrow> 'w \<Rightarrow> 'w" where
  "send_event r ev w =
     (case event_recorder r of
        None \<Rightarrow> w
      | Some eventf \<Rightarrow> (case ev of None \<Rightarrow> w | Some e \<Rightarrow> eventf e w))"

definition Reconcile ::
  "'w lib \<Rightarrow> 'w reconciler \<Rightarrow> namespaced_name \<Rightarrow>
   ('w controller_state, requeue_result \<times> failure option) comp" where
  "Reconcile L r req s =
     (case api_get (clusters_api (platform r)) req (world s) of
        (Inl e, w) \<Rightarrow>
          if e = NotFound
          then (Returned (\<lparr>requeue_after = 0\<rparr>, None),
                s\<lparr>world := w, known_clusters :=
                    remove_known_cluster_raw (nn_name req) (nn_namespace req) (known_clusters s)\<rparr>)
          else (Returned (\<lparr>requeue_after = 0\<rparr>, Some (GetClusterFailed req e)), s\<lparr>world := w\<rparr>)
      | (Inr c, w) \<Rightarrow>
          bind_st (reconcile_cluster L r c)
            (\<lambda>rr s'. (Returned (rr_result rr, map_option error_failure (rr_error rr)),
                      s'\<lparr>world := send_event r (result_event c rr) (world s')\<rparr>))
            (s\<lparr>world := w\<rparr>))"

end
