(* ===== verification/Request_Log.thy ===== *)
theory Request_Log
  imports Controller
begin

section \<open>Observing the requests of a run\<close>

text \<open>
  To state in which order and on which objects the controller acts, its clients are wrapped: a
  logged client does what the wrapped one does and appends every call with its answer to a log that
  is kept beside the world. The definitions of the controller are the same; only the parameters
  change, so what is shown for a logged run holds for every server and every library. The second
  half is the rule set by which a run may act, \<open>allowed\<close>, and what it means for a whole log.
\<close>

subsection \<open>Calls\<close>

datatype side = OnPlatform | OnTarget target

datatype resource =
  RCluster | RConfig | RService | RSecret | RNamespace | RSource source_kind | RRelease

datatype call =
  CGet side resource namespaced_name "api_error + object_meta"
| CList side resource string labels "api_error + namespaced_name list"
| CCreate side resource namespaced_name "api_error option"
| CPatch side resource namespaced_name "string list" "api_error option"
| CDelete side resource namespaced_name "api_error option"
| CUpsert side resource namespaced_name "(api_error + namespaced_name) outcome"
| CAccessReconcile namespaced_name duration "api_error option"
| CAccessRequest namespaced_name "access_request option" "api_error option"
| CAccess namespaced_name "target option" "api_error option"
| CAccessDelete namespaced_name duration "api_error option"
| CRemoveAnnotation string namespaced_name "api_error + string list"
| CEvent event

subsection \<open>Logged parameters\<close>

definition log_call :: "('a \<Rightarrow> call) \<Rightarrow> ('w \<Rightarrow> 'a \<times> 'w) \<Rightarrow> 'w \<times> call list \<Rightarrow> 'a \<times> 'w \<times> call list" where
  "log_call entry m s = (case m (fst s) of (x, w) \<Rightarrow> (x, w, snd s @ [entry x]))"

lemma log_call_eq_iff:
  "log_call entry m (w, l) = (x, w', l') \<longleftrightarrow> m w = (x, w') \<and> l' = l @ [entry x]"
  by (auto simp: log_call_def split: prod.split)

definition error_of :: "'e + 'a \<Rightarrow> 'e option" where
  "error_of x = (case x of Inl e \<Rightarrow> Some e | Inr _ \<Rightarrow> None)"

lemma error_of_simps [simp]: "error_of (Inl e) = Some e" "error_of (Inr a) = None"
  by (simp_all add: error_of_def)

definition logged_kind ::
  "side \<Rightarrow> resource \<Rightarrow> ('x object_meta_scheme, 'w) kind_api \<Rightarrow>
   ('x object_meta_scheme, 'w \<times> call list) kind_api" where
  "logged_kind sd res api =
     \<lparr>api_get = (\<lambda>k. log_call (\<lambda>x. CGet sd res k (map_sum id object_meta.truncate x)) (api_get api k)),
      api_list = (\<lambda>ns ls. log_call (\<lambda>x. CList sd res ns ls (map_sum id (map object_key) x))
        (api_list api ns ls)),
      api_create = (\<lambda>o'. log_call (\<lambda>x. CCreate sd res (object_key o') x) (api_create api o')),
      api_patch = (\<lambda>old new. log_call
        (\<lambda>x. CPatch sd res (object_key new) (meta_finalizers new) (error_of x))
        (api_patch api old new)),
      api_delete = (\<lambda>k. log_call (\<lambda>x. CDelete sd res k x) (api_delete api k)),
      api_upsert = (\<lambda>o' f. log_call
        (\<lambda>x. CUpsert sd res (object_key o') (map_outcome (map_sum id object_key) x))
        (api_upsert api o' f))\<rparr>"

definition logged_client :: "side \<Rightarrow> 'w client \<Rightarrow> ('w \<times> call list) client" where
  "logged_client sd cl =
     \<lparr>clusters_api = logged_kind sd RCluster (clusters_api cl),
      configs_api = logged_kind sd RConfig (configs_api cl),
      services_api = logged_kind sd RService (services_api cl),
      secrets_api = logged_kind sd RSecret (secrets_api cl),
      namespaces_api = logged_kind sd RNamespace (namespaces_api cl),
      sources_api = (\<lambda>k. logged_kind sd (RSource k) (sources_api cl k)),
      releases_api = logged_kind sd RRelease (releases_api cl)\<rparr>"

definition logged_access :: "'w access_api \<Rightarrow> ('w \<times> call list) access_api" where
  "logged_access acc =
     \<lparr>access_reconcile = (\<lambda>k. log_call (\<lambda>(res, e). CAccessReconcile k (requeue_after res) e)
        (access_reconcile acc k)),
      access_request_of = (\<lambda>k. log_call (\<lambda>(ar, e). CAccessRequest k ar e) (access_request_of acc k)),
      access_cluster = (\<lambda>k. log_call (\<lambda>(a, e). CAccess k a e) (access_cluster acc k)),
      access_reconcile_delete = (\<lambda>k. log_call (\<lambda>(res, e). CAccessDelete k (requeue_after res) e)
        (access_reconcile_delete acc k))\<rparr>"

definition logged_lib :: "'w lib \<Rightarrow> ('w \<times> call list) lib" where
  "logged_lib L =
     \<lparr>lib_client_of = (\<lambda>a. map_option (logged_client (OnTarget a)) (lib_client_of L a)),
      lib_remove_annotation = (\<lambda>k c. log_call (\<lambda>x. CRemoveAnnotation k (object_key c)
        (map_sum id meta_finalizers x))
        (lib_remove_annotation L k c)),
      lib_shorten = lib_shorten L,
      lib_max_name_length = lib_max_name_length L,
      lib_merge = lib_merge L,
      lib_set_owner = lib_set_owner L,
      lib_add_finalizer = lib_add_finalizer L,
      lib_remove_finalizer = lib_remove_finalizer L,
      lib_project_sources = lib_project_sources L,
      lib_project_requests = lib_project_requests L,
      lib_range = (\<lambda>s. lib_range L (fst s)),
      lib_range_clusters = lib_range_clusters L,
      lib_managed_by_label = lib_managed_by_label L,
      lib_managed_purpose_label = lib_managed_purpose_label L,
      lib_operation_annotation = lib_operation_annotation L,
      lib_operation_ignore = lib_operation_ignore L,
      lib_operation_reconcile = lib_operation_reconcile L,
      lib_openmcp_group = lib_openmcp_group L,
      lib_flux_api_version = lib_flux_api_version L,
      lib_create_replace = lib_create_replace L,
      lib_kubeconfig_key = lib_kubeconfig_key L\<rparr>"

definition logged :: "'w reconciler \<Rightarrow> ('w \<times> call list) reconciler" where
  "logged r =
     \<lparr>platform = logged_client OnPlatform (platform r),
      event_recorder = map_option
        (\<lambda>eventf e s. (eventf e (fst s), snd s @ [CEvent e])) (event_recorder r),
      provider_name = provider_name r,
      provider_namespace = provider_namespace r,
      environment = environment r,
      access_reconciler = logged_access (access_reconciler r)\<rparr>"

lemmas logged_defs = logged_kind_def logged_client_def logged_access_def logged_lib_def logged_def

lemma logged_constants [simp]:
  "expected_labels (logged_lib L) (logged r) = expected_labels L r"
  "cluster_finalizer (logged_lib L) = cluster_finalizer L"
  "dns_operation_annotation (logged_lib L) = dns_operation_annotation L"
  "lib_operation_annotation (logged_lib L) = lib_operation_annotation L"
  "cluster_based_resource_name (logged_lib L) = cluster_based_resource_name L"
  "provider_namespace (logged r) = provider_namespace r"
  "provider_name (logged r) = provider_name r"
  by (simp_all add: fun_eq_iff logged_defs expected_labels_def cluster_finalizer_def
      dns_operation_annotation_def cluster_based_resource_name_def)

lemma logged_operation [simp]:
  "lib_operation_ignore (logged_lib L) = lib_operation_ignore L"
  "lib_operation_reconcile (logged_lib L) = lib_operation_reconcile L"
  "requested_operation (logged_lib L) c = requested_operation L c"
  by (simp_all add: requested_operation_def split: option.split) (simp_all add: logged_lib_def)

subsection \<open>What a run may do\<close>

text \<open>
  The scope of a run: the Cluster's key, the expected labels, the name of the secondary resources,
  the finalizer, and whether the Cluster carried it when it was read. The finalizer is known to be
  set when it was, or when a patch or the answer to the removal of the annotation shows it.
\<close>

record scope =
  scope_key :: namespaced_name
  scope_labels :: "(string \<times> string) list"
  scope_provider_namespace :: string
  scope_resource_name :: "string outcome"
  scope_finalizer :: string
  scope_annotation :: string
  scope_has_finalizer :: bool

definition home :: "scope \<Rightarrow> side \<Rightarrow> string" where
  "home S sd = (case sd of OnPlatform \<Rightarrow> nn_namespace (scope_key S) | OnTarget _ \<Rightarrow> target_cluster_namespace)"

definition resource_key :: "scope \<Rightarrow> namespaced_name \<Rightarrow> bool" where
  "resource_key S nn \<longleftrightarrow>
     nn_namespace nn = nn_namespace (scope_key S) \<and> scope_resource_name S = Returned (nn_name nn)"

definition was_listed :: "scope \<Rightarrow> side \<Rightarrow> resource \<Rightarrow> call list \<Rightarrow> namespaced_name \<Rightarrow> bool" where
  "was_listed S sd res l nn \<longleftrightarrow>
     (\<exists>names. CList sd res (home S sd) (map_of (scope_labels S)) (Inr names) \<in> set l \<and> nn \<in> set names)"

definition all_deleted :: "scope \<Rightarrow> side \<Rightarrow> resource \<Rightarrow> call list \<Rightarrow> bool" where
  "all_deleted S sd res l \<longleftrightarrow>
     (\<exists>names. CList sd res (home S sd) (map_of (scope_labels S)) (Inr names) \<in> set l \<and>
        (\<forall>nn \<in> set names. CDelete sd res nn None \<in> set l \<or> CDelete sd res nn (Some NotFound) \<in> set l))"

definition finalizer_set :: "scope \<Rightarrow> call list \<Rightarrow> bool" where
  "finalizer_set S l \<longleftrightarrow> scope_has_finalizer S \<or>
     (\<exists>nn fins. CPatch OnPlatform RCluster nn fins None \<in> set l \<and> scope_finalizer S \<in> set fins) \<or>
     (\<exists>k nn fins. CRemoveAnnotation k nn (Inr fins) \<in> set l \<and> scope_finalizer S \<in> set fins)"

definition release_gone :: "scope \<Rightarrow> call list \<Rightarrow> bool" where
  "release_gone S l \<longleftrightarrow> (\<exists>nn. resource_key S nn \<and> CGet OnPlatform RRelease nn (Inl NotFound) \<in> set l)"

definition access_gone :: "scope \<Rightarrow> call list \<Rightarrow> bool" where
  "access_gone S l \<longleftrightarrow> (\<exists>d. d \<le> 0 \<and> CAccessDelete (scope_key S) d None \<in> set l)"

text \<open>
  The AccessRequest was read, or found to be absent; and if it was granted, access was obtained and the
  secrets on the Cluster were deleted.
\<close>

definition target_cleaned :: "scope \<Rightarrow> call list \<Rightarrow> bool" where
  "target_cleaned S l \<longleftrightarrow>
     (\<exists>ar err. CAccessRequest (scope_key S) ar err \<in> set l \<and> ignore_not_found err = None \<and>
        (\<forall>a. ar = Some a \<and> \<not> meta_deleting a \<and> request_granted a \<longrightarrow>
           (\<exists>t. CAccess (scope_key S) (Some t) None \<in> set l \<and> all_deleted S (OnTarget t) RSecret l)))"

definition torn_down :: "scope \<Rightarrow> call list \<Rightarrow> bool" where
  "torn_down S l \<longleftrightarrow> release_gone S l \<and> (\<forall>k. all_deleted S OnPlatform (RSource k) l) \<and>
     all_deleted S OnPlatform RSecret l \<and> target_cleaned S l \<and> access_gone S l"

definition source_written :: "namespaced_name \<Rightarrow> call list \<Rightarrow> bool" where
  "source_written nn l \<longleftrightarrow>
     (\<exists>k nn'. CUpsert OnPlatform (RSource k) nn (Returned (Inr nn')) \<in> set l)"

definition namespace_ready :: "call list \<Rightarrow> bool" where
  "namespace_ready l \<longleftrightarrow>
     (\<exists>a nn. nn_name nn = target_cluster_namespace \<and>
        ((\<exists>m. CGet (OnTarget a) RNamespace nn (Inr m) \<in> set l) \<or>
         CCreate (OnTarget a) RNamespace nn None \<in> set l \<or>
         CCreate (OnTarget a) RNamespace nn (Some AlreadyExists) \<in> set l))"

text \<open>A secret may be written right after a read of it that found nothing, or found our labels.\<close>

definition checked_secret :: "scope \<Rightarrow> side \<Rightarrow> call list \<Rightarrow> namespaced_name \<Rightarrow> bool" where
  "checked_secret S sd l nn \<longleftrightarrow>
     (\<exists>key ans. l \<noteq> [] \<and> last l = CGet sd RSecret key ans \<and> nn_namespace key = home S sd \<and>
        (ans = Inl NotFound \<and> nn = key \<or>
         (\<exists>m. ans = Inr m \<and> nn = object_key m \<and> has_labels (scope_labels S) (meta_labels m))))"

text \<open>A HelmRelease may be deleted after a read that found our labels on it.\<close>

definition own_release :: "scope \<Rightarrow> call list \<Rightarrow> namespaced_name \<Rightarrow> bool" where
  "own_release S l nn \<longleftrightarrow>
     (\<exists>key m. l \<noteq> [] \<and> last l = CGet OnPlatform RRelease key (Inr m) \<and> resource_key S key \<and>
        nn = object_key m \<and> \<not> meta_deleting m \<and> has_labels (scope_labels S) (meta_labels m))"

fun allowed :: "scope \<Rightarrow> call list \<Rightarrow> call \<Rightarrow> bool" where
  "allowed S l (CGet sd RSecret nn _) =
     (nn_namespace nn = home S sd \<or>
      sd = OnPlatform \<and> nn_namespace nn = scope_provider_namespace S)"
| "allowed S l (CGet _ _ _ _) = True"
| "allowed S l (CList sd _ ns ls _) = (ns = home S sd \<and> ls = map_of (scope_labels S))"
| "allowed S l (CCreate sd res nn _) =
     (sd \<noteq> OnPlatform \<and> res = RNamespace \<and> nn_name nn = target_cluster_namespace \<and> finalizer_set S l)"
| "allowed S l (CPatch sd res nn fins _) =
     (sd = OnPlatform \<and> res = RCluster \<and> nn = scope_key S \<and>
      (scope_finalizer S \<in> set fins \<or> torn_down S l))"
| "allowed S l (CDelete sd RSecret nn _) = was_listed S sd RSecret l nn"
| "allowed S l (CDelete sd (RSource k) nn _) =
     (sd = OnPlatform \<and> was_listed S OnPlatform (RSource k) l nn)"
| "allowed S l (CDelete sd RRelease nn _) = (sd = OnPlatform \<and> own_release S l nn)"
| "allowed S l (CDelete _ _ _ _) = False"
| "allowed S l (CUpsert sd RSecret nn _) = (finalizer_set S l \<and> checked_secret S sd l nn)"
| "allowed S l (CUpsert sd (RSource k) nn _) =
     (sd = OnPlatform \<and> finalizer_set S l \<and> resource_key S nn)"
| "allowed S l (CUpsert sd RRelease nn _) =
     (sd = OnPlatform \<and> finalizer_set S l \<and> resource_key S nn \<and> source_written nn l \<and> namespace_ready l)"
| "allowed S l (CUpsert _ _ _ _) = False"
| "allowed S l (CAccessReconcile nn _ _) = (nn = scope_key S \<and> finalizer_set S l)"
| "allowed S l (CAccessRequest nn _ _) = (nn = scope_key S)"
| "allowed S l (CAccess nn _ _) = (nn = scope_key S)"
| "allowed S l (CAccessDelete nn _ _) =
     (nn = scope_key S \<and> release_gone S l \<and> (\<forall>k. all_deleted S OnPlatform (RSource k) l) \<and>
      all_deleted S OnPlatform RSecret l \<and> target_cleaned S l)"
| "allowed S l (CRemoveAnnotation k _ _) = (k = scope_annotation S)"
| "allowed S l (CEvent _) = True"

text \<open>A log is well behaved if every call was allowed by the calls before it.\<close>

definition well_behaved :: "scope \<Rightarrow> call list \<Rightarrow> bool" where
  "well_behaved S l \<longleftrightarrow> (\<forall>i < length l. allowed S (take i l) (l ! i))"

lemma well_behaved_Nil [simp]: "well_behaved S []"
  by (simp add: well_behaved_def)

lemma well_behaved_snoc: "well_behaved S (l @ [c]) \<longleftrightarrow> well_behaved S l \<and> allowed S l c"
  by (auto simp: well_behaved_def nth_append less_Suc_eq)

text \<open>The calls of a continuation, each allowed after what came before.\<close>

fun fits :: "scope \<Rightarrow> call list \<Rightarrow> call list \<Rightarrow> bool" where
  "fits S l [] = True"
| "fits S l (c # cs) = (allowed S l c \<and> fits S (l @ [c]) cs)"

lemma well_behaved_append [simp]: "well_behaved S (l @ d) \<longleftrightarrow> well_behaved S l \<and> fits S l d"
proof (induction d arbitrary: l)
  case Nil
  show ?case by simp
next
  case (Cons c d)
  from Cons.IH [of "l @ [c]"] show ?case by (simp add: well_behaved_snoc)
qed

lemma well_behaved_split: "well_behaved S (pre @ c # post) \<Longrightarrow> allowed S pre c"
  by simp

end
