(* ===== verification/Run_Logic.thy ===== *)
theory Run_Logic
  imports Request_Log "HOL-Library.Sublist"
begin

section \<open>Reasoning about logged runs\<close>

text \<open>
  Triples over logged computations. \<open>safe S P m Q\<close>: started with a well-behaved log that satisfies
  \<open>P\<close>, the computation \<open>m\<close> only appends to the log, keeps it well behaved, also when it panics, and a
  value it returns satisfies \<open>Q\<close> together with the log. The rules follow the combinators by which
  the phases are put together; facts that survive an extension of the log can be carried along.
\<close>

named_theorems log_simps

subsection \<open>Logged parameters, call by call\<close>

lemma logged_kind_calls [log_simps]:
  "api_get (logged_kind sd res api) k (w, l) = (g, s) \<longleftrightarrow>
     (\<exists>w'. api_get api k w = (g, w') \<and> s = (w', l @ [CGet sd res k (map_sum id object_meta.truncate g)]))"
  "api_list (logged_kind sd res api) ns ls (w, l) = (xs, s) \<longleftrightarrow>
     (\<exists>w'. api_list api ns ls w = (xs, w') \<and>
        s = (w', l @ [CList sd res ns ls (map_sum id (map object_key) xs)]))"
  "api_create (logged_kind sd res api) obj (w, l) = (e, s) \<longleftrightarrow>
     (\<exists>w'. api_create api obj w = (e, w') \<and> s = (w', l @ [CCreate sd res (object_key obj) e]))"
  "api_patch (logged_kind sd res api) obj new (w, l) = (p, s) \<longleftrightarrow>
     (\<exists>w'. api_patch api obj new w = (p, w') \<and>
        s = (w', l @ [CPatch sd res (object_key new) (meta_finalizers new) (error_of p)]))"
  "api_delete (logged_kind sd res api) k (w, l) = (e, s) \<longleftrightarrow>
     (\<exists>w'. api_delete api k w = (e, w') \<and> s = (w', l @ [CDelete sd res k e]))"
  "api_upsert (logged_kind sd res api) obj f (w, l) = (u, s) \<longleftrightarrow>
     (\<exists>w'. api_upsert api obj f w = (u, w') \<and>
        s = (w', l @ [CUpsert sd res (object_key obj) (map_outcome (map_sum id object_key) u)]))"
  by (cases s; auto simp: logged_kind_def log_call_eq_iff)+

lemma logged_client_simps [log_simps]:
  "clusters_api (logged_client sd cl) = logged_kind sd RCluster (clusters_api cl)"
  "configs_api (logged_client sd cl) = logged_kind sd RConfig (configs_api cl)"
  "services_api (logged_client sd cl) = logged_kind sd RService (services_api cl)"
  "secrets_api (logged_client sd cl) = logged_kind sd RSecret (secrets_api cl)"
  "namespaces_api (logged_client sd cl) = logged_kind sd RNamespace (namespaces_api cl)"
  "sources_api (logged_client sd cl) k = logged_kind sd (RSource k) (sources_api cl k)"
  "releases_api (logged_client sd cl) = logged_kind sd RRelease (releases_api cl)"
  by (simp_all add: logged_client_def)

lemma logged_simps [log_simps]:
  "platform (logged r) = logged_client OnPlatform (platform r)"
  "access_reconciler (logged r) = logged_access (access_reconciler r)"
  "lib_client_of (logged_lib L) a = map_option (logged_client (OnTarget a)) (lib_client_of L a)"
  "lib_range (logged_lib L) (w, l) = lib_range L w"
  by (simp_all add: logged_def logged_lib_def)

lemma logged_access_calls [log_simps]:
  "access_reconcile (logged_access acc) k (w, l) = ((res, e), s) \<longleftrightarrow>
     (\<exists>w'. access_reconcile acc k w = ((res, e), w') \<and>
        s = (w', l @ [CAccessReconcile k (requeue_after res) e]))"
  "access_request_of (logged_access acc) k (w, l) = ((ar, e), s) \<longleftrightarrow>
     (\<exists>w'. access_request_of acc k w = ((ar, e), w') \<and> s = (w', l @ [CAccessRequest k ar e]))"
  "access_cluster (logged_access acc) k (w, l) = ((a, e), s) \<longleftrightarrow>
     (\<exists>w'. access_cluster acc k w = ((a, e), w') \<and> s = (w', l @ [CAccess k a e]))"
  "access_reconcile_delete (logged_access acc) k (w, l) = ((res, e), s) \<longleftrightarrow>
     (\<exists>w'. access_reconcile_delete acc k w = ((res, e), w') \<and>
        s = (w', l @ [CAccessDelete k (requeue_after res) e]))"
  by (cases s; auto simp: logged_access_def log_call_eq_iff)+

lemma logged_annotation_call [log_simps]:
  "lib_remove_annotation (logged_lib L) k c (w, l) = (x, s) \<longleftrightarrow>
     (\<exists>w'. lib_remove_annotation L k c w = (x, w') \<and>
        s = (w', l @ [CRemoveAnnotation k (object_key c) (map_sum id meta_finalizers x)]))"
  by (cases s) (auto simp: logged_lib_def log_call_eq_iff)

lemma truncate_meta [simp]:
  "object_key (object_meta.truncate x) = object_key x"
  "meta_labels (object_meta.truncate x) = meta_labels x"
  "meta_deleting (object_meta.truncate x) = meta_deleting x"
  "meta_finalizers (object_meta.truncate x) = meta_finalizers x"
  by (simp_all add: object_meta.truncate_def object_key_def)

subsection \<open>Triples\<close>

definition safe_on ::
  "('s \<Rightarrow> call list) \<Rightarrow> scope \<Rightarrow> (call list \<Rightarrow> bool) \<Rightarrow> ('s, 'a) comp \<Rightarrow>
   ('a \<Rightarrow> call list \<Rightarrow> bool) \<Rightarrow> bool" where
  "safe_on lg S P m Q \<longleftrightarrow>
     (\<forall>s x s'. well_behaved S (lg s) \<longrightarrow> P (lg s) \<longrightarrow> m s = (x, s') \<longrightarrow>
        well_behaved S (lg s') \<and> prefix (lg s) (lg s') \<and> (\<forall>a. x = Returned a \<longrightarrow> Q a (lg s')))"

text \<open>The state is a logged world, or that of the controller on a logged world.\<close>

abbreviation safe ::
  "scope \<Rightarrow> (call list \<Rightarrow> bool) \<Rightarrow> ('w \<times> call list, 'a) comp \<Rightarrow> ('a \<Rightarrow> call list \<Rightarrow> bool) \<Rightarrow> bool" where
  "safe \<equiv> safe_on snd"

abbreviation log_of :: "('w \<times> call list) controller_state \<Rightarrow> call list" where
  "log_of s \<equiv> snd (world s)"

lemma safe_onI:
  assumes "\<And>s x s'. well_behaved S (lg s) \<Longrightarrow> P (lg s) \<Longrightarrow> m s = (x, s') \<Longrightarrow>
             well_behaved S (lg s') \<and> prefix (lg s) (lg s') \<and> (\<forall>a. x = Returned a \<longrightarrow> Q a (lg s'))"
  shows "safe_on lg S P m Q"
  using assms by (auto simp: safe_on_def)

lemma safe_onD:
  assumes "safe_on lg S P m Q" and "well_behaved S (lg s)" and "P (lg s)" and "m s = (x, s')"
  shows "well_behaved S (lg s')" and "prefix (lg s) (lg s')" and "x = Returned a \<Longrightarrow> Q a (lg s')"
  using assms by (auto simp: safe_on_def)

lemma safeI:
  assumes "\<And>w l x w' l'. well_behaved S l \<Longrightarrow> P l \<Longrightarrow> m (w, l) = (x, w', l') \<Longrightarrow>
             well_behaved S l' \<and> prefix l l' \<and> (\<forall>a. x = Returned a \<longrightarrow> Q a l')"
  shows "safe S P m Q"
  by (rule safe_onI) (use assms in force)

lemma safeD:
  assumes "safe S P m Q" and "well_behaved S l" and "P l" and "m (w, l) = (x, w', l')"
  shows "well_behaved S l'" and "prefix l l'" and "x = Returned a \<Longrightarrow> Q a l'"
  using assms safe_onD [of snd S P m Q "(w, l)"] by auto

lemma safe_return: "(\<And>l. P l \<Longrightarrow> Q a l) \<Longrightarrow> safe_on lg S P (return_st a) Q"
  by (auto simp: safe_on_def return_st_def)

lemma safe_bind:
  assumes m: "safe_on lg S P m Q" and f: "\<And>a. safe_on lg S (Q a) (f a) R"
  shows "safe_on lg S P (bind_st m f) R"
proof (rule safe_onI)
  fix s x s'
  assume l: "well_behaved S (lg s)" "P (lg s)" and run: "bind_st m f s = (x, s')"
  obtain y s1 where y: "m s = (y, s1)" by (cases "m s")
  note step = safe_onD [OF m l y]
  show "well_behaved S (lg s') \<and> prefix (lg s) (lg s') \<and> (\<forall>a. x = Returned a \<longrightarrow> R a (lg s'))"
  proof (cases y)
    case (Returned a)
    with run y have "f a s1 = (x, s')" by (simp add: bind_st_def)
    from safe_onD [where lg = lg, OF f step(1) step(3) [OF Returned] this] step(2) show ?thesis
      by (auto intro: prefix_order.trans)
  next
    case (Panicked p)
    with run y step(1,2) show ?thesis by (auto simp: bind_st_def)
  qed
qed

lemma safe_conseq:
  assumes "safe_on lg S P m Q" and "\<And>l. P' l \<Longrightarrow> P l" and "\<And>a l. Q a l \<Longrightarrow> Q' a l"
  shows "safe_on lg S P' m Q'"
  using assms unfolding safe_on_def by metis

lemma safe_pre: "safe_on lg S P m Q \<Longrightarrow> (\<And>l. P' l \<Longrightarrow> P l) \<Longrightarrow> safe_on lg S P' m Q"
  by (rule safe_conseq)

lemma safe_chain:
  assumes "safe_on lg S P m Q" and "\<And>rr. \<not> stopped rr \<Longrightarrow> safe_on lg S (Q rr) (f rr) R"
    and "\<And>rr l. stopped rr \<Longrightarrow> Q rr l \<Longrightarrow> R rr l"
  shows "safe_on lg S P (chain m f) R"
  unfolding chain_def
proof (rule safe_bind [OF assms(1)])
  fix rr
  show "safe_on lg S (Q rr) (if stopped rr then return_st rr else f rr) R"
    using assms(2,3) by (simp add: safe_return)
qed

text \<open>Facts that survive an extension of the log.\<close>

definition lasting :: "(call list \<Rightarrow> bool) \<Rightarrow> bool" where
  "lasting I \<longleftrightarrow> (\<forall>l l'. prefix l l' \<longrightarrow> I l \<longrightarrow> I l')"

lemma lastingD: "lasting I \<Longrightarrow> prefix l l' \<Longrightarrow> I l \<Longrightarrow> I l'"
  by (auto simp: lasting_def)

lemma safe_frame:
  assumes "safe_on lg S P m Q" and "lasting I"
  shows "safe_on lg S (\<lambda>l. P l \<and> I l) m (\<lambda>a l. Q a l \<and> I l)"
  using assms unfolding safe_on_def lasting_def by metis

lemma lasting_True [intro]: "lasting (\<lambda>_. True)"
  by (simp add: lasting_def)

lemma lasting_conj [intro]: "lasting I \<Longrightarrow> lasting J \<Longrightarrow> lasting (\<lambda>l. I l \<and> J l)"
  by (auto simp: lasting_def)

lemma lasting_member: "(\<And>l l'. set l \<subseteq> set l' \<Longrightarrow> I l \<Longrightarrow> I l') \<Longrightarrow> lasting I"
  unfolding lasting_def by (metis set_mono_prefix)

lemma lasting_logged [intro]: "lasting (\<lambda>l. c \<in> set l)"
  by (rule lasting_member) auto

lemma lasting_finalizer_set [intro]: "lasting (finalizer_set S)"
  by (rule lasting_member) (unfold finalizer_set_def, meson subsetD)

lemma lasting_release_gone [intro]: "lasting (release_gone S)"
  by (rule lasting_member) (unfold release_gone_def, meson subsetD)

lemma lasting_all_deleted [intro]: "lasting (all_deleted S sd res)"
  by (rule lasting_member) (unfold all_deleted_def, meson subsetD)

lemma lasting_target_cleaned [intro]: "lasting (target_cleaned S)"
  unfolding lasting_def
proof (intro allI impI)
  fix l l'
  assume pre: "prefix l l'" and "target_cleaned S l"
  then obtain ar err where ar: "CAccessRequest (scope_key S) ar err \<in> set l" "ignore_not_found err = None"
    and cleaned: "\<And>a. ar = Some a \<and> \<not> meta_deleting a \<and> request_granted a \<Longrightarrow>
      \<exists>t. CAccess (scope_key S) (Some t) None \<in> set l \<and> all_deleted S (OnTarget t) RSecret l"
    unfolding target_cleaned_def by blast
  have "\<exists>t. CAccess (scope_key S) (Some t) None \<in> set l' \<and> all_deleted S (OnTarget t) RSecret l'"
    if "ar = Some a \<and> \<not> meta_deleting a \<and> request_granted a" for a
    using cleaned [OF that] lastingD [OF lasting_all_deleted pre] set_mono_prefix [OF pre] by blast
  with ar set_mono_prefix [OF pre] show "target_cleaned S l'" unfolding target_cleaned_def by blast
qed

lemma lasting_all_sources [intro]: "lasting (\<lambda>l. \<forall>k. all_deleted S sd (RSource k) l)"
  using lasting_all_deleted unfolding lasting_def by blast

lemma lasting_access_gone [intro]: "lasting (access_gone S)"
  by (rule lasting_member) (unfold access_gone_def, meson subsetD)

lemma lasting_source_written [intro]: "lasting (source_written nn)"
  by (rule lasting_member) (unfold source_written_def, meson subsetD)

lemma lasting_namespace_ready [intro]: "lasting namespace_ready"
  by (rule lasting_member) (unfold namespace_ready_def, meson subsetD)

text \<open>Computations that start with a pointer or a pure outcome.\<close>

lemma safe_panic: "safe_on lg S P (\<lambda>s. (Panicked p, s)) Q"
  by (auto simp: safe_on_def)

lemma safe_deref:
  assumes "\<And>a. p = Some a \<Longrightarrow> safe_on lg S P (f a) Q"
  shows "safe_on lg S P (deref p f) Q"
  using assms safe_panic by (cases p) (auto simp: deref_def)

lemma safe_of_outcome: "safe_on lg S P (of_outcome x) (\<lambda>a l. P l \<and> x = Returned a)"
  by (auto simp: safe_on_def of_outcome_def)

text \<open>Phases that act on the world only.\<close>

lemma safe_on_world:
  assumes "safe S P m Q"
  shows "safe_on log_of S P (on_world m) Q"
proof (rule safe_onI)
  fix s s' :: "('a \<times> call list) controller_state" and x
  assume l: "well_behaved S (log_of s)" "P (log_of s)" and run: "on_world m s = (x, s')"
  from run have "m (world s) = (x, world s')" by (auto simp: on_world_def split: prod.splits)
  from safe_onD [where lg = snd, OF assms l this]
  show "well_behaved S (log_of s') \<and> prefix (log_of s) (log_of s') \<and>
      (\<forall>a. x = Returned a \<longrightarrow> Q a (log_of s'))" by blast
qed

end
