(* ===== verification/Run_Safety.thy ===== *)
theory Run_Safety
  imports Run_Logic
begin

section \<open>Every run is well behaved\<close>

text \<open>
  The phases of a reconciliation, one triple each, and their composition: whatever the servers
  answer, every call of a run is allowed by the calls before it. The consequences for single kinds
  of calls follow from the meaning of \<open>allowed\<close>.
\<close>

lemma finalizer_set_append [simp]: "finalizer_set S l \<Longrightarrow> finalizer_set S (l @ d)"
  by (rule lastingD [OF lasting_finalizer_set]) auto

subsection \<open>Secrets\<close>

lemma safe_write_secret:
  "safe S (\<lambda>l. finalizer_set S l \<and> checked_secret S sd l (object_key target))
     (write_secret L (logged_client sd cl) why expected source copied target) (\<lambda>_. finalizer_set S)"
  by (rule safeI)
     (auto simp: write_secret_def log_simps split: prod.splits outcome.splits sum.splits)

lemma safe_copy_secret:
  assumes "provider_namespace r = scope_provider_namespace S" and "ns = home S sd"
  shows "safe S (finalizer_set S)
     (copy_secret L (logged r) ct (logged_client sd cl) why ns (scope_labels S) s t copied)
     (\<lambda>_. finalizer_set S)"
proof (rule safeI)
  fix w l x w' l'
  assume l: "well_behaved S l" "finalizer_set S l"
    and run: "copy_secret L (logged r) ct (logged_client sd cl) why ns (scope_labels S) s t copied
               (w, l) = (x, w', l')"
  show "well_behaved S l' \<and> prefix l l' \<and> (\<forall>a. x = Returned a \<longrightarrow> finalizer_set S l')"
    using l run assms
    by (auto simp: copy_secret_def write_secret_def log_simps Let_def checked_secret_def
        split: prod.splits outcome.splits sum.splits if_splits)
qed

lemma safe_copy_loop:
  assumes "provider_namespace r = scope_provider_namespace S" and "ns = home S sd"
  shows "safe S (finalizer_set S)
     (copy_loop L (logged r) ct (logged_client sd cl) why ns (scope_labels S) entries copied)
     (\<lambda>_. finalizer_set S)"
proof (induction entries arbitrary: copied)
  case Nil
  show ?case by (simp add: safe_return)
next
  case (Cons entry entries)
  obtain s t where entry: "entry = (s, t)" by (cases entry)
  show ?case unfolding entry copy_loop.simps
  proof (rule safe_bind [OF safe_copy_secret [OF assms]])
    fix res :: copy_result
    show "safe S (finalizer_set S)
        (case res of (e, copied') \<Rightarrow>
           if e \<noteq> None then return_st (e, copied')
           else copy_loop L (logged r) ct (logged_client sd cl) why ns (scope_labels S) entries copied')
        (\<lambda>_. finalizer_set S)"
      using Cons.IH by (cases res) (simp add: safe_return)
  qed
qed

lemma safe_copy_configured:
  assumes "provider_namespace r = scope_provider_namespace S" and "ns = home S sd"
  shows "safe S (finalizer_set S)
     (copy_configured L (logged r) ns (scope_labels S) rr ct (map_option (logged_client sd) access)
        why configured)
     (\<lambda>_. finalizer_set S)"
proof -
  have loop: "safe S (finalizer_set S)
      (\<lambda>w. bind_st
         (copy_loop L (logged r) ct (logged_client sd cl) why ns (scope_labels S)
            (lib_range L w entries) {})
         (\<lambda>(e, copied). return_st (f e copied)) w)
      (\<lambda>_. finalizer_set S)" for cl entries and f :: "reasonable_error option \<Rightarrow> string set \<Rightarrow> 'b"
  proof (rule safeI)
    fix w l x w' l'
    assume l: "well_behaved S l" "finalizer_set S l"
      and run: "bind_st
         (copy_loop L (logged r) ct (logged_client sd cl) why ns (scope_labels S)
            (lib_range L (w, l) entries) {})
         (\<lambda>(e, copied). return_st (f e copied)) (w, l) = (x, w', l')"
    have "safe S (finalizer_set S) (bind_st
         (copy_loop L (logged r) ct (logged_client sd cl) why ns (scope_labels S)
            (lib_range L (w, l) entries) {})
         (\<lambda>(e, copied). return_st (f e copied))) (\<lambda>_. finalizer_set S)"
      by (rule safe_bind [OF safe_copy_loop [OF assms]]) (auto intro: safe_return)
    from safeD [OF this l run]
    show "well_behaved S l' \<and> prefix l l' \<and> (\<forall>a. x = Returned a \<longrightarrow> finalizer_set S l')"
      by blast
  qed
  show ?thesis
    unfolding copy_configured_def
    by (rule safe_deref) (auto simp: Let_def intro: safe_return loop split: option.split)
qed

lemma safe_copy_secrets:
  assumes "provider_namespace r = scope_provider_namespace S"
    and "case ct of PlatformClusterCopy \<Rightarrow> ns = home S OnPlatform
         | TargetClusterCopy \<Rightarrow> ns = target_cluster_namespace"
  shows "safe S (finalizer_set S)
     (copy_secrets (logged_lib L) (logged r) ns (scope_labels S) rr ct) (\<lambda>_. finalizer_set S)"
  unfolding copy_secrets_def
proof (rule safe_deref)
  fix pc
  have platform: "safe S (finalizer_set S)
      (copy_configured (logged_lib L) (logged r) ns (scope_labels S) rr PlatformClusterCopy
        (Some (logged_client OnPlatform (platform r))) why configured) (\<lambda>_. finalizer_set S)"
    if "ct = PlatformClusterCopy" for why configured
    using safe_copy_configured [OF assms(1), of ns OnPlatform "logged_lib L" rr PlatformClusterCopy
        "Some (platform r)" why configured] assms(2) that by simp
  have target: "safe S (finalizer_set S)
      (copy_configured (logged_lib L) (logged r) ns (scope_labels S) rr TargetClusterCopy
        (lib_client_of (logged_lib L) a) why configured) (\<lambda>_. finalizer_set S)"
    if "ct = TargetClusterCopy" for why configured a
    using safe_copy_configured [OF assms(1), of ns "OnTarget a" "logged_lib L" rr TargetClusterCopy
        "lib_client_of L a" why configured] assms(2) that
    by (simp add: log_simps home_def)
  show "safe S (finalizer_set S)
      (case spec_secrets (service_spec pc) of None \<Rightarrow> return_st (rr, {})
       | Some stc \<Rightarrow>
           (case ct of
              PlatformClusterCopy \<Rightarrow>
                copy_configured (logged_lib L) (logged r) ns (scope_labels S) rr ct
                  (Some (platform (logged r))) PlatformClusterInteractionProblem (to_platform_cluster stc)
            | TargetClusterCopy \<Rightarrow>
                deref (rr_access rr) (\<lambda>access.
                  copy_configured (logged_lib L) (logged r) ns (scope_labels S) rr ct
                    (lib_client_of (logged_lib L) access) TargetClusterInteractionProblem
                    (to_target_cluster stc))))
      (\<lambda>_. finalizer_set S)"
    by (auto simp: logged_simps(1) intro: safe_return platform safe_deref target
        split: option.split copy_to.split)
qed

subsection \<open>Deletions\<close>

text \<open>A deletion was answered with success, or with the object already gone.\<close>

definition gone :: "side \<Rightarrow> resource \<Rightarrow> namespaced_name \<Rightarrow> call list \<Rightarrow> bool" where
  "gone sd res nn l \<longleftrightarrow> CDelete sd res nn None \<in> set l \<or> CDelete sd res nn (Some NotFound) \<in> set l"

lemma gone_append [simp]: "gone sd res nn l \<Longrightarrow> gone sd res nn (l @ d)"
  by (auto simp: gone_def)

lemma gone_prefix: "prefix l l' \<Longrightarrow> gone sd res nn l \<Longrightarrow> gone sd res nn l'"
  by (auto simp: prefix_def)

lemma ignore_not_found_None_iff: "ignore_not_found e = None \<longleftrightarrow> e = None \<or> e = Some NotFound"
  by (auto simp: ignore_not_found_def)

lemma gone_snoc: "ignore_not_found e = None \<Longrightarrow> gone sd res nn (l @ [CDelete sd res nn e])"
  by (auto simp: gone_def ignore_not_found_None_iff)

definition listed :: "scope \<Rightarrow> side \<Rightarrow> resource \<Rightarrow> namespaced_name list \<Rightarrow> call list \<Rightarrow> bool" where
  "listed S sd res names l \<longleftrightarrow>
     CList sd res (home S sd) (map_of (scope_labels S)) (Inr names) \<in> set l"

lemma listed_append [simp]: "listed S sd res names l \<Longrightarrow> listed S sd res names (l @ d)"
  by (auto simp: listed_def)

lemma was_listedI: "listed S sd res names l \<Longrightarrow> nn \<in> set names \<Longrightarrow> was_listed S sd res l nn"
  by (auto simp: listed_def was_listed_def)

lemma all_deletedI:
  "listed S sd res names l \<Longrightarrow> (\<forall>nn \<in> set names. gone sd res nn l) \<Longrightarrow> all_deleted S sd res l"
  by (auto simp: listed_def all_deleted_def gone_def)

lemma lasting_listed [intro]: "lasting (listed S sd res names)"
  unfolding listed_def by (rule lasting_logged)

lemma safe_remove_loop:
  "safe S (\<lambda>l. listed S sd RSecret names l \<and> object_key ` set objs \<subseteq> set names)
     (remove_loop (logged_client sd cl) why keep objs deleted kept)
     (\<lambda>res l. fst res = None \<longrightarrow>
        (\<forall>obj \<in> set objs. meta_name obj \<notin> keep \<longrightarrow> gone sd RSecret (object_key obj) l))"
proof (induction objs arbitrary: deleted kept)
  case Nil
  show ?case by (auto simp: safe_on_def)
next
  case (Cons obj objs)
  show ?case
  proof (rule safeI)
    fix w l x w' l'
    assume l: "well_behaved S l"
      "listed S sd RSecret names l \<and> object_key ` set (obj # objs) \<subseteq> set names"
      and run: "remove_loop (logged_client sd cl) why keep (obj # objs) deleted kept (w, l) = (x, w', l')"
    show "well_behaved S l' \<and> prefix l l' \<and> (\<forall>a. x = Returned a \<longrightarrow> fst a = None \<longrightarrow>
        (\<forall>obj \<in> set (obj # objs). meta_name obj \<notin> keep \<longrightarrow> gone sd RSecret (object_key obj) l'))"
    proof (cases "meta_name obj \<in> keep")
      case True
      with run have "remove_loop (logged_client sd cl) why keep objs deleted (Suc kept) (w, l) = (x, w', l')"
        by simp
      from safeD [OF Cons.IH l(1) _ this] l(2) True show ?thesis by auto
    next
      case False
      obtain res w1 where res: "api_delete (secrets_api cl) (object_key obj) w = (res, w1)"
        by (cases "api_delete (secrets_api cl) (object_key obj) w")
      let ?l = "l @ [CDelete sd RSecret (object_key obj) res]"
      have logged: "api_delete (secrets_api (logged_client sd cl)) (object_key obj) (w, l) = (res, w1, ?l)"
        using res by (simp add: log_simps)
      have wb: "well_behaved S ?l" using l by (auto intro: was_listedI)
      show ?thesis
      proof (cases "ignore_not_found res")
        case None
        with run False logged have
          "remove_loop (logged_client sd cl) why keep objs (Suc deleted) kept (w1, ?l) = (x, w', l')"
          by simp
        note rest = safeD [OF Cons.IH wb _ this]
        have pre: "prefix ?l l'" using rest(2) l(2) by auto
        then have "gone sd RSecret (object_key obj) l'"
          by (rule gone_prefix) (rule gone_snoc [OF None])
        moreover have "prefix l l'" using pre by (auto simp: prefix_def)
        ultimately show ?thesis using rest(1,3) l(2) by auto
      next
        case (Some e)
        with run False logged have "x = Returned (Some (reasoned (DeleteSecretFailed (object_key obj) e) why),
            deleted, kept)" and "l' = ?l" by auto
        with wb show ?thesis by simp
      qed
    qed
  qed
qed

lemma safe_remove_from:
  assumes "ns = home S sd"
  shows "safe S (\<lambda>_. True)
     (remove_from ns (scope_labels S) rr ct keep (map_option (logged_client sd) access) why)
     (\<lambda>rr' l. \<not> stopped rr' \<longrightarrow> keep = {} \<longrightarrow> all_deleted S sd RSecret l)"
proof (cases access)
  case None
  then show ?thesis by (auto simp: remove_from_def intro: safe_return)
next
  case (Some cl)
  show ?thesis
  proof (rule safeI)
    fix w l x w' l'
    assume l: "well_behaved S l"
      and run: "remove_from ns (scope_labels S) rr ct keep (map_option (logged_client sd) access) why (w, l)
                 = (x, w', l')"
    obtain ans w1 where ans: "api_list (secrets_api cl) ns (map_of (scope_labels S)) w = (ans, w1)"
      by (cases "api_list (secrets_api cl) ns (map_of (scope_labels S)) w")
    let ?l = "l @ [CList sd RSecret ns (map_of (scope_labels S)) (map_sum id (map object_key) ans)]"
    have logged: "api_list (secrets_api (logged_client sd cl)) ns (map_of (scope_labels S)) (w, l)
        = (ans, w1, ?l)" using ans by (simp add: log_simps)
    have wb: "well_behaved S ?l" using l assms by simp
    show "well_behaved S l' \<and> prefix l l' \<and>
        (\<forall>a. x = Returned a \<longrightarrow> \<not> stopped a \<longrightarrow> keep = {} \<longrightarrow> all_deleted S sd RSecret l')"
    proof (cases ans)
      case (Inl e)
      with run logged Some wb show ?thesis by (auto simp: remove_from_def)
    next
      case (Inr objs)
      let ?f = "\<lambda>(e, deleted, kept). return_st
          (case e of Some err \<Rightarrow> rr\<lparr>rr_error := Some err\<rparr>
           | None \<Rightarrow> rr\<lparr>rr_message := RemovedSecrets deleted ns ct kept\<rparr>)"
      let ?Q = "\<lambda>rr' l. \<not> stopped rr' \<longrightarrow> keep = {} \<longrightarrow> all_deleted S sd RSecret l"
      from run logged Some Inr have run':
        "bind_st (remove_loop (logged_client sd cl) why keep objs 0 0) ?f (w1, ?l) = (x, w', l')"
        by (simp add: remove_from_def)
      have listed: "listed S sd RSecret (map object_key objs) ?l"
        using Inr assms by (simp add: listed_def)
      have "safe S (\<lambda>l. listed S sd RSecret (map object_key objs) l)
          (bind_st (remove_loop (logged_client sd cl) why keep objs 0 0) ?f) ?Q"
      proof (rule safe_bind)
        show "safe S (listed S sd RSecret (map object_key objs))
            (remove_loop (logged_client sd cl) why keep objs 0 0)
            (\<lambda>res l. (fst res = None \<longrightarrow>
               (\<forall>obj \<in> set objs. meta_name obj \<notin> keep \<longrightarrow> gone sd RSecret (object_key obj) l)) \<and>
               listed S sd RSecret (map object_key objs) l)"
          by (rule safe_conseq [OF safe_frame [OF safe_remove_loop [of S sd "map object_key objs"]
                lasting_listed [of S sd RSecret "map object_key objs"]]]) auto
      next
        fix a :: "reasonable_error option \<times> nat \<times> nat"
        show "safe S (\<lambda>l. (fst a = None \<longrightarrow>
               (\<forall>obj \<in> set objs. meta_name obj \<notin> keep \<longrightarrow> gone sd RSecret (object_key obj) l)) \<and>
               listed S sd RSecret (map object_key objs) l) (?f a) ?Q"
          by (cases a) (auto simp: stopped_def split: option.split intro!: safe_return all_deletedI)
      qed
      from safeD [OF this wb listed run'] show ?thesis by (auto simp: prefix_def)
    qed
  qed
qed

lemma safe_remove_secrets:
  assumes "case ct of PlatformClusterCopy \<Rightarrow> ns = home S OnPlatform
           | TargetClusterCopy \<Rightarrow> ns = target_cluster_namespace"
  shows "safe S (\<lambda>_. True)
     (remove_secrets (logged_lib L) (logged r) ns (scope_labels S) rr ct keep)
     (\<lambda>rr' l. \<not> stopped rr' \<longrightarrow> keep = {} \<longrightarrow>
        (case ct of
           PlatformClusterCopy \<Rightarrow> all_deleted S OnPlatform RSecret l
         | TargetClusterCopy \<Rightarrow> \<exists>t. rr_access rr = Some t \<and> all_deleted S (OnTarget t) RSecret l))"
proof (cases ct)
  case PlatformClusterCopy
  with assms safe_remove_from [of ns S OnPlatform rr ct keep "Some (platform r)"] show ?thesis
    by (simp add: remove_secrets_def log_simps)
next
  case TargetClusterCopy
  have target: "safe S (\<lambda>_. True)
      (remove_from ns (scope_labels S) rr TargetClusterCopy keep (lib_client_of (logged_lib L) a) why)
      (\<lambda>rr' l. \<not> stopped rr' \<longrightarrow> keep = {} \<longrightarrow> all_deleted S (OnTarget a) RSecret l)" for a why
    using safe_remove_from [of ns S "OnTarget a" rr TargetClusterCopy keep "lib_client_of L a" why]
      assms TargetClusterCopy by (simp add: log_simps home_def)
  from TargetClusterCopy show ?thesis
    by (auto simp: remove_secrets_def intro!: safe_deref intro: safe_conseq [OF target])
qed

subsection \<open>Sources\<close>

lemma lasting_was_listed: "lasting (\<lambda>l. was_listed S sd res l nn)"
  by (rule lasting_member) (unfold was_listed_def, meson subsetD)

lemma was_listed_append [simp]: "was_listed S sd res l nn \<Longrightarrow> was_listed S sd res (l @ d) nn"
  by (rule lastingD [OF lasting_was_listed]) auto

lemma safe_delete_sources:
  "safe S (\<lambda>l. \<forall>(k, obj) \<in> set objs. was_listed S OnPlatform (RSource k) l (object_key obj))
     (delete_sources (logged_client OnPlatform cl) objs)
     (\<lambda>res l. res = None \<longrightarrow> (\<forall>(k, obj) \<in> set objs. gone OnPlatform (RSource k) (object_key obj) l))"
proof (induction objs)
  case Nil
  show ?case by (auto simp: safe_on_def)
next
  case (Cons entry objs)
  obtain k obj where entry: "entry = (k, obj)" by (cases entry)
  show ?case unfolding entry
  proof (rule safeI)
    fix w l x w' l'
    assume l: "well_behaved S l"
        "\<forall>(k, obj) \<in> set ((k, obj) # objs). was_listed S OnPlatform (RSource k) l (object_key obj)"
      and run: "delete_sources (logged_client OnPlatform cl) ((k, obj) # objs) (w, l) = (x, w', l')"
    obtain res w1 where res: "api_delete (sources_api cl k) (object_key obj) w = (res, w1)"
      by (cases "api_delete (sources_api cl k) (object_key obj) w")
    let ?l = "l @ [CDelete OnPlatform (RSource k) (object_key obj) res]"
    have logged: "api_delete (sources_api (logged_client OnPlatform cl) k) (object_key obj) (w, l)
        = (res, w1, ?l)" using res by (simp add: log_simps)
    have wb: "well_behaved S ?l" using l by simp
    show "well_behaved S l' \<and> prefix l l' \<and> (\<forall>a. x = Returned a \<longrightarrow> a = None \<longrightarrow>
        (\<forall>(k, obj) \<in> set ((k, obj) # objs). gone OnPlatform (RSource k) (object_key obj) l'))"
    proof (cases "ignore_not_found res")
      case None
      with run logged have "delete_sources (logged_client OnPlatform cl) objs (w1, ?l) = (x, w', l')"
        by simp
      moreover have "\<forall>(k, obj) \<in> set objs. was_listed S OnPlatform (RSource k) ?l (object_key obj)"
        using l(2) by auto
      ultimately have rest: "well_behaved S l'" "prefix ?l l'"
        "\<And>a. x = Returned a \<Longrightarrow> a = None \<longrightarrow>
           (\<forall>(k, obj) \<in> set objs. gone OnPlatform (RSource k) (object_key obj) l')"
        using safeD [OF Cons.IH wb] by blast+
      from rest(2) have "gone OnPlatform (RSource k) (object_key obj) l'"
        by (rule gone_prefix) (rule gone_snoc [OF None])
      moreover have "prefix l l'" using rest(2) by (auto simp: prefix_def)
      ultimately show ?thesis using rest(1,3) by auto
    next
      case (Some e)
      with run logged wb show ?thesis by auto
    qed
  qed
qed

text \<open>The listings and the deletion of what they found.\<close>

lemma safe_list_sources:
  assumes "\<And>items. safe S (\<lambda>l. P l \<and> listed S OnPlatform (RSource k) (map object_key items) l) (f items) Q"
    and "lasting P" and "\<And>rr' l. stopped rr' \<Longrightarrow> Q rr' l" and "ns = home S OnPlatform"
  shows "safe S P (list_sources (logged r) ns (scope_labels S) rr k f) Q"
proof (rule safeI)
  fix w l x w' l'
  assume l: "well_behaved S l" "P l"
    and run: "list_sources (logged r) ns (scope_labels S) rr k f (w, l) = (x, w', l')"
  obtain ans w1 where ans:
      "api_list (sources_api (platform r) k) ns (map_of (scope_labels S)) w = (ans, w1)"
    by (cases "api_list (sources_api (platform r) k) ns (map_of (scope_labels S)) w")
  let ?l = "l @ [CList OnPlatform (RSource k) ns (map_of (scope_labels S))
              (map_sum id (map object_key) ans)]"
  have wb: "well_behaved S ?l" using l assms(4) by simp
  have P: "P ?l" by (rule lastingD [OF assms(2) _ l(2)]) simp
  have logged: "api_list (sources_api (platform (logged r)) k) ns (map_of (scope_labels S)) (w, l)
      = (ans, w1, ?l)" using ans by (simp add: log_simps)
  show "well_behaved S l' \<and> prefix l l' \<and> (\<forall>a. x = Returned a \<longrightarrow> Q a l')"
  proof (cases ans)
    case (Inl e)
    with run logged wb assms(3) show ?thesis by (auto simp: list_sources_def)
  next
    case (Inr items)
    with run logged have "f items (w1, ?l) = (x, w', l')" by (simp add: list_sources_def)
    from safeD [OF assms(1) wb _ this] P Inr assms(4) show ?thesis
      by (auto simp: listed_def prefix_def)
  qed
qed

definition sources_listed ::
  "scope \<Rightarrow> flux_source list \<Rightarrow> flux_source list \<Rightarrow> flux_source list \<Rightarrow> call list \<Rightarrow> bool" where
  "sources_listed S helm git oci l \<longleftrightarrow>
     listed S OnPlatform (RSource HelmRepository) (map object_key helm) l \<and>
     listed S OnPlatform (RSource GitRepository) (map object_key git) l \<and>
     listed S OnPlatform (RSource OCIRepository) (map object_key oci) l"

lemma lasting_sources_listed [intro]: "lasting (sources_listed S helm git oci)"
  unfolding sources_listed_def by (intro lasting_conj lasting_listed)

lemma safe_with_existing_sources:
  assumes f: "\<And>helm git oci. safe S (\<lambda>l. P l \<and> sources_listed S helm git oci l) (f helm git oci) Q"
    and P: "lasting P" and Q: "\<And>rr' l. stopped rr' \<Longrightarrow> Q rr' l" and ns: "ns = home S OnPlatform"
  shows "safe S P (with_existing_sources (logged r) ns (scope_labels S) rr f) Q"
proof -
  note helm = lasting_conj [OF P lasting_listed [of S OnPlatform "RSource HelmRepository"]]
  note git = lasting_conj [OF helm lasting_listed [of S OnPlatform "RSource GitRepository"]]
  show ?thesis
  unfolding with_existing_sources_def
proof (rule safe_list_sources [OF _ P Q ns], rule safe_list_sources [OF _ helm Q ns],
    rule safe_list_sources [OF _ git Q ns])
  fix helm git oci
  show "safe S (\<lambda>l. ((P l \<and> listed S OnPlatform (RSource HelmRepository) (map object_key helm) l) \<and>
      listed S OnPlatform (RSource GitRepository) (map object_key git) l) \<and>
      listed S OnPlatform (RSource OCIRepository) (map object_key oci) l) (f helm git oci) Q"
    by (rule safe_pre [OF f]) (auto simp: sources_listed_def)
qed
qed

lemma safe_finish_sources:
  "safe S (\<lambda>l. \<forall>(k, obj) \<in> set objs. was_listed S OnPlatform (RSource k) l (object_key obj))
     (finish_sources (logged_client OnPlatform cl) objs rr msg)
     (\<lambda>rr' l. \<not> stopped rr' \<longrightarrow> (\<forall>(k, obj) \<in> set objs. gone OnPlatform (RSource k) (object_key obj) l))"
  unfolding finish_sources_def
  by (rule safe_bind [OF safe_delete_sources]) (auto intro!: safe_return split: option.split)

lemma project_sources: "project_law L \<Longrightarrow> lib_project_sources L f xs = map f xs"
  by (simp add: project_law_def)

lemma obsolete_listed:
  assumes "project_law L" and "sources_listed S helm git oci l"
  shows "\<forall>(k', obj) \<in> set (obsolete_sources L k name helm git oci).
           was_listed S OnPlatform (RSource k') l (object_key obj)"
  using assms
  by (cases k)
     (auto simp: obsolete_sources_def others_of_kind_def project_sources sources_listed_def
       intro: was_listedI)

definition source_ready :: "scope \<Rightarrow> call list \<Rightarrow> bool" where
  "source_ready S l \<longleftrightarrow> (\<exists>nn. resource_key S nn \<and> source_written nn l)"

lemma lasting_source_ready [intro]: "lasting (source_ready S)"
  by (rule lasting_member) (unfold source_ready_def source_written_def, meson subsetD)

text \<open>What the phases need to know of the Cluster they work for.\<close>

definition serves :: "scope \<Rightarrow> 'w lib \<Rightarrow> cluster \<Rightarrow> bool" where
  "serves S L c \<longleftrightarrow> object_key c = scope_key S \<and>
     cluster_based_resource_name L (meta_name c) = scope_resource_name S"

lemma servesD:
  "serves S L c \<Longrightarrow> meta_namespace c = home S OnPlatform"
  "serves S L c \<Longrightarrow> cluster_based_resource_name L (meta_name c) = Returned n \<Longrightarrow>
     resource_key S \<lparr>nn_namespace = meta_namespace c, nn_name = n\<rparr>"
  unfolding serves_def home_def resource_key_def
  by (simp, metis object_key_simps(1)) (simp, metis object_key_simps(1))

lemma safe_write_source:
  assumes key: "resource_key S \<lparr>nn_namespace = meta_namespace c, nn_name = name\<rparr>"
  shows "safe S (\<lambda>l. finalizer_set S l \<and>
       (\<forall>(k, obj) \<in> set obsolete. was_listed S OnPlatform (RSource k) l (object_key obj)))
     (write_source L (logged r) c expected rr k spec name obsolete)
     (\<lambda>rr' l. \<not> stopped rr' \<longrightarrow> source_ready S l)"
proof (rule safeI)
  fix w l x w' l'
  assume l: "well_behaved S l" "finalizer_set S l \<and>
       (\<forall>(k, obj) \<in> set obsolete. was_listed S OnPlatform (RSource k) l (object_key obj))"
    and run: "write_source L (logged r) c expected rr k spec name obsolete (w, l) = (x, w', l')"
  let ?key = "\<lparr>nn_namespace = meta_namespace c, nn_name = name\<rparr>"
  obtain u w1 where u: "api_upsert (sources_api (platform r) k) (new_source (meta_namespace c) name)
      (source_mutation L c expected spec) w = (u, w1)"
    by (cases "api_upsert (sources_api (platform r) k) (new_source (meta_namespace c) name)
      (source_mutation L c expected spec) w")
  let ?l = "l @ [CUpsert OnPlatform (RSource k) ?key (map_outcome (map_sum id object_key) u)]"
  have logged: "api_upsert (sources_api (platform (logged r)) k) (new_source (meta_namespace c) name)
      (source_mutation L c expected spec) (w, l) = (u, w1, ?l)"
    using u by (simp add: log_simps)
  have wb: "well_behaved S ?l" using l key by simp
  show "well_behaved S l' \<and> prefix l l' \<and>
      (\<forall>a. x = Returned a \<longrightarrow> \<not> stopped a \<longrightarrow> source_ready S l')"
  proof (cases "\<exists>obj. u = Returned (Inr obj)")
    case True
    then obtain obj where obj: "u = Returned (Inr obj)" ..
    with run logged have fin: "finish_sources (logged_client OnPlatform (platform r)) obsolete rr
        (WroteSource k) (w1, ?l) = (x, w', l')"
      by (simp add: write_source_def logged_simps)
    have "\<forall>(k, obj) \<in> set obsolete. was_listed S OnPlatform (RSource k) ?l (object_key obj)"
      using l(2) by auto
    note rest = safeD(1,2) [OF safe_finish_sources wb this fin]
    have "source_ready S ?l" using obj key by (auto simp: source_ready_def source_written_def)
    with rest have "source_ready S l'" by (blast intro: lastingD [OF lasting_source_ready])
    moreover have "prefix l l'" using rest(2) by (auto simp: prefix_def)
    ultimately show ?thesis using rest(1) by blast
  next
    case False
    with run logged wb show ?thesis
      by (auto simp: write_source_def split: outcome.splits sum.splits)
  qed
qed

lemma safe_deploy_helm_chart_source:
  assumes "project_law L" and "serves S L c"
  shows "safe S (finalizer_set S)
     (deploy_helm_chart_source (logged_lib L) (logged r) c (scope_labels S) rr)
     (\<lambda>rr' l. \<not> stopped rr' \<longrightarrow> source_ready S l)"
  unfolding deploy_helm_chart_source_def logged_constants
proof (rule safe_bind [OF safe_of_outcome])
  fix name
  show "safe S (\<lambda>l. finalizer_set S l \<and> cluster_based_resource_name L (meta_name c) = Returned name)
     (with_existing_sources (logged r) (meta_namespace c) (scope_labels S) rr (\<lambda>helm git oci.
        deref (rr_provider_config rr) (\<lambda>pc.
          case configured_source (spec_source (service_spec pc)) of
            None \<Rightarrow> return_st (fail rr NoSourceConfigured ConfigurationProblem)
          | Some (k, spec) \<Rightarrow>
              write_source (logged_lib L) (logged r) c (scope_labels S) (rr\<lparr>rr_source_kind := Some k\<rparr>)
                k spec name (obsolete_sources (logged_lib L) k name helm git oci))))
     (\<lambda>rr' l. \<not> stopped rr' \<longrightarrow> source_ready S l)"
  proof (rule safe_with_existing_sources)
    fix helm git oci
    have law: "project_law (logged_lib L)"
      using assms(1) by (simp add: project_law_def logged_lib_def)
    have written: "safe S (\<lambda>l. finalizer_set S l \<and>
          cluster_based_resource_name L (meta_name c) = Returned name \<and> sources_listed S helm git oci l)
        (write_source (logged_lib L) (logged r) c (scope_labels S) rr' k spec name
          (obsolete_sources (logged_lib L) k name helm git oci))
        (\<lambda>rr' l. \<not> stopped rr' \<longrightarrow> source_ready S l)" for rr' k spec
    proof (cases "cluster_based_resource_name L (meta_name c) = Returned name")
      case True
      show ?thesis
        by (rule safe_pre [OF safe_write_source [OF servesD(2) [OF assms(2) True]]])
           (use obsolete_listed [OF law] in blast)
    qed (simp add: safe_on_def)
    show "safe S (\<lambda>l. (finalizer_set S l \<and>
            cluster_based_resource_name L (meta_name c) = Returned name) \<and>
          sources_listed S helm git oci l)
        (deref (rr_provider_config rr) (\<lambda>pc.
          case configured_source (spec_source (service_spec pc)) of
            None \<Rightarrow> return_st (fail rr NoSourceConfigured ConfigurationProblem)
          | Some (k, spec) \<Rightarrow>
              write_source (logged_lib L) (logged r) c (scope_labels S) (rr\<lparr>rr_source_kind := Some k\<rparr>)
                k spec name (obsolete_sources (logged_lib L) k name helm git oci)))
        (\<lambda>rr' l. \<not> stopped rr' \<longrightarrow> source_ready S l)"
      by (rule safe_deref) (auto intro: safe_return written split: option.split)
  next
    show "lasting (\<lambda>l. finalizer_set S l \<and>
        cluster_based_resource_name L (meta_name c) = Returned name)"
      by (intro lasting_conj lasting_finalizer_set) (simp add: lasting_def)
  qed (use servesD(1) [OF assms(2)] in auto)
qed

lemma safe_undeploy_helm_chart_source:
  assumes "project_law L" and "serves S L c"
  shows "safe S (\<lambda>_. True)
     (undeploy_helm_chart_source (logged_lib L) (logged r) c (scope_labels S) rr)
     (\<lambda>rr' l. \<not> stopped rr' \<longrightarrow> (\<forall>k. all_deleted S OnPlatform (RSource k) l))"
  unfolding undeploy_helm_chart_source_def
proof (rule safe_with_existing_sources)
  fix helm git oci
  let ?objs = "map (with_type_kind HelmRepository) helm @ map (with_type_kind GitRepository) git @
      map (with_type_kind OCIRepository) oci"
  have key: "object_key (snd (with_type_kind k obj)) = object_key obj" "fst (with_type_kind k obj) = k"
    for k obj by (simp_all add: with_type_kind_def object_key_def)
  have finish: "safe S (\<lambda>l. True \<and> sources_listed S helm git oci l)
      (finish_sources (logged_client OnPlatform (platform r)) ?objs rr RemovedSources)
      (\<lambda>rr' l. (\<not> stopped rr' \<longrightarrow>
          (\<forall>(k, obj) \<in> set ?objs. gone OnPlatform (RSource k) (object_key obj) l)) \<and>
         sources_listed S helm git oci l)"
    by (rule safe_conseq [OF safe_frame [OF safe_finish_sources lasting_sources_listed]])
       (auto simp: sources_listed_def key case_prod_beta intro: was_listedI)
  have "safe S (\<lambda>l. True \<and> sources_listed S helm git oci l)
      (finish_sources (logged_client OnPlatform (platform r)) ?objs rr RemovedSources)
      (\<lambda>rr' l. \<not> stopped rr' \<longrightarrow> (\<forall>k. all_deleted S OnPlatform (RSource k) l))"
    by (rule safe_conseq [OF finish])
       (auto simp: all_source_kinds sources_listed_def key case_prod_beta ball_Un
         intro!: all_deletedI)
  moreover have "project_law (logged_lib L)"
    using assms(1) by (simp add: project_law_def logged_lib_def)
  ultimately show "safe S (\<lambda>l. True \<and> sources_listed S helm git oci l)
      (finish_sources (platform (logged r))
         (lib_project_sources (logged_lib L) (with_type_kind HelmRepository) helm @
          lib_project_sources (logged_lib L) (with_type_kind GitRepository) git @
          lib_project_sources (logged_lib L) (with_type_kind OCIRepository) oci) rr RemovedSources)
      (\<lambda>rr' l. \<not> stopped rr' \<longrightarrow> (\<forall>k. all_deleted S OnPlatform (RSource k) l))"
    by (simp add: project_sources log_simps)
qed (use servesD(1) [OF assms(2)] in auto)

subsection \<open>The HelmRelease and its namespace\<close>

lemma resource_key_unique: "resource_key S nn \<Longrightarrow> resource_key S nn' \<Longrightarrow> nn = nn'"
  by (cases nn; cases nn') (auto simp: resource_key_def)

lemma source_ready_written: "source_ready S l \<Longrightarrow> resource_key S nn \<Longrightarrow> source_written nn l"
  unfolding source_ready_def by (blast dest: resource_key_unique)

lemma safe_deploy_helm_release:
  assumes "serves S L c"
  shows "safe S (\<lambda>l. finalizer_set S l \<and> source_ready S l \<and> namespace_ready l)
     (deploy_helm_release (logged_lib L) (logged r) c expected rr) (\<lambda>_ _. True)"
  unfolding deploy_helm_release_def logged_constants
proof (rule safe_bind [OF safe_of_outcome])
  fix name
  show "safe S (\<lambda>l. (finalizer_set S l \<and> source_ready S l \<and> namespace_ready l) \<and>
        cluster_based_resource_name L (meta_name c) = Returned name)
     (\<lambda>w. let hr = new_release (meta_namespace c) name;
           rr = rr\<lparr>rr_related := Some (object_key hr)\<rparr> in
       case api_upsert (releases_api (platform (logged r))) hr
              (release_mutation (logged_lib L) (logged r) c expected rr) w of
         (Panicked p, w') \<Rightarrow> (Panicked p, w')
       | (Returned (Inl e), w') \<Rightarrow>
           (Returned (fail rr (WriteReleaseFailed (object_key hr) e)
              PlatformClusterInteractionProblem), w')
       | (Returned (Inr _), w') \<Rightarrow> (Returned (rr\<lparr>rr_message := WroteRelease\<rparr>), w'))
     (\<lambda>_ _. True)"
    by (rule safeI)
       (auto simp: Let_def log_simps dest: servesD(2) [OF assms] source_ready_written
         split: prod.splits outcome.splits sum.splits)
qed

lemma missing_label_None:
  "range_law L \<Longrightarrow> missing_label (lib_range L w expected) actual = None \<longleftrightarrow> has_labels expected actual"
proof -
  assume "range_law L"
  then have "set (lib_range L w expected) = set expected"
    by (auto simp: range_law_def intro!: set_range_order)
  then show ?thesis by (auto simp: missing_label_def find_None_iff has_labels_iff)
qed

lemma stopped_await [simp]: "stopped (await_release_deletion rr)"
  by (simp add: stopped_def await_release_deletion_def default_requeue_after_def)

lemma safe_undeploy_helm_release:
  assumes "serves S L c" and "range_law L"
  shows "safe S (\<lambda>_. True)
     (undeploy_helm_release (logged_lib L) (logged r) c (scope_labels S) rr)
     (\<lambda>rr' l. \<not> stopped rr' \<longrightarrow> release_gone S l)"
  unfolding undeploy_helm_release_def logged_constants
proof (rule safe_bind [OF safe_of_outcome])
  fix name
  let ?why = PlatformClusterInteractionProblem
  show "safe S (\<lambda>l. True \<and> cluster_based_resource_name L (meta_name c) = Returned name)
     (\<lambda>w. let key = object_key (new_release (meta_namespace c) name);
           rr = rr\<lparr>rr_related := Some key\<rparr>; why = ?why in
       case api_get (releases_api (platform (logged r))) key w of
         (Inl e, w1) \<Rightarrow>
           if e = NotFound then (Returned rr, w1)
           else (Returned (fail rr (GetReleaseFailed key e) why), w1)
       | (Inr hr, w1) \<Rightarrow>
           let rr1 = rr\<lparr>rr_related := Some (object_key hr)\<rparr> in
           if meta_deleting hr then (Returned (await_release_deletion rr1), w1)
           else
             case missing_label (lib_range (logged_lib L) w1 (scope_labels S)) (meta_labels hr) of
               Some (k, v) \<Rightarrow>
                 (Returned (fail rr1 (ReleaseLabelMissing (object_key hr) k v (meta_labels hr k))
                    InternalError), w1)
             | None \<Rightarrow>
                 (case api_delete (releases_api (platform (logged r))) (object_key hr) w1 of
                    (res, w2) \<Rightarrow>
                      (case ignore_not_found res of
                         Some e \<Rightarrow> (Returned (fail rr1 (DeleteReleaseFailed (object_key hr) e) why), w2)
                       | None \<Rightarrow> (Returned (await_release_deletion rr1), w2))))
     (\<lambda>rr' l. \<not> stopped rr' \<longrightarrow> release_gone S l)"
    by (rule safeI)
       (auto simp: Let_def log_simps release_gone_def own_release_def missing_label_None [OF assms(2)]
         dest: servesD(2) [OF assms(1)] split: prod.splits sum.splits if_splits option.splits)
qed

lemma namespace_ready_append [simp]:
  "namespace_ready (l @
     [CGet (OnTarget a) RNamespace \<lparr>nn_namespace = ns, nn_name = target_cluster_namespace\<rparr> (Inr m)])"
  "namespace_ready (l @
     [x, CCreate (OnTarget a) RNamespace \<lparr>nn_namespace = ns, nn_name = target_cluster_namespace\<rparr> None])"
  "namespace_ready (l @
     [x, CCreate (OnTarget a) RNamespace \<lparr>nn_namespace = ns, nn_name = target_cluster_namespace\<rparr>
       (Some AlreadyExists)])"
  unfolding namespace_ready_def
  by (rule exI [of _ a], rule exI [of _ "\<lparr>nn_namespace = ns, nn_name = target_cluster_namespace\<rparr>"],
      simp; blast)+

lemma safe_ensure_target_cluster_namespace:
  "safe S (finalizer_set S)
     (ensure_target_cluster_namespace (logged_lib L) target_cluster_namespace rr)
     (\<lambda>rr' l. \<not> stopped rr' \<longrightarrow> namespace_ready l)"
  unfolding ensure_target_cluster_namespace_def
proof (rule safe_deref, rule safe_deref)
  fix access cl
  assume "lib_client_of (logged_lib L) access = Some cl"
  then obtain cl0 where cl: "cl = logged_client (OnTarget access) cl0" by (auto simp: log_simps)
  show "safe S (finalizer_set S)
      (\<lambda>w. let obj = new_namespace target_cluster_namespace; why = TargetClusterInteractionProblem in
       case api_get (namespaces_api cl) (object_key obj) w of
         (Inr _, w1) \<Rightarrow> (Returned rr, w1)
       | (Inl e, w1) \<Rightarrow>
           if e \<noteq> NotFound
           then (Returned (fail rr (GetNamespaceFailed target_cluster_namespace e) why), w1)
           else
             case api_create (namespaces_api cl) obj w1 of
               (res, w2) \<Rightarrow>
                 (case res of
                    None \<Rightarrow> (Returned (rr\<lparr>rr_message := CreatedNamespace target_cluster_namespace\<rparr>), w2)
                  | Some e \<Rightarrow>
                      if e = AlreadyExists
                      then (Returned (rr\<lparr>rr_message := CreatedNamespace target_cluster_namespace\<rparr>), w2)
                      else (Returned (fail rr (CreateNamespaceFailed target_cluster_namespace e) why), w2)))
      (\<lambda>rr' l. \<not> stopped rr' \<longrightarrow> namespace_ready l)"
    by (rule safeI)
       (auto simp: Let_def log_simps cl
         split: prod.splits sum.splits if_splits option.splits)
qed

subsection \<open>Putting the phases together\<close>

text \<open>
  One phase and the rest of the run, with the facts \<open>I\<close> that earlier phases have established: an
  unfinished run goes on with what this phase has established as well.
\<close>

lemma safe_step:
  assumes m: "safe_on lg S P m (\<lambda>rr l. \<not> stopped rr \<longrightarrow> X l)"
    and P: "\<And>l. I l \<Longrightarrow> P l" and I: "lasting I"
    and f: "\<And>rr. safe_on lg S (\<lambda>l. X l \<and> I l) (f rr) R"
    and R: "\<And>rr l. stopped rr \<Longrightarrow> R rr l"
  shows "safe_on lg S I (chain m f) R"
proof (rule safe_chain)
  show "safe_on lg S I m (\<lambda>rr l. (\<not> stopped rr \<longrightarrow> X l) \<and> I l)"
    by (rule safe_pre [OF safe_frame [OF m I]]) (simp add: P)
next
  fix rr
  assume "\<not> stopped rr"
  then show "safe_on lg S (\<lambda>l. (\<not> stopped rr \<longrightarrow> X l) \<and> I l) (f rr) R"
    by (intro safe_pre [OF f]) simp
qed (use R in blast)

lemma safe_pair_step:
  assumes m: "safe_on lg S P m (\<lambda>_. Q)" and P: "\<And>l. I l \<Longrightarrow> P l" and I: "lasting I"
    and f: "\<And>rr copied. safe_on lg S I (f rr copied) R"
    and R: "\<And>rr l. stopped rr \<Longrightarrow> R rr l"
  shows "safe_on lg S I
     (bind_st m (\<lambda>(rr, copied). if stopped rr then return_st rr else f rr copied)) R"
proof (rule safe_bind)
  show "safe_on lg S I m (\<lambda>_ l. Q l \<and> I l)"
    by (rule safe_pre [OF safe_frame [OF m I]]) (simp add: P)
next
  fix a :: "reconcile_result \<times> 'b"
  show "safe_on lg S (\<lambda>l. Q l \<and> I l)
      (case a of (rr, copied) \<Rightarrow> if stopped rr then return_st rr else f rr copied) R"
    using R by (cases a) (auto intro: safe_return safe_pre [OF f])
qed

lemma safe_silent_step:
  assumes m: "safe_on lg S P m Q" and P: "\<And>l. I l \<Longrightarrow> P l" and I: "lasting I"
    and f: "\<And>rr. safe_on lg S I (f rr) R" and R: "\<And>rr l. stopped rr \<Longrightarrow> R rr l"
  shows "safe_on lg S I (chain m f) R"
proof (rule safe_chain)
  show "safe_on lg S I m (\<lambda>_. I)"
    by (rule safe_conseq [OF safe_frame [OF m I]]) (simp_all add: P)
qed (use f R in blast)+

lemma lasting_const: "lasting (\<lambda>_. b)"
  by (simp add: lasting_def)

lemmas lasting_rules = lasting_conj lasting_finalizer_set lasting_release_gone lasting_all_deleted
  lasting_target_cleaned lasting_logged lasting_const
  lasting_all_sources lasting_access_gone lasting_source_ready lasting_namespace_ready lasting_True

lemma safe_deploy_phases:
  assumes "project_law L" and serves: "serves S L c"
    and ns: "provider_namespace r = scope_provider_namespace S"
  shows "safe S (finalizer_set S)
     (deploy_phases (logged_lib L) (logged r) c (scope_labels S) rr0) (\<lambda>_ _. True)"
  unfolding deploy_phases_def
  apply (rule safe_pair_step [OF safe_copy_secrets [OF ns]])
      apply (simp add: servesD(1) [OF serves])
     apply assumption
    apply (intro lasting_rules)
   apply (rule safe_silent_step [OF safe_remove_secrets])
       apply (simp add: servesD(1) [OF serves])
      apply (rule TrueI)
     apply (intro lasting_rules)
    apply (rule safe_step [OF safe_deploy_helm_chart_source [OF assms(1,2)]])
       apply assumption
      apply (intro lasting_rules)
     apply (rule safe_step [OF safe_ensure_target_cluster_namespace])
        apply (erule conjunct2)
       apply (intro lasting_rules)
      apply (rule safe_pair_step [OF safe_copy_secrets [OF ns]])
          apply simp
         apply simp
        apply (intro lasting_rules)
       apply (rule safe_silent_step [OF safe_remove_secrets])
           apply simp
          apply (rule TrueI)
         apply (intro lasting_rules)
        apply (rule safe_silent_step [OF safe_deploy_helm_release [OF serves]])
           apply simp
          apply (intro lasting_rules)
         apply (rule safe_return)
         apply (rule TrueI)+
  done

text \<open>A call whose answer decides how the run goes on.\<close>

lemma safe_read:
  assumes call: "\<And>y s s'. well_behaved S (lg s) \<Longrightarrow> P (lg s) \<Longrightarrow> call s = (y, s') \<Longrightarrow>
      well_behaved S (lg s') \<and> prefix (lg s) (lg s') \<and> Q y (lg s')"
    and k: "\<And>y. safe_on lg S (Q y) (k y) R"
  shows "safe_on lg S P (\<lambda>s. case call s of (y, s') \<Rightarrow> k y s') R"
proof (rule safe_onI)
  fix s x s'
  assume l: "well_behaved S (lg s)" "P (lg s)" and run: "(case call s of (y, s') \<Rightarrow> k y s') = (x, s')"
  obtain y s1 where y: "call s = (y, s1)" by (cases "call s")
  with run have "k y s1 = (x, s')" by simp
  from safe_onD [where lg = lg, OF k _ _ this] call [OF l y]
  show "well_behaved S (lg s') \<and> prefix (lg s) (lg s') \<and> (\<forall>a. x = Returned a \<longrightarrow> R a (lg s'))"
    by (auto intro: prefix_order.trans)
qed

lemma safe_result: "(\<And>l. P l \<Longrightarrow> Q a l) \<Longrightarrow> safe_on lg S P (\<lambda>s. (Returned a, s)) Q"
  by (auto simp: safe_on_def)

lemma servesD_key: "serves S L c \<Longrightarrow> object_key c = scope_key S"
  by (simp add: serves_def)

lemma safe_if:
  "(b \<Longrightarrow> safe_on lg S P f Q) \<Longrightarrow> (\<not> b \<Longrightarrow> safe_on lg S P g Q) \<Longrightarrow>
   safe_on lg S P (\<lambda>s. if b then f s else g s) Q"
  by (cases b) simp_all

lemma safe_option:
  "safe_on lg S P f Q \<Longrightarrow> (\<And>e. safe_on lg S P (g e) Q) \<Longrightarrow>
   safe_on lg S P (\<lambda>s. case p of None \<Rightarrow> f s | Some e \<Rightarrow> g e s) Q"
  by (cases p) simp_all

text \<open>The three calls that lead to the Cluster, each with what the run does on its answers.\<close>

lemma safe_access_reconcile:
  assumes "serves S L c" and "lasting P" and "\<And>l. P l \<Longrightarrow> finalizer_set S l"
    and "\<And>res. safe S P (k (res, None)) R" and "\<And>res e. safe S P (k (res, Some e)) R"
  shows "safe S P
     (\<lambda>s. case access_reconcile (access_reconciler (logged r)) (object_key c) s of (y, s') \<Rightarrow> k y s') R"
proof (rule safe_read [where Q = "\<lambda>_. P"])
  fix y and s s'
  assume "well_behaved S (snd s)" and "P (snd s)"
    and "access_reconcile (access_reconciler (logged r)) (object_key c) s = (y, s')"
  with servesD_key [OF assms(1)] assms(3)
  show "well_behaved S (snd s') \<and> prefix (snd s) (snd s') \<and> P (snd s')"
    by (cases y; cases s) (auto simp: log_simps intro: lastingD [OF assms(2)])
next
  fix y :: "requeue_result \<times> api_error option"
  show "safe S P (k y) R"
    using assms(4,5) by (cases y; cases "snd y") auto
qed

lemma safe_access_request_seen:
  assumes "serves S L c" and "lasting P"
    and "\<And>ar e. safe S (\<lambda>l. CAccessRequest (scope_key S) ar e \<in> set l \<and> P l) (k (ar, e)) R"
  shows "safe S P
     (\<lambda>s. case access_request_of (access_reconciler (logged r)) (object_key c) s of (y, s') \<Rightarrow> k y s') R"
proof (rule safe_read [where Q = "\<lambda>y l. CAccessRequest (scope_key S) (fst y) (snd y) \<in> set l \<and> P l"])
  fix y and s s'
  assume "well_behaved S (snd s)" and "P (snd s)"
    and "access_request_of (access_reconciler (logged r)) (object_key c) s = (y, s')"
  with servesD_key [OF assms(1)]
  show "well_behaved S (snd s') \<and> prefix (snd s) (snd s') \<and>
      CAccessRequest (scope_key S) (fst y) (snd y) \<in> set (snd s') \<and> P (snd s')"
    by (cases y; cases s) (auto simp: log_simps intro: lastingD [OF assms(2)])
next
  fix y :: "access_request option \<times> api_error option"
  show "safe S (\<lambda>l. CAccessRequest (scope_key S) (fst y) (snd y) \<in> set l \<and> P l) (k y) R"
    using assms(3) by (cases y) auto
qed

lemma safe_access_request:
  assumes "serves S L c" and "lasting P" and "\<And>ar e. safe S P (k (ar, e)) R"
  shows "safe S P
     (\<lambda>s. case access_request_of (access_reconciler (logged r)) (object_key c) s of (y, s') \<Rightarrow> k y s') R"
  by (rule safe_access_request_seen [OF assms(1,2)]) (rule safe_pre [OF assms(3)], simp)

lemma safe_access_cluster_seen:
  assumes "serves S L c" and "lasting P"
    and "\<And>a. safe S (\<lambda>l. CAccess (scope_key S) a None \<in> set l \<and> P l) (k (a, None)) R"
    and "\<And>a e. safe S P (k (a, Some e)) R"
  shows "safe S P
     (\<lambda>s. case access_cluster (access_reconciler (logged r)) (object_key c) s of (y, s') \<Rightarrow> k y s') R"
proof (rule safe_read [where Q = "\<lambda>y l. CAccess (scope_key S) (fst y) (snd y) \<in> set l \<and> P l"])
  fix y and s s'
  assume "well_behaved S (snd s)" and "P (snd s)"
    and "access_cluster (access_reconciler (logged r)) (object_key c) s = (y, s')"
  with servesD_key [OF assms(1)]
  show "well_behaved S (snd s') \<and> prefix (snd s) (snd s') \<and>
      CAccess (scope_key S) (fst y) (snd y) \<in> set (snd s') \<and> P (snd s')"
    by (cases y; cases s) (auto simp: log_simps intro: lastingD [OF assms(2)])
next
  fix y :: "target option \<times> api_error option"
  show "safe S (\<lambda>l. CAccess (scope_key S) (fst y) (snd y) \<in> set l \<and> P l) (k y) R"
    using assms(3) by (cases y; cases "snd y") (auto intro: safe_pre [OF assms(4)])
qed

lemma safe_access_cluster:
  assumes "serves S L c" and "lasting P"
    and "\<And>a. safe S P (k (a, None)) R" and "\<And>a e. safe S P (k (a, Some e)) R"
  shows "safe S P
     (\<lambda>s. case access_cluster (access_reconciler (logged r)) (object_key c) s of (y, s') \<Rightarrow> k y s') R"
proof (rule safe_access_cluster_seen [OF assms(1,2)])
  show "safe S (\<lambda>l. CAccess (scope_key S) a None \<in> set l \<and> P l) (k (a, None)) R" for a
    by (rule safe_pre [OF assms(3)]) simp
qed (rule assms(4))

lemma safe_deploy_with_access:
  assumes "project_law L" and serves: "serves S L c"
    and ns: "provider_namespace r = scope_provider_namespace S"
  shows "safe S (finalizer_set S)
     (deploy_with_access (logged_lib L) (logged r) c (scope_labels S) rr) (\<lambda>_ _. True)"
  unfolding deploy_with_access_def Let_def
  by (rule safe_access_reconcile [OF serves])
     (auto intro!: safe_result safe_if safe_access_request [OF serves] safe_access_cluster [OF serves]
         safe_deploy_phases [OF assms] lasting_finalizer_set)

lemma safe_no_target:
  assumes "\<And>a. ar = Some a \<Longrightarrow> meta_deleting a \<or> \<not> request_granted a"
  shows "safe_on lg S (\<lambda>l. CAccessRequest (scope_key S) ar err \<in> set l \<and> ignore_not_found err = None)
     (\<lambda>s. (Returned rr, s)) (\<lambda>rr' l. \<not> stopped rr' \<longrightarrow> target_cleaned S l)"
  using assms by (intro safe_result) (auto simp: target_cleaned_def)

lemma safe_remove_target_secrets:
  assumes "serves S L c"
  shows "safe S (\<lambda>l. CAccessRequest (scope_key S) ar err \<in> set l \<and> ignore_not_found err = None)
     (remove_target_secrets (logged_lib L) (logged r) c (scope_labels S) ar rr)
     (\<lambda>rr' l. \<not> stopped rr' \<longrightarrow> target_cleaned S l)"
proof -
  let ?asked = "\<lambda>l. CAccessRequest (scope_key S) ar err \<in> set l \<and> ignore_not_found err = None"
  let ?Q = "\<lambda>rr' l. \<not> stopped rr' \<longrightarrow> target_cleaned S l"
  have asked: "lasting ?asked" by (intro lasting_conj lasting_logged) (simp add: lasting_def)
  have remove: "safe S (\<lambda>l. CAccess (scope_key S) a None \<in> set l \<and> ?asked l)
      (remove_secrets (logged_lib L) (logged r) target_cluster_namespace (scope_labels S) (rr\<lparr>rr_access := a\<rparr>)
         TargetClusterCopy {}) ?Q" for a
  proof (rule safe_conseq [OF safe_frame [OF safe_remove_secrets]])
    show "lasting (\<lambda>l. CAccess (scope_key S) a None \<in> set l \<and> ?asked l)"
      by (intro lasting_conj [OF lasting_logged asked])
  qed (auto simp: target_cleaned_def)
  show ?thesis
  proof (cases ar)
    case None
    then have run: "remove_target_secrets (logged_lib L) (logged r) c (scope_labels S) ar rr = (\<lambda>s. (Returned rr, s))"
      by (simp add: remove_target_secrets_def fun_eq_iff)
    show ?thesis unfolding run by (rule safe_no_target) (simp add: None)
  next
    case (Some a)
    show ?thesis
    proof (cases "\<not> meta_deleting a \<and> request_granted a")
      case True
      then have run: "remove_target_secrets (logged_lib L) (logged r) c (scope_labels S) ar rr =
          (\<lambda>w. case access_cluster (access_reconciler (logged r)) (object_key c) w of (y, w1) \<Rightarrow>
             (case y of
                (access, Some e) \<Rightarrow> (Returned (fail rr (AccessFailed e) InternalError), w1)
              | (access, None) \<Rightarrow>
                  remove_secrets (logged_lib L) (logged r) target_cluster_namespace (scope_labels S)
                    (rr\<lparr>rr_access := access\<rparr>) TargetClusterCopy {} w1))"
        by (auto simp: remove_target_secrets_def Some fun_eq_iff split: prod.split)
      show ?thesis
        unfolding run by (rule safe_access_cluster_seen [OF assms asked]) (simp_all add: remove safe_result)
    next
      case False
      with Some have run: "remove_target_secrets (logged_lib L) (logged r) c (scope_labels S) ar rr = (\<lambda>s. (Returned rr, s))"
        by (auto simp: remove_target_secrets_def fun_eq_iff)
      show ?thesis unfolding run by (rule safe_no_target) (use Some False in auto)
    qed
  qed
qed

lemma access_gone_snoc: "d \<le> 0 \<Longrightarrow> access_gone S (l @ [CAccessDelete (scope_key S) d None])"
  unfolding access_gone_def by (rule exI [of _ d]) simp

lemma stopped_requeue: "requeue_after res > 0 \<Longrightarrow> stopped (rr\<lparr>rr_result := res\<rparr>)"
  by (simp add: stopped_def)

lemma safe_delete_access:
  assumes "serves S L c"
  shows "safe S (\<lambda>l. release_gone S l \<and> (\<forall>k. all_deleted S OnPlatform (RSource k) l) \<and>
       all_deleted S OnPlatform RSecret l \<and> target_cleaned S l)
     (delete_access (logged r) c rr) (\<lambda>rr' l. \<not> stopped rr' \<longrightarrow> access_gone S l)"
proof (rule safeI)
  fix w l x w' l'
  assume "well_behaved S l" and "release_gone S l \<and> (\<forall>k. all_deleted S OnPlatform (RSource k) l) \<and>
       all_deleted S OnPlatform RSecret l \<and> target_cleaned S l"
    and "delete_access (logged r) c rr (w, l) = (x, w', l')"
  with servesD_key [OF assms]
  show "well_behaved S l' \<and> prefix l l' \<and> (\<forall>a. x = Returned a \<longrightarrow> \<not> stopped a \<longrightarrow> access_gone S l')"
    by (auto simp: delete_access_def log_simps stopped_requeue access_gone_snoc
        split: prod.splits option.splits if_splits)
qed

lemma safe_cleanup_phases:
  assumes "project_law L" and serves: "serves S L c"
  shows "safe S (\<lambda>l. release_gone S l \<and> CAccessRequest (scope_key S) ar err \<in> set l \<and> ignore_not_found err = None)
     (cleanup_phases (logged_lib L) (logged r) c (scope_labels S) ar rr)
     (\<lambda>rr' l. \<not> stopped rr' \<longrightarrow> torn_down S l)"
proof -
  have gone: "safe S (\<lambda>l. all_deleted S OnPlatform RSecret l \<and>
        (\<forall>k. all_deleted S OnPlatform (RSource k) l) \<and> target_cleaned S l \<and>
        release_gone S l \<and> CAccessRequest (scope_key S) ar err \<in> set l \<and> ignore_not_found err = None)
      (delete_access (logged r) c rr) (\<lambda>rr' l. \<not> stopped rr' \<longrightarrow> torn_down S l)" for rr
    by (rule safe_conseq [OF safe_frame [OF safe_delete_access [OF serves]],
          where I1 = "\<lambda>l. all_deleted S OnPlatform RSecret l \<and>
            (\<forall>k. all_deleted S OnPlatform (RSource k) l) \<and> target_cleaned S l \<and> release_gone S l"])
       (intro lasting_rules, auto simp: torn_down_def)
  have secrets: "safe S (\<lambda>_. True)
      (remove_secrets (logged_lib L) (logged r) (meta_namespace c) (scope_labels S) rr
         PlatformClusterCopy {})
      (\<lambda>rr' l. \<not> stopped rr' \<longrightarrow> all_deleted S OnPlatform RSecret l)" for rr
    by (rule safe_conseq [OF safe_remove_secrets]) (simp_all add: servesD(1) [OF serves])
  show ?thesis
    unfolding cleanup_phases_def
    apply (rule safe_step [OF safe_remove_target_secrets [OF serves]])
       apply (erule conjunct2)
      apply (intro lasting_rules)
     apply (rule safe_step [OF safe_undeploy_helm_chart_source [OF assms]])
        apply (rule TrueI)
       apply (intro lasting_rules)
      apply (rule safe_step [OF secrets])
         apply (rule TrueI)
        apply (intro lasting_rules)
       apply (rule gone)
      apply simp_all
    done
qed

lemma safe_cleanup_with_access:
  assumes "project_law L" and serves: "serves S L c"
  shows "safe S (\<lambda>l. finalizer_set S l \<and> release_gone S l)
     (cleanup_with_access (logged_lib L) (logged r) c (scope_labels S) rr)
     (\<lambda>rr' l. \<not> stopped rr' \<longrightarrow> torn_down S l)"
proof -
  let ?P = "\<lambda>l. finalizer_set S l \<and> release_gone S l"
  have cleanup: "safe S (\<lambda>l. CAccessRequest (scope_key S) ar err \<in> set l \<and> ?P l)
      (\<lambda>w. case ignore_not_found err of
         Some e \<Rightarrow> (Returned (fail rr (AccessRequestFailed e) InternalError), w)
       | None \<Rightarrow> cleanup_phases (logged_lib L) (logged r) c (scope_labels S) ar rr w)
      (\<lambda>rr' l. \<not> stopped rr' \<longrightarrow> torn_down S l)" for ar err
    by (cases "ignore_not_found err")
       (auto intro!: safe_result intro: safe_pre [OF safe_cleanup_phases [OF assms, where err = err]])
  show ?thesis
    unfolding cleanup_with_access_def Let_def
    by (rule safe_access_reconcile [OF serves])
       (auto intro!: safe_result safe_if safe_access_request_seen [OF serves] lasting_rules
          cleanup simp: stopped_requeue)
qed

subsection \<open>The controller\<close>

text \<open>The documented behaviour a run relies on.\<close>

definition run_laws :: "'w lib \<Rightarrow> 'w reconciler \<Rightarrow> bool" where
  "run_laws L r \<longleftrightarrow> range_law L \<and> project_law L \<and> finalizer_law L \<and> patch_law r \<and> annotation_law L"

definition matches_run :: "scope \<Rightarrow> 'w lib \<Rightarrow> 'w reconciler \<Rightarrow> bool" where
  "matches_run S L r \<longleftrightarrow> provider_namespace r = scope_provider_namespace S \<and>
     cluster_finalizer L = scope_finalizer S \<and> lib_operation_annotation L = scope_annotation S"

lemma serves_same_key: "serves S L c \<Longrightarrow> object_key c' = object_key c \<Longrightarrow> serves S L c'"
  unfolding serves_def by (metis object_key_simps(2))

lemma safe_create_after_finalizer:
  assumes "project_law L" and "serves S L c" and "provider_namespace r = scope_provider_namespace S"
  shows "safe_on log_of S (finalizer_set S)
     (create_after_finalizer (logged_lib L) (logged r) c (scope_labels S) rr) (\<lambda>_ _. True)"
proof (rule safe_onI)
  fix s s' :: "('a \<times> call list) controller_state" and x
  assume l: "well_behaved S (log_of s)" "finalizer_set S (log_of s)"
    and run: "create_after_finalizer (logged_lib L) (logged r) c (scope_labels S) rr s = (x, s')"
  let ?s = "s\<lparr>known_clusters := add_known_cluster c (known_clusters s)\<rparr>"
  from run have "on_world (deploy_with_access (logged_lib L) (logged r) c (scope_labels S) rr) ?s = (x, s')"
    by (simp add: create_after_finalizer_def)
  from safe_onD [where lg = log_of, OF safe_on_world [OF safe_deploy_with_access [OF assms]] _ _ this] l
  show "well_behaved S (log_of s') \<and> prefix (log_of s) (log_of s') \<and> (\<forall>a. x = Returned a \<longrightarrow> True)"
    by simp
qed

lemma finalizer_set_patched:
  "CPatch OnPlatform RCluster nn fins None \<in> set l \<Longrightarrow> scope_finalizer S \<in> set fins \<Longrightarrow>
   finalizer_set S l"
  by (auto simp: finalizer_set_def)

lemma finalizer_set_reported:
  "CRemoveAnnotation k nn (Inr fins) \<in> set l \<Longrightarrow> scope_finalizer S \<in> set fins \<Longrightarrow> finalizer_set S l"
  by (auto simp: finalizer_set_def)

lemma safe_handle_create_or_update:
  assumes laws: "run_laws L r" and serves: "serves S L c" and S: "matches_run S L r"
  shows "safe_on log_of S (\<lambda>l. scope_finalizer S \<in> set (meta_finalizers c) \<longrightarrow> finalizer_set S l)
     (handle_create_or_update (logged_lib L) (logged r) c (scope_labels S) rr) (\<lambda>_ _. True)"
proof (rule safe_onI)
  fix s s' :: "('a \<times> call list) controller_state" and x
  let ?fin = "cluster_finalizer L" and ?L = "logged_lib L" and ?r = "logged r" and ?ls = "scope_labels S"
  assume l: "well_behaved S (log_of s)"
      "scope_finalizer S \<in> set (meta_finalizers c) \<longrightarrow> finalizer_set S (log_of s)"
    and run: "handle_create_or_update ?L ?r c ?ls rr s = (x, s')"
  have L: "project_law L" "finalizer_law L" "patch_law r" using laws by (auto simp: run_laws_def)
  have ns: "provider_namespace r = scope_provider_namespace S" and fin: "scope_finalizer S = ?fin"
    using S by (auto simp: matches_run_def)
  have add: "lib_add_finalizer ?L ?fin (meta_finalizers c) =
      (if ?fin \<in> set (meta_finalizers c) then (False, meta_finalizers c)
       else (True, meta_finalizers c @ [?fin]))"
    using L(2) by (simp add: finalizer_law_def logged_lib_def)
  show "well_behaved S (log_of s') \<and> prefix (log_of s) (log_of s') \<and> (\<forall>a. x = Returned a \<longrightarrow> True)"
  proof (cases "?fin \<in> set (meta_finalizers c)")
    case True
    with run add have "create_after_finalizer ?L ?r c ?ls rr s = (x, s')"
      by (simp add: handle_create_or_update_def)
    from safe_onD [where lg = log_of, OF safe_create_after_finalizer [OF L(1) serves ns] l(1) _ this]
      l(2) True fin show ?thesis by auto
  next
    case False
    let ?c = "c\<lparr>meta_finalizers := meta_finalizers c @ [?fin]\<rparr>"
    obtain w l0 where s: "world s = (w, l0)" by (cases "world s")
    obtain ans w1 where ans: "api_patch (clusters_api (platform r)) c ?c w = (ans, w1)"
      by (cases "api_patch (clusters_api (platform r)) c ?c w")
    let ?l = "l0 @ [CPatch OnPlatform RCluster (scope_key S) (meta_finalizers ?c) (error_of ans)]"
    have logged: "api_patch (clusters_api (platform ?r)) c ?c (world s) = (ans, w1, ?l)"
      using ans s servesD_key [OF serves] by (simp add: log_simps)
    have wb: "well_behaved S ?l" using l(1) s fin by simp
    show ?thesis
    proof (cases ans)
      case (Inl e)
      with run add False logged wb s show ?thesis
        by (auto simp: handle_create_or_update_def)
    next
      case (Inr c2)
      with run add False logged
      have go: "create_after_finalizer ?L ?r c2 ?ls rr (s\<lparr>world := (w1, ?l)\<rparr>) = (x, s')"
        by (simp add: handle_create_or_update_def)
      have "object_key c2 = object_key c"
        using patch_lawD [OF L(3) ans [unfolded Inr]] by simp
      then have c2: "serves S L c2" by (rule serves_same_key [OF serves])
      have "finalizer_set S ?l"
        by (rule finalizer_set_patched [of "scope_key S" "meta_finalizers ?c"]) (use Inr fin in auto)
      with safe_onD [where lg = log_of, OF safe_create_after_finalizer [OF L(1) c2 ns] _ _ go] wb s
      show ?thesis by (auto simp: prefix_def)
    qed
  qed
qed

lemma safe_release_cluster:
  assumes laws: "run_laws L r" and serves: "serves S L c"
  shows "safe_on log_of S (torn_down S) (release_cluster (logged_lib L) (logged r) c rr) (\<lambda>_ _. True)"
proof (rule safe_onI)
  fix s s' :: "('a \<times> call list) controller_state" and x
  assume l: "well_behaved S (log_of s)" "torn_down S (log_of s)"
    and run: "release_cluster (logged_lib L) (logged r) c rr s = (x, s')"
  obtain changed fins where rem:
      "lib_remove_finalizer (logged_lib L) (cluster_finalizer L) (meta_finalizers c) = (changed, fins)"
    by (cases "lib_remove_finalizer (logged_lib L) (cluster_finalizer L) (meta_finalizers c)")
  obtain w l0 where s: "world s = (w, l0)" by (cases "world s")
  let ?c = "c\<lparr>meta_finalizers := fins\<rparr>"
  obtain ans w1 where ans: "api_patch (clusters_api (platform r)) c ?c w = (ans, w1)"
    by (cases "api_patch (clusters_api (platform r)) c ?c w")
  let ?l = "l0 @ [CPatch OnPlatform RCluster (scope_key S) fins (error_of ans)]"
  have logged: "api_patch (clusters_api (platform (logged r))) c ?c (world s) = (ans, w1, ?l)"
    using ans s servesD_key [OF serves] by (simp add: log_simps)
  have wb: "well_behaved S ?l" using l s by simp
  show "well_behaved S (log_of s') \<and> prefix (log_of s) (log_of s') \<and> (\<forall>a. x = Returned a \<longrightarrow> True)"
    using run rem logged wb s l
    by (auto simp: release_cluster_def Let_def split: if_splits sum.splits)
qed

lemma safe_handle_delete:
  assumes laws: "run_laws L r" and serves: "serves S L c" and S: "matches_run S L r"
  shows "safe_on log_of S (\<lambda>l. scope_finalizer S \<in> set (meta_finalizers c) \<longrightarrow> finalizer_set S l)
     (handle_delete (logged_lib L) (logged r) c (scope_labels S) rr) (\<lambda>_ _. True)"
proof -
  have L: "project_law L" "range_law L" using laws by (auto simp: run_laws_def)
  have cleanup: "safe_on log_of S (finalizer_set S)
      (chain (on_world (undeploy_helm_release (logged_lib L) (logged r) c (scope_labels S) rr)) (\<lambda>rr.
       chain (on_world (cleanup_with_access (logged_lib L) (logged r) c (scope_labels S) rr)) (\<lambda>rr.
       release_cluster (logged_lib L) (logged r) c rr))) (\<lambda>_ _. True)"
    apply (rule safe_step [OF safe_on_world [OF safe_undeploy_helm_release [OF serves L(2)]]])
       apply (rule TrueI)
      apply (intro lasting_rules)
     apply (rule safe_step [OF safe_on_world [OF safe_cleanup_with_access [OF L(1) serves]]])
        apply simp
       apply (intro lasting_rules)
      apply (rule safe_pre [OF safe_release_cluster [OF laws serves]])
      apply simp_all
    done
  show ?thesis
  proof (cases "scope_finalizer S \<in> set (meta_finalizers c)")
    case True
    with S have "cluster_finalizer L \<in> set (meta_finalizers c)" by (simp add: matches_run_def)
    then have "handle_delete (logged_lib L) (logged r) c (scope_labels S) rr =
        chain (on_world (undeploy_helm_release (logged_lib L) (logged r) c (scope_labels S) rr)) (\<lambda>rr.
        chain (on_world (cleanup_with_access (logged_lib L) (logged r) c (scope_labels S) rr)) (\<lambda>rr.
        release_cluster (logged_lib L) (logged r) c rr))"
      by (simp add: handle_delete_def fun_eq_iff)
    then show ?thesis using safe_pre [OF cleanup] True by simp
  next
    case False
    with S show ?thesis by (auto simp: handle_delete_def safe_on_def matches_run_def)
  qed
qed

text \<open>The scope of a run for a Cluster, and the log it leaves.\<close>

definition run_scope :: "'w lib \<Rightarrow> 'w reconciler \<Rightarrow> cluster \<Rightarrow> scope" where
  "run_scope L r c =
     \<lparr>scope_key = object_key c,
      scope_labels = expected_labels L r (meta_name c),
      scope_provider_namespace = provider_namespace r,
      scope_resource_name = cluster_based_resource_name L (meta_name c),
      scope_finalizer = cluster_finalizer L,
      scope_annotation = lib_operation_annotation L,
      scope_has_finalizer = (cluster_finalizer L \<in> set (meta_finalizers c))\<rparr>"

lemma run_scope_matches [simp]: "matches_run (run_scope L r c) L r"
  by (simp add: matches_run_def run_scope_def)

lemma run_scope_serves [simp]: "serves (run_scope L r c) L c"
  by (simp add: serves_def run_scope_def)

lemma run_scope_simps [simp]:
  "scope_finalizer (run_scope L r c) = cluster_finalizer L"
  "scope_labels (run_scope L r c) = expected_labels L r (meta_name c)"
  "scope_key (run_scope L r c) = object_key c"
  "scope_annotation (run_scope L r c) = lib_operation_annotation L"
  "scope_provider_namespace (run_scope L r c) = provider_namespace r"
  "scope_resource_name (run_scope L r c) = cluster_based_resource_name L (meta_name c)"
  "scope_has_finalizer (run_scope L r c) \<longleftrightarrow> cluster_finalizer L \<in> set (meta_finalizers c)"
  by (simp_all add: run_scope_def)

lemma safe_reconcile_configured:
  assumes "run_laws L r" and "serves S L c" and "matches_run S L r"
  shows "safe_on log_of S (\<lambda>l. scope_finalizer S \<in> set (meta_finalizers c) \<longrightarrow> finalizer_set S l)
     (reconcile_configured (logged_lib L) (logged r) c (scope_labels S) rr config) (\<lambda>_ _. True)"
  unfolding reconcile_configured_def Let_def
  using safe_handle_create_or_update [OF assms] safe_handle_delete [OF assms] by simp

lemma safe_reconcile_loaded:
  assumes laws: "run_laws L r" and serves: "serves S L c" and S: "matches_run S L r"
    and labels: "expected_labels L r (meta_name c) = scope_labels S"
  shows "safe_on log_of S (\<lambda>l. scope_finalizer S \<in> set (meta_finalizers c) \<longrightarrow> finalizer_set S l)
     (reconcile_loaded (logged_lib L) (logged r) c) (\<lambda>_ _. True)"
proof (rule safe_onI)
  fix s s' :: "('a \<times> call list) controller_state" and x
  let ?P = "\<lambda>l. scope_finalizer S \<in> set (meta_finalizers c) \<longrightarrow> finalizer_set S l"
  let ?key = "\<lparr>nn_namespace = [], nn_name = provider_name r\<rparr>"
  assume l: "well_behaved S (log_of s)" "?P (log_of s)"
    and run: "reconcile_loaded (logged_lib L) (logged r) c s = (x, s')"
  obtain w l0 where s: "world s = (w, l0)" by (cases "world s")
  obtain cfg w1 where cfg: "api_get (configs_api (platform r)) ?key w = (cfg, w1)"
    by (cases "api_get (configs_api (platform r)) ?key w")
  let ?l1 = "l0 @ [CGet OnPlatform RConfig ?key (map_sum id object_meta.truncate cfg)]"
  have logged1: "api_get (configs_api (platform (logged r))) ?key (world s) = (cfg, w1, ?l1)"
    using cfg s by (simp add: log_simps)
  obtain svc w2 where svc: "api_get (services_api (platform r)) ?key w1 = (svc, w2)"
    by (cases "api_get (services_api (platform r)) ?key w1")
  let ?l2 = "?l1 @ [CGet OnPlatform RService ?key (map_sum id object_meta.truncate svc)]"
  have logged2: "api_get (services_api (platform (logged r))) ?key (w1, ?l1) = (svc, w2, ?l2)"
    using svc by (simp add: log_simps)
  have wb: "well_behaved S ?l1" "well_behaved S ?l2" using l(1) s by simp_all
  show "well_behaved S (log_of s') \<and> prefix (log_of s) (log_of s') \<and> (\<forall>a. x = Returned a \<longrightarrow> True)"
  proof (cases "\<exists>config svc'. cfg = Inr config \<and> svc = Inr svc'")
    case True
    then obtain config svc' where "cfg = Inr config" "svc = Inr svc'" by blast
    with run logged1 logged2 labels
    have go: "reconcile_configured (logged_lib L) (logged r) c (scope_labels S)
        (empty_result\<lparr>rr_provider_config := Some config, rr_platform_service := Some svc'\<rparr>) config
        (s\<lparr>world := (w2, ?l2)\<rparr>) = (x, s')"
      by (simp add: reconcile_loaded_def Let_def)
    have "?P ?l2" using l(2) s by (auto simp del: append_assoc)
    with safe_onD [where lg = log_of, OF safe_reconcile_configured [OF laws serves S] _ _ go] wb s
    show ?thesis by (auto simp: prefix_def)
  next
    case False
    with run logged1 logged2 wb s show ?thesis
      by (auto simp: reconcile_loaded_def Let_def split: sum.splits)
  qed
qed

lemma safe_reconcile_cluster:
  assumes laws: "run_laws L r"
  shows "safe_on log_of (run_scope L r c) (\<lambda>_. True)
     (reconcile_cluster (logged_lib L) (logged r) c) (\<lambda>_ _. True)"
proof (rule safe_onI)
  let ?S = "run_scope L r c" and ?L = "logged_lib L" and ?r = "logged r"
  let ?k = "lib_operation_annotation L"
  fix s s' :: "('a \<times> call list) controller_state" and x
  assume l: "well_behaved ?S (log_of s)" and run: "reconcile_cluster ?L ?r c s = (x, s')"
  let ?goal = "well_behaved ?S (log_of s') \<and> prefix (log_of s) (log_of s')"
  have loaded: ?goal if go: "reconcile_loaded ?L ?r c s = (x, s')"
  proof -
    have "cluster_finalizer L \<in> set (meta_finalizers c) \<longrightarrow> finalizer_set ?S (log_of s)"
      by (simp add: finalizer_set_def)
    with safe_onD [where lg = log_of,
        OF safe_reconcile_loaded [OF laws run_scope_serves run_scope_matches] _ _ go] l
    show ?thesis by simp
  qed
  have removed: ?goal if op: "requested_operation ?L c = Some (lib_operation_reconcile ?L)"
    "requested_operation ?L c \<noteq> Some (lib_operation_ignore ?L)"
  proof -
    obtain w l0 where s: "world s = (w, l0)" by (cases "world s")
    obtain ans w1 where ans: "lib_remove_annotation L ?k c w = (ans, w1)"
      by (cases "lib_remove_annotation L ?k c w")
    let ?l = "l0 @ [CRemoveAnnotation ?k (object_key c) (map_sum id meta_finalizers ans)]"
    have logged: "lib_remove_annotation ?L ?k c (world s) = (ans, w1, ?l)"
      using ans s by (simp add: log_simps)
    have wb: "well_behaved ?S ?l" using l s by simp
    show ?thesis
    proof (cases ans)
      case (Inl e)
      with run op logged wb s show ?thesis by (auto simp: reconcile_cluster_def)
    next
      case (Inr c')
      with run op logged have go: "reconcile_loaded ?L ?r c' (s\<lparr>world := (w1, ?l)\<rparr>) = (x, s')"
        by (auto simp: reconcile_cluster_def)
      have "annotation_law L" using laws by (simp add: run_laws_def)
      then have key: "object_key c' = object_key c" using ans Inr by (blast intro: annotation_lawD)
      then have name: "meta_name c' = meta_name c" by (metis object_key_simps(2))
      have "cluster_finalizer L \<in> set (meta_finalizers c') \<longrightarrow> finalizer_set ?S ?l"
        by (intro impI finalizer_set_reported [of ?k "object_key c" "meta_finalizers c'"])
           (use Inr in auto)
      with safe_onD [where lg = log_of,
          OF safe_reconcile_loaded [OF laws serves_same_key [OF run_scope_serves key] run_scope_matches]
          _ _ go] wb name s
      show ?thesis by (auto simp: prefix_def)
    qed
  qed
  show "well_behaved ?S (log_of s') \<and> prefix (log_of s) (log_of s') \<and>
      (\<forall>a. x = Returned a \<longrightarrow> True)"
    using run loaded removed l by (auto simp: reconcile_cluster_def split: if_splits)
qed

text \<open>The calls of a reconciliation of a Cluster, and of the entry point \<open>Reconcile\<close> for a key.\<close>

definition run_log :: "'w lib \<Rightarrow> 'w reconciler \<Rightarrow> cluster \<Rightarrow> registry \<Rightarrow> 'w \<Rightarrow> call list" where
  "run_log L r c known w =
     log_of (snd (reconcile_cluster (logged_lib L) (logged r) c
       \<lparr>world = (w, []), known_clusters = known\<rparr>))"

definition reconcile_log :: "'w lib \<Rightarrow> 'w reconciler \<Rightarrow> namespaced_name \<Rightarrow> registry \<Rightarrow> 'w \<Rightarrow> call list" where
  "reconcile_log L r req known w =
     log_of (snd (Reconcile (logged_lib L) (logged r) req
       \<lparr>world = (w, []), known_clusters = known\<rparr>))"

lemma run_is_well_behaved:
  assumes "run_laws L r"
  shows "well_behaved (run_scope L r c) (run_log L r c known w)"
proof -
  let ?s = "\<lparr>world = (w, []), known_clusters = known\<rparr>"
  obtain x s' where run: "reconcile_cluster (logged_lib L) (logged r) c ?s = (x, s')"
    by (cases "reconcile_cluster (logged_lib L) (logged r) c ?s")
  from safe_onD(1) [where lg = log_of, OF safe_reconcile_cluster [OF assms] _ _ run]
  show ?thesis using run by (simp add: run_log_def)
qed

lemma run_call_allowed:
  assumes "run_laws L r" and "run_log L r c known w = pre @ call # post"
  shows "allowed (run_scope L r c) pre call"
  using run_is_well_behaved [OF assms(1), of c known w] assms(2) well_behaved_split by metis

end
