(* ===== verification/Run_Properties.thy ===== *)
theory Run_Properties
  imports Run_Safety
begin

section \<open>What every run guarantees\<close>

text \<open>
  The consequences of the rule set for the calls of a run, stated over the log without the rule set.
  Each holds for all servers and libraries that behave as documented (\<open>run_laws\<close>), with failing
  calls, panics and concurrent changes included; \<open>pre\<close> is what the run did before the call at hand.
\<close>

subsection \<open>Reading the scope of a run\<close>

lemma home_run_scope [simp]:
  "home (run_scope L r c) OnPlatform = meta_namespace c"
  "home (run_scope L r c) (OnTarget a) = target_cluster_namespace"
  by (simp_all add: home_def)

lemma resource_key_run_scope:
  "resource_key (run_scope L r c) nn \<longleftrightarrow>
     nn_namespace nn = meta_namespace c \<and>
     cluster_based_resource_name L (meta_name c) = Returned (nn_name nn)"
  by (simp add: resource_key_def)

text \<open>The Cluster carries the finalizer, as it was read or as an answer before shows.\<close>

definition finalizer_seen :: "'w lib \<Rightarrow> cluster \<Rightarrow> call list \<Rightarrow> bool" where
  "finalizer_seen L c pre \<longleftrightarrow>
     cluster_finalizer L \<in> set (meta_finalizers c) \<or>
     (\<exists>nn fins. CPatch OnPlatform RCluster nn fins None \<in> set pre \<and> cluster_finalizer L \<in> set fins) \<or>
     (\<exists>k nn fins. CRemoveAnnotation k nn (Inr fins) \<in> set pre \<and> cluster_finalizer L \<in> set fins)"

lemma finalizer_set_run_scope: "finalizer_set (run_scope L r c) pre \<longleftrightarrow> finalizer_seen L c pre"
  by (simp add: finalizer_set_def finalizer_seen_def)

text \<open>Objects of a kind were listed by the expected labels, and each was deleted or already gone.\<close>

definition cleaned_up :: "'w lib \<Rightarrow> 'w reconciler \<Rightarrow> cluster \<Rightarrow> resource \<Rightarrow> call list \<Rightarrow> bool" where
  "cleaned_up L r c res pre \<longleftrightarrow>
     (\<exists>names. CList OnPlatform res (meta_namespace c) (map_of (expected_labels L r (meta_name c)))
          (Inr names) \<in> set pre \<and>
        (\<forall>nn \<in> set names. CDelete OnPlatform res nn None \<in> set pre \<or>
           CDelete OnPlatform res nn (Some NotFound) \<in> set pre))"

lemma all_deleted_run_scope: "all_deleted (run_scope L r c) OnPlatform res pre \<longleftrightarrow> cleaned_up L r c res pre"
  by (simp add: all_deleted_def cleaned_up_def)

text \<open>
  The AccessRequest was read, or is gone; and if it was granted and not about to go, access to the
  Cluster was obtained and the labelled secrets in the namespace of external-dns were deleted there.
\<close>

definition target_secrets_deleted :: "'w lib \<Rightarrow> 'w reconciler \<Rightarrow> cluster \<Rightarrow> call list \<Rightarrow> bool" where
  "target_secrets_deleted L r c pre \<longleftrightarrow>
     (\<exists>ar err. CAccessRequest (object_key c) ar err \<in> set pre \<and> err \<in> {None, Some NotFound} \<and>
        (\<forall>a. ar = Some a \<and> \<not> meta_deleting a \<and> request_granted a \<longrightarrow>
           (\<exists>t names. CAccess (object_key c) (Some t) None \<in> set pre \<and>
              CList (OnTarget t) RSecret target_cluster_namespace
                (map_of (expected_labels L r (meta_name c))) (Inr names) \<in> set pre \<and>
              (\<forall>nn \<in> set names. CDelete (OnTarget t) RSecret nn None \<in> set pre \<or>
                 CDelete (OnTarget t) RSecret nn (Some NotFound) \<in> set pre))))"

lemma target_cleaned_run_scope: "target_cleaned (run_scope L r c) pre \<longleftrightarrow> target_secrets_deleted L r c pre"
  unfolding target_cleaned_def target_secrets_deleted_def all_deleted_def
  by (auto simp: ignore_not_found_None_iff)

definition release_absent :: "'w lib \<Rightarrow> cluster \<Rightarrow> call list \<Rightarrow> bool" where
  "release_absent L c pre \<longleftrightarrow>
     (\<exists>name. cluster_based_resource_name L (meta_name c) = Returned name \<and>
        CGet OnPlatform RRelease \<lparr>nn_namespace = meta_namespace c, nn_name = name\<rparr> (Inl NotFound) \<in> set pre)"

lemma release_gone_run_scope: "release_gone (run_scope L r c) pre \<longleftrightarrow> release_absent L c pre"
proof
  assume "release_gone (run_scope L r c) pre"
  then obtain nn where "resource_key (run_scope L r c) nn"
    and "CGet OnPlatform RRelease nn (Inl NotFound) \<in> set pre" by (auto simp: release_gone_def)
  then show "release_absent L c pre"
    by (cases nn) (auto simp: release_absent_def resource_key_run_scope)
next
  assume "release_absent L c pre"
  then obtain name where "cluster_based_resource_name L (meta_name c) = Returned name"
    and "CGet OnPlatform RRelease \<lparr>nn_namespace = meta_namespace c, nn_name = name\<rparr> (Inl NotFound) \<in> set pre"
    by (auto simp: release_absent_def)
  then show "release_gone (run_scope L r c) pre"
    unfolding release_gone_def
    by (intro exI [of _ "\<lparr>nn_namespace = meta_namespace c, nn_name = name\<rparr>"])
       (simp add: resource_key_run_scope)
qed

lemmas run_scope_facts = finalizer_set_run_scope all_deleted_run_scope release_gone_run_scope
  resource_key_run_scope target_cleaned_run_scope

subsection \<open>Properties\<close>

text \<open>
  C15. Everything the entry point does for a Cluster is allowed by what it did before: from the read of
  the Cluster to the event at the end, every call keeps to the rule set of its scope.
\<close>

theorem reconcile_calls_allowed:
  assumes "run_laws L r" and "api_get (clusters_api (platform r)) req w = (Inr c, w1)"
    and "reconcile_log L r req known w = pre @ call # post"
  shows "allowed (run_scope L r c) pre call"
proof -
  let ?S = "run_scope L r c" and ?l = "[CGet OnPlatform RCluster req (Inr (object_meta.truncate c))]"
  let ?s = "\<lparr>world = (w1, ?l), known_clusters = known\<rparr>"
  obtain x s' where run: "reconcile_cluster (logged_lib L) (logged r) c ?s = (x, s')"
    by (cases "reconcile_cluster (logged_lib L) (logged r) c ?s")
  have wb: "well_behaved ?S (log_of s')"
    using safe_onD(1) [where lg = log_of, OF safe_reconcile_cluster [OF assms(1)] _ _ run]
      well_behaved_append [of ?S "[]" ?l] by simp
  have get: "api_get (clusters_api (platform (logged r))) req (w, []) = (Inr c, w1, ?l)"
    using assms(2) by (simp add: log_simps)
  have "reconcile_log L r req known w = log_of s' \<or>
      (\<exists>e. reconcile_log L r req known w = log_of s' @ [CEvent e])"
    using run get
    by (cases x) (auto simp: reconcile_log_def Reconcile_def bind_st_def send_event_def logged_def
        split: option.split)
  with wb have "well_behaved ?S (reconcile_log L r req known w)" by auto
  with assms(3) show ?thesis by simp
qed

text \<open>
  C8. The finalizer comes off the Cluster only when everything is gone: the HelmRelease was found to
  be absent; all Flux sources and copied secrets in the Cluster's namespace of the platform cluster that
  a listing by the expected labels named were deleted; so were the copied secrets on the Cluster itself,
  unless its AccessRequest was absent, not granted or being deleted when the run read it; and the access
  to the Cluster was torn down without a pending requeue. Nothing but the Cluster itself is ever patched.
\<close>

theorem finalizer_removed_after_teardown:
  assumes "run_laws L r" and "run_log L r c known w = pre @ CPatch sd res nn fins ans # post"
  shows "sd = OnPlatform \<and> res = RCluster \<and> nn = object_key c \<and>
    (cluster_finalizer L \<notin> set fins \<longrightarrow>
       release_absent L c pre \<and> (\<forall>k. cleaned_up L r c (RSource k) pre) \<and> cleaned_up L r c RSecret pre \<and>
       target_secrets_deleted L r c pre \<and>
       (\<exists>d \<le> 0. CAccessDelete (object_key c) d None \<in> set pre))"
  using run_call_allowed [OF assms]
  by (auto simp: torn_down_def access_gone_def run_scope_facts)

text \<open>The calls that bring something into being.\<close>

fun establishes :: "call \<Rightarrow> bool" where
  "establishes (CUpsert _ _ _ _) = True"
| "establishes (CCreate _ _ _ _) = True"
| "establishes (CAccessReconcile _ _ _) = True"
| "establishes _ = False"

text \<open>
  C12. Nothing is created or written for a Cluster, and no access to it is requested, before it carries
  the finalizer, so that whatever exists will be cleaned up.
\<close>

theorem finalizer_precedes_writes:
  assumes "run_laws L r" and "run_log L r c known w = pre @ call # post" and "establishes call"
  shows "finalizer_seen L c pre"
proof (cases call)
  case (CUpsert sd res nn ans)
  with run_call_allowed [OF assms(1,2)] show ?thesis
    by (cases res) (auto simp: run_scope_facts)
qed (use run_call_allowed [OF assms(1,2)] assms(3) in \<open>auto simp: run_scope_facts\<close>)

text \<open>
  C10. Secrets and Flux sources are deleted only if a listing by the expected labels in the run's own
  namespace has named them, sources only on the platform cluster. Apart from these only the
  HelmRelease is ever deleted.
\<close>

theorem only_labelled_objects_deleted:
  assumes "run_laws L r" and "run_log L r c known w = pre @ CDelete sd res nn ans # post"
    and "res \<noteq> RRelease"
  shows "(res = RSecret \<or> sd = OnPlatform \<and> (\<exists>k. res = RSource k)) \<and>
    (\<exists>names. CList sd res
        (case sd of OnPlatform \<Rightarrow> meta_namespace c | OnTarget _ \<Rightarrow> target_cluster_namespace)
        (map_of (expected_labels L r (meta_name c))) (Inr names) \<in> set pre \<and> nn \<in> set names)"
  using run_call_allowed [OF assms(1,2)] assms(3)
  by (cases res) (auto simp: was_listed_def split: side.splits)

text \<open>
  C11. The HelmRelease is deleted only right after a read that found it under the name made for this
  Cluster, not yet being deleted, and with the expected labels on it.
\<close>

theorem only_own_release_deleted:
  assumes "run_laws L r" and "run_log L r c known w = pre @ CDelete sd RRelease nn ans # post"
  shows "sd = OnPlatform \<and> (\<exists>name m.
    cluster_based_resource_name L (meta_name c) = Returned name \<and> pre \<noteq> [] \<and>
    last pre = CGet OnPlatform RRelease \<lparr>nn_namespace = meta_namespace c, nn_name = name\<rparr> (Inr m) \<and>
    nn = object_key m \<and> \<not> meta_deleting m \<and>
    has_labels (expected_labels L r (meta_name c)) (meta_labels m))"
proof -
  from run_call_allowed [OF assms] obtain key m where
    "sd = OnPlatform" "pre \<noteq> []" "last pre = CGet OnPlatform RRelease key (Inr m)"
    "resource_key (run_scope L r c) key" "nn = object_key m" "\<not> meta_deleting m"
    "has_labels (expected_labels L r (meta_name c)) (meta_labels m)"
    by (auto simp: own_release_def)
  then show ?thesis by (cases key) (auto simp: resource_key_run_scope)
qed

text \<open>
  C9. A secret of somebody else is never overwritten: a secret is written only right after a read of
  it that found nothing or found the expected labels on it.
\<close>

theorem foreign_secrets_not_overwritten:
  assumes "run_laws L r" and "run_log L r c known w = pre @ CUpsert sd RSecret nn ans # post"
  shows "\<exists>key found. pre \<noteq> [] \<and> last pre = CGet sd RSecret key found \<and>
    nn_namespace key =
      (case sd of OnPlatform \<Rightarrow> meta_namespace c | OnTarget _ \<Rightarrow> target_cluster_namespace) \<and>
    (found = Inl NotFound \<and> nn = key \<or>
     (\<exists>m. found = Inr m \<and> nn = object_key m \<and>
        has_labels (expected_labels L r (meta_name c)) (meta_labels m)))"
  using run_call_allowed [OF assms]
  by (cases sd) (auto simp: checked_secret_def)

text \<open>
  C13. The HelmRelease is written only after the Flux source of the same name and namespace was written
  successfully and the namespace it installs into was seen or made on the target cluster.
\<close>

theorem release_written_after_source_and_namespace:
  assumes "run_laws L r" and "run_log L r c known w = pre @ CUpsert sd RRelease nn ans # post"
  shows "(\<exists>k nn'. CUpsert OnPlatform (RSource k) nn (Returned (Inr nn')) \<in> set pre) \<and>
    (\<exists>a ns. nn_name ns = target_cluster_namespace \<and>
       ((\<exists>m. CGet (OnTarget a) RNamespace ns (Inr m) \<in> set pre) \<or>
        CCreate (OnTarget a) RNamespace ns None \<in> set pre \<or>
        CCreate (OnTarget a) RNamespace ns (Some AlreadyExists) \<in> set pre))"
  using run_call_allowed [OF assms] by (simp add: source_written_def namespace_ready_def)

text \<open>
  C14. The access to the target cluster is given up only after the HelmRelease was found to be absent,
  the sources and copied secrets on the platform cluster were deleted, and, if access was granted then,
  the copied secrets on the target cluster as well.
\<close>

theorem access_given_up_after_cleanup:
  assumes "run_laws L r" and "run_log L r c known w = pre @ CAccessDelete nn d ans # post"
  shows "nn = object_key c \<and> release_absent L c pre \<and> (\<forall>k. cleaned_up L r c (RSource k) pre) \<and>
    cleaned_up L r c RSecret pre \<and> target_secrets_deleted L r c pre"
  using run_call_allowed [OF assms] by (simp add: run_scope_facts)

text \<open>
  A run writes only secrets, and on the platform cluster sources and a HelmRelease in the Cluster's
  namespace under the name made for it; it creates only the namespace of external-dns on the target
  cluster.
\<close>

theorem writes_confined:
  assumes "run_laws L r" and "run_log L r c known w = pre @ call # post"
  shows "(case call of
      CUpsert sd res nn _ \<Rightarrow>
        res = RSecret \<or>
        (res = RRelease \<or> (\<exists>k. res = RSource k)) \<and> sd = OnPlatform \<and>
          nn_namespace nn = meta_namespace c \<and>
          cluster_based_resource_name L (meta_name c) = Returned (nn_name nn)
    | CCreate sd res nn _ \<Rightarrow>
        sd \<noteq> OnPlatform \<and> res = RNamespace \<and> nn_name nn = target_cluster_namespace
    | _ \<Rightarrow> True)"
proof (cases call)
  case (CUpsert sd res nn ans)
  with run_call_allowed [OF assms] show ?thesis by (cases res) (auto simp: run_scope_facts)
qed (use run_call_allowed [OF assms] in auto)

text \<open>
  C18. The run takes off the generic reconcile annotation only. If the DNS-specific one asked for the
  run, it stays on the Cluster.
\<close>

theorem only_generic_annotation_removed:
  assumes "run_laws L r" and "run_log L r c known w = pre @ CRemoveAnnotation k nn ans # post"
  shows "k = lib_operation_annotation L \<and> k \<noteq> dns_operation_annotation L"
  using run_call_allowed [OF assms] by (auto simp: dns_operation_annotation_def)

text \<open>
  C17. A Cluster with an ignore annotation is left alone: after the read that shows the annotation the
  reconciliation makes no further call, sends no event and reports success.
\<close>

theorem ignored_cluster_left_alone:
  assumes "api_get (clusters_api (platform r)) req w = (Inr c, w1)"
    and "requested_operation L c = Some (lib_operation_ignore L)"
  shows "reconcile_log L r req known w = [CGet OnPlatform RCluster req (Inr (object_meta.truncate c))] \<and>
    Reconcile L r req \<lparr>world = w, known_clusters = known\<rparr> =
      (Returned (\<lparr>requeue_after = 0\<rparr>, None), \<lparr>world = w1, known_clusters = known\<rparr>)"
proof -
  have get: "api_get (clusters_api (platform (logged r))) req (w, []) =
      (Inr c, w1, [CGet OnPlatform RCluster req (Inr (object_meta.truncate c))])"
    using assms(1) by (simp add: log_simps)
  show ?thesis
    using assms get
    by (simp add: reconcile_log_def Reconcile_def reconcile_cluster_def bind_st_def result_event_def
        empty_result_def send_event_def split: option.split)
qed

text \<open>
  C16. A Cluster without the finalizer that no configuration matches or that is already being deleted,
  and that no operation annotation asks to reconcile or to ignore, sees nothing but the two reads of the
  configuration. (An ignored one sees not even these, and a reconcile annotation is taken off first.)
\<close>

theorem unmanaged_cluster_left_alone:
  assumes "requested_operation L c \<notin> {Some (lib_operation_ignore L), Some (lib_operation_reconcile L)}"
    and "cluster_finalizer L \<notin> set (meta_finalizers c)"
    and "api_get (configs_api (platform r)) \<lparr>nn_namespace = [], nn_name = provider_name r\<rparr> w = (Inr config, w1)"
    and "api_get (services_api (platform r)) \<lparr>nn_namespace = [], nn_name = provider_name r\<rparr> w1 = (Inr ps, w2)"
    and "meta_deleting c \<or> select_config (spec_purposes (service_spec config)) (cluster_purposes c) = None"
  shows "map (\<lambda>call. case call of CGet sd res nn _ \<Rightarrow> Some (sd, res, nn) | _ \<Rightarrow> None) (run_log L r c known w) =
    [Some (OnPlatform, RConfig, \<lparr>nn_namespace = [], nn_name = provider_name r\<rparr>),
     Some (OnPlatform, RService, \<lparr>nn_namespace = [], nn_name = provider_name r\<rparr>)]"
proof -
  let ?key = "\<lparr>nn_namespace = [], nn_name = provider_name r\<rparr>"
  have "api_get (configs_api (platform (logged r))) ?key (w, []) =
      (Inr config, w1, [CGet OnPlatform RConfig ?key (Inr (object_meta.truncate config))])"
    using assms(3) by (simp add: log_simps)
  moreover have "api_get (services_api (platform (logged r))) ?key (w1, l) =
      (Inr ps, w2, l @ [CGet OnPlatform RService ?key (Inr (object_meta.truncate ps))])" for l
    using assms(4) by (simp add: log_simps)
  ultimately show ?thesis
    using assms(1,2,5)
    by (auto simp: run_log_def reconcile_cluster_def reconcile_loaded_def reconcile_configured_def
        handle_delete_def Let_def)
qed

end
