(* ===== verification/Registry_Runs.thy ===== *)
theory Registry_Runs
  imports Controller
begin

section \<open>The registry over many reconciliations\<close>

text \<open>
  What a reconciliation does to the registry of known Clusters, and what holds of the registry after
  any sequence of reconciliations between which the world may change at will.
\<close>

subsection \<open>One reconciliation\<close>

text \<open>The entry of one key was added or removed, or the registry is as it was.\<close>

definition touches :: "namespaced_name \<Rightarrow> registry \<Rightarrow> registry \<Rightarrow> bool" where
  "touches key known known' \<longleftrightarrow>
     known' = known \<or> known' = List.insert key known \<or> known' = filter (\<lambda>nn. nn \<noteq> key) known"

lemma touches_same [simp]: "touches key known known"
  by (simp add: touches_def)

lemma touches_add: "object_key c = key \<Longrightarrow> touches key known (add_known_cluster c known)"
  by (auto simp: touches_def add_known_cluster_def)

lemma touches_remove: "object_key c = key \<Longrightarrow> touches key known (remove_known_cluster c known)"
  by (auto simp: touches_def remove_known_cluster_def remove_known_cluster_raw_def object_key_def)

lemma touches_members:
  "touches key known known' \<Longrightarrow> set known' - {key} = set known - {key} \<and> (distinct known \<longrightarrow> distinct known')"
  by (auto simp: touches_def distinct_insert)

lemma on_world_known: "on_world m s = (x, s') \<Longrightarrow> known_clusters s' = known_clusters s"
  by (auto simp: on_world_def split: prod.splits)

lemma create_touches:
  assumes "create_after_finalizer L r c expected rr s = (x, s')" and "object_key c = key"
  shows "touches key (known_clusters s) (known_clusters s')"
  using assms by (auto simp: create_after_finalizer_def dest!: on_world_known intro: touches_add)

lemma handle_create_or_update_touches:
  assumes "patch_law r" and "handle_create_or_update L r c expected rr s = (x, s')" and "object_key c = key"
  shows "touches key (known_clusters s) (known_clusters s')"
  using assms(2,3)
  by (auto simp: handle_create_or_update_def Let_def split: prod.splits sum.splits if_splits
      dest!: create_touches [where key = key] patch_lawD [OF assms(1)])

lemma release_touches:
  assumes "patch_law r" and "release_cluster L r c rr s = (x, s')" and "object_key c = key"
  shows "touches key (known_clusters s) (known_clusters s')"
  using assms(2,3)
  by (auto simp: release_cluster_def Let_def split: prod.splits sum.splits if_splits
      dest!: patch_lawD [OF assms(1)] intro!: touches_remove)

lemma chain_known:
  assumes "chain m f s = (x, s')" and "\<And>rr s x s'. m s = (x, s') \<Longrightarrow> known_clusters s' = known_clusters s"
    and "\<And>rr s x s'. f rr s = (x, s') \<Longrightarrow> touches key (known_clusters s) (known_clusters s')"
  shows "touches key (known_clusters s) (known_clusters s')"
proof -
  obtain y s1 where m: "m s = (y, s1)" by (cases "m s")
  show ?thesis
  proof (cases y)
    case (Returned rr)
    show ?thesis
    proof (cases "stopped rr")
      case True
      with assms(1) m Returned assms(2) [OF m] show ?thesis
        by (simp add: chain_def bind_st_def return_st_def)
    next
      case False
      with assms(1) m Returned have "f rr s1 = (x, s')" by (simp add: chain_def bind_st_def)
      from assms(3) [OF this] assms(2) [OF m] show ?thesis by simp
    qed
  next
    case (Panicked p)
    with assms(1) m assms(2) [OF m] show ?thesis by (simp add: chain_def bind_st_def)
  qed
qed

lemma handle_delete_touches:
  assumes "patch_law r" and "handle_delete L r c expected rr s = (x, s')" and "object_key c = key"
  shows "touches key (known_clusters s) (known_clusters s')"
proof (cases "cluster_finalizer L \<in> set (meta_finalizers c)")
  case False
  with assms(2,3) show ?thesis by (auto simp: handle_delete_def intro!: touches_remove)
next
  case True
  with assms(2) have run: "chain (on_world (undeploy_helm_release L r c expected rr)) (\<lambda>rr.
      chain (on_world (cleanup_with_access L r c expected rr)) (\<lambda>rr. release_cluster L r c rr)) s = (x, s')"
    by (simp add: handle_delete_def)
  have rest: "touches key (known_clusters s) (known_clusters s')"
    if "chain (on_world (cleanup_with_access L r c expected rr)) (\<lambda>rr. release_cluster L r c rr) s = (x, s')"
    for rr s x s'
    by (rule chain_known [OF that]) (auto dest: on_world_known release_touches [OF assms(1) _ assms(3)])
  show ?thesis
    by (rule chain_known [OF run]) (auto dest: on_world_known rest)
qed

lemma reconcile_loaded_touches:
  assumes "patch_law r" and "reconcile_loaded L r c s = (x, s')" and "object_key c = key"
  shows "touches key (known_clusters s) (known_clusters s')"
  using assms(2,3)
  by (auto simp: reconcile_loaded_def reconcile_configured_def Let_def
      split: prod.splits sum.splits if_splits
      dest!: handle_create_or_update_touches [OF assms(1), where key = key]
        handle_delete_touches [OF assms(1), where key = key])

lemma reconcile_cluster_touches:
  assumes "patch_law r" and "annotation_law L" and "reconcile_cluster L r c s = (x, s')"
  shows "touches (object_key c) (known_clusters s) (known_clusters s')"
  using assms(3)
  by (auto simp: reconcile_cluster_def split: prod.splits sum.splits if_splits
      dest!: reconcile_loaded_touches [OF assms(1), where key = "object_key c"]
        annotation_lawD [OF assms(2)])

lemma Reconcile_touches:
  assumes "get_law r" and "patch_law r" and "annotation_law L" and "Reconcile L r req s = (x, s')"
  shows "touches req (known_clusters s) (known_clusters s')"
proof -
  have not_found: "touches req known (remove_known_cluster_raw (nn_name req) (nn_namespace req) known)"
    for known by (simp add: touches_def remove_known_cluster_raw_def)
  show ?thesis
    using assms(4) not_found
    by (auto simp: Reconcile_def bind_st_def split: prod.splits sum.splits if_splits outcome.splits
        dest!: get_lawD [OF assms(1)] reconcile_cluster_touches [OF assms(2,3)])
qed

subsection \<open>Many reconciliations\<close>

text \<open>
  The states a controller can reach from the start, with the keys it has reconciled so far: between
  two reconciliations the world may become any other, by what users and other controllers do.
\<close>

inductive reachable :: "'w lib \<Rightarrow> 'w reconciler \<Rightarrow> namespaced_name list \<Rightarrow> 'w controller_state \<Rightarrow> bool"
  for L r where
  start: "reachable L r [] \<lparr>world = w, known_clusters = initial_known_clusters\<rparr>"
| others_act: "reachable L r reqs s \<Longrightarrow> reachable L r reqs (s\<lparr>world := w\<rparr>)"
| reconciled: "reachable L r reqs s \<Longrightarrow> Reconcile L r req s = (x, s') \<Longrightarrow> reachable L r (req # reqs) s'"

lemma reachable_registry:
  assumes "reachable L r reqs s" and "get_law r" and "patch_law r" and "annotation_law L"
  shows "distinct (known_clusters s) \<and> set (known_clusters s) \<subseteq> set reqs"
  using assms
proof (induction rule: reachable.induct)
  case (start w)
  show ?case by (simp add: initial_known_clusters_def)
next
  case (reconciled reqs s req x s')
  from Reconcile_touches [OF reconciled.prems reconciled.hyps(2)] reconciled.IH reconciled.prems
  show ?case by (auto dest!: touches_members)
qed simp

subsection \<open>Properties\<close>

text \<open>
  C29. Reconciling one Cluster leaves the entries of all other Clusters in the registry alone,
  whatever the run does and however it ends.
\<close>

theorem reconcile_touches_own_entry:
  assumes "get_law r" and "patch_law r" and "annotation_law L" and "Reconcile L r req s = (x, s')"
    and "nn \<noteq> req"
  shows "nn \<in> set (known_clusters s') \<longleftrightarrow> nn \<in> set (known_clusters s)"
  using touches_members [OF Reconcile_touches [OF assms(1-4)]] assms(5) by auto

text \<open>
  C30. At any time, a change of the configuration leads to at most one request for each Cluster, and
  only for Clusters that have been reconciled before.
\<close>

theorem config_change_requests_reconciled_clusters:
  assumes "reachable L r reqs s" and "get_law r" and "patch_law r" and "annotation_law L"
    and "range_clusters_law L" and "project_law L"
  shows "distinct (requests_for_known L (known_clusters s)) \<and>
         set (requests_for_known L (known_clusters s)) \<subseteq> set reqs"
proof -
  have "mset (requests_for_known L (known_clusters s)) = mset (known_clusters s)"
    using assms(5,6)
    by (simp add: requests_for_known_def list_known_clusters_def project_law_def range_clusters_law_def)
  with reachable_registry [OF assms(1-4)] show ?thesis
    by (metis mset_eq_imp_distinct_iff mset_eq_setD)
qed

text \<open>A Cluster that is gone is no longer known after its reconciliation, which reports no error.\<close>

theorem vanished_cluster_is_forgotten:
  assumes "api_get (clusters_api (platform r)) req (world s) = (Inl NotFound, w)"
  shows "\<exists>s'. Reconcile L r req s = (Returned (\<lparr>requeue_after = 0\<rparr>, None), s') \<and>
           set (known_clusters s') = set (known_clusters s) - {req}"
  using assms
  by (auto simp: Reconcile_def remove_known_cluster_raw_def)

end
