(* ===== verification/Phases.thy ===== *)
theory Phases
  imports Controller
begin

section \<open>The contract of a phase\<close>

text \<open>
  Every phase takes the \<open>ReconcileResult\<close> of the phases before it and hands on its own. The contract:
  what was loaded at the start (the selected configuration, the DNSServiceConfig, the
  PlatformService) stays as it is, and an error is never lost. Phases in sequence, with the guard
  between them, keep the contract again.
\<close>

subsection \<open>The interface\<close>

definition carries_on :: "reconcile_result \<Rightarrow> reconcile_result \<Rightarrow> bool" where
  "carries_on rr rr' \<longleftrightarrow>
     rr_config rr' = rr_config rr \<and> rr_provider_config rr' = rr_provider_config rr \<and>
     rr_platform_service rr' = rr_platform_service rr \<and> (rr_error rr \<noteq> None \<longrightarrow> rr_error rr' \<noteq> None)"

lemma carries_on_refl [simp, intro]: "carries_on rr rr"
  by (simp add: carries_on_def)

lemma carries_on_trans: "carries_on rr rr' \<Longrightarrow> carries_on rr' rr'' \<Longrightarrow> carries_on rr rr''"
  by (simp add: carries_on_def)

lemma carries_on_updates [simp]:
  "carries_on rr (fail rr f why)"
  "carries_on rr (rr\<lparr>rr_error := Some err\<rparr>)"
  "carries_on rr (rr\<lparr>rr_message := m\<rparr>)"
  "carries_on rr (rr\<lparr>rr_result := res\<rparr>)"
  "carries_on rr (rr\<lparr>rr_related := rel\<rparr>)"
  "carries_on rr (rr\<lparr>rr_related := rel, rr_message := m\<rparr>)"
  "carries_on rr (rr\<lparr>rr_source_kind := k\<rparr>)"
  "carries_on rr (rr\<lparr>rr_access := a\<rparr>)"
  "carries_on rr (rr\<lparr>rr_access_request := ar\<rparr>)"
  "carries_on rr (fail (rr\<lparr>rr_related := rel\<rparr>) f why)"
  "carries_on rr (await_release_deletion (rr\<lparr>rr_related := rel\<rparr>))"
  by (simp_all add: carries_on_def fail_def await_release_deletion_def)

locale phase =
  fixes run :: "reconcile_result \<Rightarrow> ('s, reconcile_result) comp"
  assumes contract: "run rr s = (Returned rr', s') \<Longrightarrow> carries_on rr rr'"
begin

lemma keeps_error:
  assumes "run rr s = (Returned rr', s')" and "rr_error rr \<noteq> None"
  shows "stopped rr'"
  using contract [OF assms(1)] assms(2) by (simp add: carries_on_def stopped_def)

end

locale two_phases = first: phase run + second: phase run_next
  for run run_next :: "reconcile_result \<Rightarrow> ('s, reconcile_result) comp"

sublocale two_phases \<subseteq> sequence: phase "\<lambda>rr. chain (run rr) run_next"
proof
  fix rr s rr' s'
  assume "chain (run rr) run_next s = (Returned rr', s')"
  then obtain rr1 s1 where first: "run rr s = (Returned rr1, s1)"
    and rest: "(if stopped rr1 then return_st rr1 else run_next rr1) s1 = (Returned rr', s')"
    unfolding chain_def by (rule bind_st_ReturnedE)
  from first.contract [OF first] rest show "carries_on rr rr'"
    by (auto simp: return_st_def split: if_splits dest: second.contract intro: carries_on_trans)
qed

context two_phases
begin

lemma chained: "phase (\<lambda>rr. chain (run rr) run_next)"
  by (rule sequence.phase_axioms)

end

lemma chain_phase: "phase m \<Longrightarrow> phase n \<Longrightarrow> phase (\<lambda>rr. chain (m rr) n)"
  by (rule two_phases.chained) (simp add: two_phases_def)

subsection \<open>The phases of the controller\<close>

lemma carries_on_fail_related:
  "carries_on rr (fail rr1 f why)" if "rr_config rr1 = rr_config rr"
    "rr_provider_config rr1 = rr_provider_config rr" "rr_platform_service rr1 = rr_platform_service rr"
  using that by (simp add: carries_on_def fail_def)

lemma copy_secrets_carries_on:
  assumes "copy_secrets L r ns expected rr ct w = (Returned (rr', copied), w')"
  shows "carries_on rr rr'"
  using assms
  by (auto simp: copy_secrets_def copy_configured_def deref_def return_st_def Let_def
      split: option.splits copy_to.splits elim!: bind_st_ReturnedE)

interpretation copying: phase
    "\<lambda>rr. bind_st (copy_secrets L r ns expected rr ct) (\<lambda>(rr, copied). return_st rr)"
  for L :: "'w lib" and r ns expected ct
  by unfold_locales (auto simp: return_st_def elim!: bind_st_ReturnedE dest: copy_secrets_carries_on)

interpretation removing: phase "\<lambda>rr. remove_secrets L r ns expected rr ct keep"
  for L :: "'w lib" and r ns expected ct keep
  by unfold_locales
     (auto simp: remove_secrets_def remove_from_def deref_def return_st_def
       split: copy_to.splits option.splits prod.splits sum.splits elim!: bind_st_ReturnedE)

interpretation deploying_source: phase "deploy_helm_chart_source L r c expected"
  for L :: "'w lib" and r c expected
  by unfold_locales
     (auto simp: deploy_helm_chart_source_def with_existing_sources_def list_sources_def deref_def
       write_source_def finish_sources_def of_outcome_def return_st_def Let_def carries_on_def fail_def
       split: option.splits prod.splits sum.splits outcome.splits elim!: bind_st_ReturnedE)

interpretation undeploying_source: phase "undeploy_helm_chart_source L r c expected"
  for L :: "'w lib" and r c expected
  by unfold_locales
     (auto simp: undeploy_helm_chart_source_def with_existing_sources_def list_sources_def
       finish_sources_def return_st_def carries_on_def fail_def
       split: option.splits prod.splits sum.splits elim!: bind_st_ReturnedE)

interpretation ensuring_namespace: phase "ensure_target_cluster_namespace L ns"
  for L :: "'w lib" and ns
  by unfold_locales
     (auto simp: ensure_target_cluster_namespace_def deref_def Let_def
       split: option.splits prod.splits sum.splits if_splits)

interpretation deploying_release: phase "deploy_helm_release L r c expected"
  for L :: "'w lib" and r c expected
  by unfold_locales
     (auto simp: deploy_helm_release_def of_outcome_def Let_def
       split: prod.splits sum.splits outcome.splits elim!: bind_st_ReturnedE)

interpretation undeploying_release: phase "undeploy_helm_release L r c expected"
  for L :: "'w lib" and r c expected
  by unfold_locales
     (auto simp: undeploy_helm_release_def of_outcome_def Let_def
       split: prod.splits sum.splits option.splits if_splits elim!: bind_st_ReturnedE)

interpretation deleting_access: phase "delete_access r c" for r :: "'w reconciler" and c
  by unfold_locales
     (auto simp: delete_access_def split: prod.splits option.splits if_splits)

interpretation removing_target_secrets: phase "remove_target_secrets L r c expected ar"
  for L :: "'w lib" and r c expected ar
  by unfold_locales
     (auto simp: remove_target_secrets_def carries_on_def fail_def
       split: prod.splits option.splits if_splits dest!: removing.contract)

lemma pair_phase:
  assumes "phase (\<lambda>rr. bind_st (m rr) (\<lambda>(rr, copied). return_st rr))" and "\<And>copied. phase (n copied)"
  shows "phase (\<lambda>rr. bind_st (m rr) (\<lambda>(rr, copied). if stopped rr then return_st rr else n copied rr))"
proof (rule phase.intro)
  fix rr s rr' s'
  assume "bind_st (m rr) (\<lambda>(rr, copied). if stopped rr then return_st rr else n copied rr) s =
    (Returned rr', s')"
  then obtain rr1 copied s1 where first: "m rr s = (Returned (rr1, copied), s1)"
    and rest: "(if stopped rr1 then return_st rr1 else n copied rr1) s1 = (Returned rr', s')"
    by (auto elim!: bind_st_ReturnedE)
  from first have "bind_st (m rr) (\<lambda>(rr, copied). return_st rr) s = (Returned rr1, s1)"
    by (simp add: bind_st_def return_st_def)
  then have "carries_on rr rr1" by (rule phase.contract [OF assms(1)])
  with rest show "carries_on rr rr'"
    by (auto simp: return_st_def split: if_splits dest: phase.contract [OF assms(2)]
        intro: carries_on_trans)
qed

lemma message_phase: "phase (\<lambda>rr. return_st (rr\<lparr>rr_message := m\<rparr>))"
  by (rule phase.intro) (auto simp: return_st_def)

lemmas all_phases = copying.phase_axioms removing.phase_axioms deploying_source.phase_axioms
  undeploying_source.phase_axioms ensuring_namespace.phase_axioms deploying_release.phase_axioms
  undeploying_release.phase_axioms deleting_access.phase_axioms removing_target_secrets.phase_axioms
  message_phase

interpretation deploying: phase "deploy_phases L r c expected" for L :: "'w lib" and r c expected
  unfolding deploy_phases_def
  by (intro pair_phase chain_phase all_phases)

interpretation cleaning: phase "cleanup_phases L r c expected ar" for L :: "'w lib" and r c expected ar
  unfolding cleanup_phases_def
  by (intro chain_phase all_phases)

interpretation deploying_with_access: phase "deploy_with_access L r c expected"
  for L :: "'w lib" and r c expected
  by unfold_locales
     (auto simp: deploy_with_access_def Let_def carries_on_def fail_def
       split: prod.splits option.splits if_splits dest!: deploying.contract)

interpretation cleaning_with_access: phase "cleanup_with_access L r c expected"
  for L :: "'w lib" and r c expected
  by unfold_locales
     (auto simp: cleanup_with_access_def Let_def
       split: prod.splits option.splits if_splits dest: cleaning.contract)

text \<open>The phases on the state of the controller.\<close>

lemma on_world_phase: "phase m \<Longrightarrow> phase (\<lambda>rr. on_world (m rr))"
  by (rule phase.intro) (auto simp: on_world_def split: prod.splits dest: phase.contract)

interpretation creating: phase "create_after_finalizer L r c expected" for L :: "'w lib" and r c expected
proof
  fix rr s rr' s'
  assume "create_after_finalizer L r c expected rr s = (Returned rr', s')"
  then show "carries_on rr rr'"
    unfolding create_after_finalizer_def
    by (rule phase.contract [OF on_world_phase [OF deploying_with_access.phase_axioms]])
qed

interpretation creating_or_updating: phase "handle_create_or_update L r c expected"
  for L :: "'w lib" and r c expected
  by unfold_locales
     (auto simp: handle_create_or_update_def Let_def
       split: prod.splits sum.splits if_splits dest: creating.contract)

interpretation releasing: phase "release_cluster L r c" for L :: "'w lib" and r c
  by unfold_locales
     (auto simp: release_cluster_def Let_def split: prod.splits sum.splits if_splits)

interpretation tearing_down: two_phases
    "\<lambda>rr. on_world (undeploy_helm_release L r c expected rr)"
    "\<lambda>rr. on_world (cleanup_with_access L r c expected rr)"
  for L :: "'w lib" and r c expected
  unfolding two_phases_def
  by (intro conjI on_world_phase undeploying_release.phase_axioms cleaning_with_access.phase_axioms)

interpretation deleting: phase "handle_delete L r c expected" for L :: "'w lib" and r c expected
proof
  fix rr s rr' s'
  assume run: "handle_delete L r c expected rr s = (Returned rr', s')"
  have "phase (\<lambda>rr. chain (on_world (undeploy_helm_release L r c expected rr)) (\<lambda>rr.
      chain (on_world (cleanup_with_access L r c expected rr)) (release_cluster L r c)))"
    by (intro chain_phase on_world_phase undeploying_release.phase_axioms
        cleaning_with_access.phase_axioms releasing.phase_axioms)
  then show "carries_on rr rr'"
    using run by (auto simp: handle_delete_def split: if_splits dest: phase.contract)
qed

subsection \<open>Properties\<close>

text \<open>
  C31. A run works with one configuration: the configuration, the PlatformService and the purpose
  configuration selected at its start are those it ends with, whatever its phases do.
\<close>

theorem run_keeps_its_configuration:
  assumes "reconcile_configured L r c expected rr config s = (Returned rr', s')"
  shows "rr_config rr' = select_config (spec_purposes (service_spec config)) (cluster_purposes c) \<and>
         rr_provider_config rr' = rr_provider_config rr \<and>
         rr_platform_service rr' = rr_platform_service rr"
  using assms
  by (auto simp: reconcile_configured_def Let_def carries_on_def split: if_splits
      dest!: creating_or_updating.contract deleting.contract)

text \<open>The copying of secrets does not look at an error that is there already.\<close>

lemma copy_secrets_after_error:
  assumes "copy_secrets L r ns expected (rr\<lparr>rr_error := None\<rparr>) PlatformClusterCopy w = (Returned (rr0, copied), w')"
  shows "copy_secrets L r ns expected (rr\<lparr>rr_error := Some err\<rparr>) PlatformClusterCopy w =
    (Returned (rr0\<lparr>rr_error := Some (case rr_error rr0 of None \<Rightarrow> err | Some e \<Rightarrow> e)\<rparr>, copied), w')"
  using assms
  by (auto simp: copy_secrets_def copy_configured_def deref_def return_st_def bind_st_def Let_def
      split: option.splits prod.splits outcome.splits)

text \<open>
  C32. An error from \<open>AccessRequest\<close> does not end the run at once. If \<open>Access\<close> then answers without an
  error, the secrets are still copied to the platform cluster, as in a run without the error; only then
  the run stops. It reports the error of \<open>AccessRequest\<close>, unless copying fails as well: then the error of
  the copying takes its place.
\<close>

theorem access_request_error_stops_after_copying:
  assumes "access_reconcile (access_reconciler r) (object_key c) w = ((res, None), w1)"
    and "requeue_after res \<le> 0"
    and "access_request_of (access_reconciler r) (object_key c) w1 = ((ar, Some e), w2)"
    and "access_cluster (access_reconciler r) (object_key c) w2 = ((access, None), w3)"
    and "copy_secrets L r (meta_namespace c) expected
           (rr\<lparr>rr_error := None, rr_access_request := ar, rr_access := access\<rparr>)
           PlatformClusterCopy w3 = (Returned (rr0, copied), w4)"
  shows "\<exists>rr'. deploy_with_access L r c expected rr w = (Returned rr', w4) \<and>
    rr_error rr' = Some (case rr_error rr0 of
        None \<Rightarrow> reasoned (AccessRequestFailed e) InternalError
      | Some copy_error \<Rightarrow> copy_error)"
proof -
  let ?rr = "(fail rr (AccessRequestFailed e) InternalError)\<lparr>rr_access_request := ar, rr_access := access\<rparr>"
  let ?e = "reasoned (AccessRequestFailed e) InternalError"
  define rr' where "rr' = rr0\<lparr>rr_error := Some (case rr_error rr0 of None \<Rightarrow> ?e | Some e \<Rightarrow> e)\<rparr>"
  have order: "rr\<lparr>rr_access_request := ar, rr_access := access, rr_error := e\<rparr> =
      rr\<lparr>rr_error := e, rr_access_request := ar, rr_access := access\<rparr>" for e
    by (cases rr) simp
  have "copy_secrets L r (meta_namespace c) expected ?rr PlatformClusterCopy w3 = (Returned (rr', copied), w4)"
    using copy_secrets_after_error [of L r "meta_namespace c" expected
        "rr\<lparr>rr_access_request := ar, rr_access := access\<rparr>" w3 rr0 copied w4 ?e] assms(5)
    by (simp add: fail_def rr'_def order)
  moreover have "stopped rr'" by (simp add: rr'_def stopped_def)
  ultimately have "deploy_with_access L r c expected rr w = (Returned rr', w4)"
    using assms(1-4)
    by (simp add: deploy_with_access_def deploy_phases_def bind_st_def return_st_def Let_def)
  then show ?thesis by (simp add: rr'_def)
qed

end
