(* ===== verification/Sample_Environment.thy ===== *)
theory Sample_Environment
  imports Run_Properties Registry_Runs Phases
begin

section \<open>A sample environment\<close>

text \<open>
  An API server in memory, libraries that behave as documented, and a few Clusters: the concrete
  inputs on which the witnesses of the properties are evaluated. Nothing else depends on it.
\<close>

subsection \<open>A server in memory\<close>

record server =
  sv_clusters :: "cluster list"
  sv_configs :: "service_config list"
  sv_services :: "platform_service list"
  sv_secrets :: "secret list"
  sv_helm :: "flux_source list"
  sv_git :: "flux_source list"
  sv_oci :: "flux_source list"
  sv_releases :: "helm_release list"
  sv_target_namespaces :: "object_meta list"
  sv_target_secrets :: "secret list"

definition find_object :: "namespaced_name \<Rightarrow> 'o object_meta_scheme list \<Rightarrow> 'o object_meta_scheme option" where
  "find_object k objs = find (\<lambda>obj. object_key obj = k) objs"

definition replace_object :: "'o object_meta_scheme \<Rightarrow> 'o object_meta_scheme list \<Rightarrow> 'o object_meta_scheme list" where
  "replace_object new objs = map (\<lambda>obj. if object_key obj = object_key new then new else obj) objs"

text \<open>Selectors are compared on the two labels that the sample uses.\<close>

definition matching :: "string \<Rightarrow> labels \<Rightarrow> 'o object_meta_scheme \<Rightarrow> bool" where
  "matching ns ls obj \<longleftrightarrow> meta_namespace obj = ns \<and>
     list_all (\<lambda>k. ls k = None \<or> ls k = meta_labels obj k) [''by'', ''for'']"

definition stored ::
  "('w \<Rightarrow> 'o object_meta_scheme list) \<Rightarrow> ('o object_meta_scheme list \<Rightarrow> 'w \<Rightarrow> 'w) \<Rightarrow>
   ('o object_meta_scheme, 'w) kind_api" where
  "stored get put =
     \<lparr>api_get = (\<lambda>k w. (case find_object k (get w) of None \<Rightarrow> Inl NotFound | Some obj \<Rightarrow> Inr obj, w)),
      api_list = (\<lambda>ns ls w. (Inr (filter (matching ns ls) (get w)), w)),
      api_create = (\<lambda>obj w.
        (case find_object (object_key obj) (get w) of
           Some _ \<Rightarrow> (Some AlreadyExists, w)
         | None \<Rightarrow> (None, put (get w @ [obj]) w))),
      api_patch = (\<lambda>old new w.
        (case find_object (object_key new) (get w) of
           None \<Rightarrow> (Inl NotFound, w)
         | Some _ \<Rightarrow> (Inr new, put (replace_object new (get w)) w))),
      api_delete = (\<lambda>k w.
        (case find_object k (get w) of
           None \<Rightarrow> (Some NotFound, w)
         | Some _ \<Rightarrow> (None, put (filter (\<lambda>obj. object_key obj \<noteq> k) (get w)) w))),
      api_upsert = (\<lambda>obj f w.
        (case find_object (object_key obj) (get w) of
           None \<Rightarrow>
             (case f obj of
                Mutated new \<Rightarrow> (Returned (Inr new), put (get w @ [new]) w)
              | MutateFailed e \<Rightarrow> (Returned (Inl (OtherError e)), w)
              | MutatePanicked p \<Rightarrow> (Panicked p, w))
         | Some old \<Rightarrow>
             (case f old of
                Mutated new \<Rightarrow> (Returned (Inr new), put (replace_object new (get w)) w)
              | MutateFailed e \<Rightarrow> (Returned (Inl (OtherError e)), w)
              | MutatePanicked p \<Rightarrow> (Panicked p, w))))\<rparr>"

text \<open>An API without objects, for the kinds a cluster does not have.\<close>

abbreviation absent :: "('o object_meta_scheme, 'w) kind_api" where
  "absent \<equiv> stored (\<lambda>_. []) (\<lambda>_ w. w)"

definition sample_platform :: "server client" where
  "sample_platform =
     \<lparr>clusters_api = stored sv_clusters (\<lambda>x. sv_clusters_update (\<lambda>_. x)),
      configs_api = stored sv_configs (\<lambda>x. sv_configs_update (\<lambda>_. x)),
      services_api = stored sv_services (\<lambda>x. sv_services_update (\<lambda>_. x)),
      secrets_api = stored sv_secrets (\<lambda>x. sv_secrets_update (\<lambda>_. x)),
      namespaces_api = absent,
      sources_api = (\<lambda>k. case k of
          HelmRepository \<Rightarrow> stored sv_helm (\<lambda>x. sv_helm_update (\<lambda>_. x))
        | GitRepository \<Rightarrow> stored sv_git (\<lambda>x. sv_git_update (\<lambda>_. x))
        | OCIRepository \<Rightarrow> stored sv_oci (\<lambda>x. sv_oci_update (\<lambda>_. x))),
      releases_api = stored sv_releases (\<lambda>x. sv_releases_update (\<lambda>_. x))\<rparr>"

definition sample_target :: "server client" where
  "sample_target =
     \<lparr>clusters_api = absent, configs_api = absent, services_api = absent,
      secrets_api = stored sv_target_secrets (\<lambda>x. sv_target_secrets_update (\<lambda>_. x)),
      namespaces_api = stored sv_target_namespaces (\<lambda>x. sv_target_namespaces_update (\<lambda>_. x)),
      sources_api = (\<lambda>_. absent), releases_api = absent\<rparr>"

subsection \<open>Libraries and a reconciler\<close>

definition meta_of :: "string \<Rightarrow> string \<Rightarrow> object_meta" where
  "meta_of ns name =
     \<lparr>meta_name = name, meta_namespace = ns, meta_labels = Map.empty, meta_annotations = Map.empty,
      meta_finalizers = [], meta_owners = [], meta_deleting = False\<rparr>"

definition sample_lib :: "server lib" where
  "sample_lib =
     \<lparr>lib_client_of = (\<lambda>a. if a = 0 then Some sample_target else None),
      lib_remove_annotation = (\<lambda>k c w.
        api_patch (clusters_api sample_platform) c (c\<lparr>meta_annotations := (meta_annotations c)(k := None)\<rparr>) w),
      lib_shorten = (\<lambda>s n.
        if n < 0 then Panicked LibraryPanic
        else if int (length s) \<le> n then Returned s else Returned (take (nat n) s)),
      lib_max_name_length = 63,
      lib_merge = foldl (++) Map.empty,
      lib_set_owner = (\<lambda>c os. Inr (if meta_name c \<in> set os then os else os @ [meta_name c])),
      lib_add_finalizer = (\<lambda>f fs. if f \<in> set fs then (False, fs) else (True, fs @ [f])),
      lib_remove_finalizer = (\<lambda>f fs. (f \<in> set fs, filter (\<lambda>g. g \<noteq> f) fs)),
      lib_project_sources = map,
      lib_project_requests = map,
      lib_range = (\<lambda>w xs. xs),
      lib_range_clusters = (\<lambda>xs. xs),
      lib_managed_by_label = ''by'',
      lib_managed_purpose_label = ''for'',
      lib_operation_annotation = ''op'',
      lib_operation_ignore = ''ignore'',
      lib_operation_reconcile = ''reconcile'',
      lib_openmcp_group = ''openmcp'',
      lib_flux_api_version = ''v1'',
      lib_create_replace = ''CreateReplace'',
      lib_kubeconfig_key = ''kubeconfig''\<rparr>"

definition granted_request :: access_request where
  "granted_request = object_meta.extend (meta_of ''c'' ''ar'')
     (access_request.fields True (Some ''kubeconfig''))"

definition sample_access :: "server access_api" where
  "sample_access =
     \<lparr>access_reconcile = (\<lambda>k w. ((\<lparr>requeue_after = 0\<rparr>, None), w)),
      access_request_of = (\<lambda>k w. ((Some granted_request, None), w)),
      access_cluster = (\<lambda>k w. ((Some 0, None), w)),
      access_reconcile_delete = (\<lambda>k w. ((\<lparr>requeue_after = 0\<rparr>, None), w))\<rparr>"

definition sample_reconciler :: "server reconciler" where
  "sample_reconciler =
     \<lparr>platform = sample_platform, event_recorder = None, provider_name = ''dns'',
      provider_namespace = ''sys'', environment = ''dev'', access_reconciler = sample_access\<rparr>"

lemma sample_run_laws: "run_laws sample_lib sample_reconciler"
  by (auto simp: run_laws_def range_law_def project_law_def finalizer_law_def patch_law_def
      annotation_law_def sample_lib_def sample_reconciler_def sample_platform_def stored_def object_key_def
      split: option.splits)

lemma sample_laws:
  "range_law sample_lib" "range_clusters_law sample_lib" "merge_law sample_lib" "owner_law sample_lib"
  "project_law sample_lib" "shorten_law sample_lib" "annotation_law sample_lib"
  "get_law sample_reconciler" "patch_law sample_reconciler"
  using sample_run_laws
  by (auto simp: run_laws_def range_law_def range_clusters_law_def merge_law_def owner_law_def
      shorten_law_def get_law_def sample_lib_def sample_reconciler_def sample_platform_def stored_def
      find_object_def find_Some_iff split: option.splits if_splits)

subsection \<open>Clusters and what surrounds them\<close>

definition own_labels :: labels where
  "own_labels = [''by'' \<mapsto> ''dns.DNSCluster'', ''for'' \<mapsto> ''c1'']"

definition sample_cluster :: "string list \<Rightarrow> labels \<Rightarrow> bool \<Rightarrow> cluster" where
  "sample_cluster fins annotations deleting =
     \<lparr>meta_name = ''c1'', meta_namespace = ''c'', meta_labels = Map.empty,
      meta_annotations = annotations, meta_finalizers = fins, meta_owners = [],
      meta_deleting = deleting, cluster_purposes = [''foo'']\<rparr>"

definition sample_purpose :: purpose_config where
  "sample_purpose =
     \<lparr>config_name = [], config_selector = None, config_interval = None, config_helm_values = Some ''{}''\<rparr>"

definition sample_config :: "purpose_config list \<Rightarrow> service_config" where
  "sample_config purposes =
     \<lparr>meta_name = ''dns'', meta_namespace = [], meta_labels = Map.empty,
      meta_annotations = Map.empty, meta_finalizers = [], meta_owners = [], meta_deleting = False,
      service_spec =
        \<lparr>spec_source = \<lparr>chart_name = ''dns@1'', source_helm = Some ''url'', source_git = None, source_oci = None\<rparr>,
         spec_secrets = Some
           \<lparr>to_platform_cluster = [],
            to_target_cluster = [\<lparr>copy_source = ''cred'', copy_target = Some ''creds''\<rparr>]\<rparr>,
         spec_interval = None, spec_purposes = purposes\<rparr>\<rparr>"

definition sample_service :: platform_service where
  "sample_service =
     \<lparr>meta_name = ''dns'', meta_namespace = [], meta_labels = Map.empty, meta_annotations = Map.empty,
      meta_finalizers = [], meta_owners = [], meta_deleting = False, image_pull_secrets = [''pull'']\<rparr>"

definition sample_secret :: "string \<Rightarrow> string \<Rightarrow> labels \<Rightarrow> secret" where
  "sample_secret ns name ls =
     \<lparr>meta_name = name, meta_namespace = ns, meta_labels = ls, meta_annotations = Map.empty,
      meta_finalizers = [], meta_owners = [], meta_deleting = False,
      secret_data = [''k'' \<mapsto> ''v''], secret_type = ''Opaque''\<rparr>"

definition sample_source :: "string \<Rightarrow> flux_source" where
  "sample_source name =
     \<lparr>meta_name = name, meta_namespace = ''c'', meta_labels = own_labels, meta_annotations = Map.empty,
      meta_finalizers = [], meta_owners = [], meta_deleting = False,
      source_type_kind = [], source_spec = ''old''\<rparr>"

definition sample_release :: helm_release where
  "sample_release = (new_release ''c'' ''c1.external-dns'')\<lparr>meta_labels := own_labels\<rparr>"

text \<open>A Cluster to deploy to, with a source of another kind and a copied secret left from before.\<close>

definition deploy_server :: server where
  "deploy_server =
     \<lparr>sv_clusters = [sample_cluster [] Map.empty False], sv_configs = [sample_config [sample_purpose]],
      sv_services = [sample_service],
      sv_secrets = [sample_secret ''sys'' ''pull'' Map.empty, sample_secret ''sys'' ''cred'' Map.empty,
                    sample_secret ''c'' ''old'' own_labels],
      sv_helm = [], sv_git = [sample_source ''git''], sv_oci = [], sv_releases = [],
      sv_target_namespaces = [], sv_target_secrets = []\<rparr>"

text \<open>A Cluster that is being deleted, after its HelmRelease is gone, and one before that.\<close>

definition the_finalizer :: string where
  "the_finalizer = ''platformservice.openmcp/dns''"

definition delete_server :: server where
  "delete_server = deploy_server
     \<lparr>sv_clusters := [sample_cluster [the_finalizer] Map.empty True], sv_secrets := [sample_secret ''c'' ''pull'' own_labels],
      sv_target_secrets := [sample_secret ''external-dns'' ''creds'' own_labels]\<rparr>"

definition release_server :: server where
  "release_server = delete_server\<lparr>sv_releases := [sample_release]\<rparr>"

subsection \<open>Outlines of logs\<close>

text \<open>The calls of a log without the parts that hold functions, so that logs can be compared.\<close>

datatype outline =
  OGet side resource namespaced_name bool
| OList side resource string "namespaced_name list"
| OCreate side resource namespaced_name bool
| OPatch side resource namespaced_name "string list" bool
| ODelete side resource namespaced_name bool
| OUpsert side resource namespaced_name bool
| OAccess string
| ORemoveAnnotation string
| OEvent

fun outline_of :: "call \<Rightarrow> outline" where
  "outline_of (CGet sd res nn ans) = OGet sd res nn (\<not> isl ans)"
| "outline_of (CList sd res ns _ ans) = OList sd res ns (case ans of Inl _ \<Rightarrow> [] | Inr names \<Rightarrow> names)"
| "outline_of (CCreate sd res nn ans) = OCreate sd res nn (ans = None)"
| "outline_of (CPatch sd res nn fins ans) = OPatch sd res nn fins (ans = None)"
| "outline_of (CDelete sd res nn ans) = ODelete sd res nn (ans = None)"
| "outline_of (CUpsert sd res nn ans) = OUpsert sd res nn (case ans of Returned (Inr _) \<Rightarrow> True | _ \<Rightarrow> False)"
| "outline_of (CAccessReconcile _ _ _) = OAccess ''reconcile''"
| "outline_of (CAccessRequest _ _ _) = OAccess ''request''"
| "outline_of (CAccess _ _ _) = OAccess ''access''"
| "outline_of (CAccessDelete _ _ _) = OAccess ''delete''"
| "outline_of (CRemoveAnnotation k _ _) = ORemoveAnnotation k"
| "outline_of (CEvent _) = OEvent"

end
