(* ===== verification/Witnesses.thy ===== *)
theory Witnesses
  imports Sample_Environment
begin

section \<open>Witnesses\<close>

text \<open>
  Every property with a hypothesis is applied here at a concrete input of the sample environment where
  the hypotheses hold, unless its own theory does so. The logs of the sample runs are computed by
  evaluation in the kernel.
\<close>

subsection \<open>Sample runs\<close>

definition delete_log :: "call list" where
  "delete_log = run_log sample_lib sample_reconciler
     (sample_cluster [the_finalizer] Map.empty True) [] delete_server"

definition release_log :: "call list" where
  "release_log = run_log sample_lib sample_reconciler
     (sample_cluster [the_finalizer] Map.empty True) [] release_server"

definition deploy_log :: "call list" where
  "deploy_log = run_log sample_lib sample_reconciler (sample_cluster [] Map.empty False) [] deploy_server"

definition annotated :: cluster where
  "annotated = sample_cluster [] [''op'' \<mapsto> ''reconcile''] False"

definition annotated_log :: "call list" where
  "annotated_log = run_log sample_lib sample_reconciler annotated []
     (deploy_server\<lparr>sv_clusters := [annotated]\<rparr>)"

lemma sample_lengths:
  "length delete_log = 16" "length release_log = 4" "length deploy_log = 26" "length annotated_log = 27"
  by code_simp+

lemma sample_calls:
  "outline_of (delete_log ! 11) = ODelete OnPlatform (RSource GitRepository)
     \<lparr>nn_namespace = ''c'', nn_name = ''git''\<rparr> True"
  "outline_of (delete_log ! 14) = OAccess ''delete''"
  "outline_of (delete_log ! 15) = OPatch OnPlatform RCluster \<lparr>nn_namespace = ''c'', nn_name = ''c1''\<rparr> [] True"
  "outline_of (release_log ! 3) = ODelete OnPlatform RRelease
     \<lparr>nn_namespace = ''c'', nn_name = ''c1.external-dns''\<rparr> True"
  "outline_of (deploy_log ! 8) = OUpsert OnPlatform RSecret \<lparr>nn_namespace = ''c'', nn_name = ''pull''\<rparr> True"
  "outline_of (deploy_log ! 17) = OCreate (OnTarget 0) RNamespace
     \<lparr>nn_namespace = [], nn_name = ''external-dns''\<rparr> True"
  "outline_of (deploy_log ! 25) = OUpsert OnPlatform RRelease
     \<lparr>nn_namespace = ''c'', nn_name = ''c1.external-dns''\<rparr> True"
  "outline_of (annotated_log ! 0) = ORemoveAnnotation ''op''"
  by code_simp+

lemma log_split: "i < length log \<Longrightarrow> \<exists>pre post. log = pre @ log ! i # post"
  using id_take_nth_drop by blast

lemma outline_inversion:
  "outline_of call = ODelete sd res nn b \<Longrightarrow> \<exists>ans. call = CDelete sd res nn ans"
  "outline_of call = OPatch sd res nn fins b \<Longrightarrow> \<exists>ans. call = CPatch sd res nn fins ans"
  "outline_of call = OUpsert sd res nn b \<Longrightarrow> \<exists>ans. call = CUpsert sd res nn ans"
  "outline_of call = OCreate sd res nn b \<Longrightarrow> \<exists>ans. call = CCreate sd res nn ans"
  "outline_of call = OAccess ''delete'' \<Longrightarrow> \<exists>nn d ans. call = CAccessDelete nn d ans"
  "outline_of call = ORemoveAnnotation k \<Longrightarrow> \<exists>nn ans. call = CRemoveAnnotation k nn ans"
  by (cases call; simp; blast?)+

lemma call_in_log:
  assumes "i < length log" and "\<exists>x. log ! i = f x"
  shows "\<exists>pre x post. log = pre @ f x # post"
  using log_split [OF assms(1)] assms(2) by metis

subsection \<open>Runs\<close>

abbreviation gone_cluster :: cluster where
  "gone_cluster \<equiv> sample_cluster [the_finalizer] Map.empty True"

abbreviation new_cluster :: cluster where
  "new_cluster \<equiv> sample_cluster [] Map.empty False"

theorem finalizer_removed_after_teardown_witness:
  "\<exists>pre ans post.
     delete_log = pre @ CPatch OnPlatform RCluster \<lparr>nn_namespace = ''c'', nn_name = ''c1''\<rparr> [] ans # post \<and>
     release_absent sample_lib gone_cluster pre \<and>
     cleaned_up sample_lib sample_reconciler gone_cluster RSecret pre \<and>
     target_secrets_deleted sample_lib sample_reconciler gone_cluster pre"
proof -
  obtain pre ans post where split: "delete_log =
      pre @ CPatch OnPlatform RCluster \<lparr>nn_namespace = ''c'', nn_name = ''c1''\<rparr> [] ans # post"
    using call_in_log [OF _ outline_inversion(2) [OF sample_calls(3)]] by (auto simp: sample_lengths)
  from finalizer_removed_after_teardown [OF sample_run_laws split [unfolded delete_log_def]]
  show ?thesis using split by (intro exI [of _ pre] exI [of _ ans] exI [of _ post]) simp
qed

theorem finalizer_precedes_writes_witness:
  "\<exists>pre ans post.
     deploy_log = pre @ CUpsert OnPlatform RSecret \<lparr>nn_namespace = ''c'', nn_name = ''pull''\<rparr> ans # post \<and>
     finalizer_seen sample_lib new_cluster pre"
proof -
  obtain pre ans post where split: "deploy_log =
      pre @ CUpsert OnPlatform RSecret \<lparr>nn_namespace = ''c'', nn_name = ''pull''\<rparr> ans # post"
    using call_in_log [OF _ outline_inversion(3) [OF sample_calls(5)]] by (auto simp: sample_lengths)
  from finalizer_precedes_writes [OF sample_run_laws split [unfolded deploy_log_def]]
  show ?thesis using split by auto
qed

theorem only_labelled_objects_deleted_witness:
  "\<exists>pre ans post names.
     delete_log = pre @ CDelete OnPlatform (RSource GitRepository)
       \<lparr>nn_namespace = ''c'', nn_name = ''git''\<rparr> ans # post \<and>
     CList OnPlatform (RSource GitRepository) ''c''
       (map_of (expected_labels sample_lib sample_reconciler ''c1'')) (Inr names) \<in> set pre"
proof -
  obtain pre ans post where split: "delete_log = pre @ CDelete OnPlatform (RSource GitRepository)
      \<lparr>nn_namespace = ''c'', nn_name = ''git''\<rparr> ans # post"
    using call_in_log [OF _ outline_inversion(1) [OF sample_calls(1)]] by (auto simp: sample_lengths)
  from only_labelled_objects_deleted [OF sample_run_laws split [unfolded delete_log_def]]
  show ?thesis using split by (auto simp: sample_cluster_def)
qed

theorem only_own_release_deleted_witness:
  "\<exists>pre ans post m.
     release_log = pre @ CDelete OnPlatform RRelease
       \<lparr>nn_namespace = ''c'', nn_name = ''c1.external-dns''\<rparr> ans # post \<and>
     has_labels (expected_labels sample_lib sample_reconciler ''c1'') (meta_labels (m :: object_meta)) \<and>
     (\<exists>key. last pre = CGet OnPlatform RRelease key (Inr m))"
proof -
  obtain pre ans post where split: "release_log = pre @ CDelete OnPlatform RRelease
      \<lparr>nn_namespace = ''c'', nn_name = ''c1.external-dns''\<rparr> ans # post"
    using call_in_log [OF _ outline_inversion(1) [OF sample_calls(4)]] by (auto simp: sample_lengths)
  from only_own_release_deleted [OF sample_run_laws split [unfolded release_log_def]]
  show ?thesis using split by (auto simp: sample_cluster_def)
qed

theorem foreign_secrets_not_overwritten_witness:
  "\<exists>pre ans post key found.
     deploy_log = pre @ CUpsert OnPlatform RSecret \<lparr>nn_namespace = ''c'', nn_name = ''pull''\<rparr> ans # post \<and>
     last pre = CGet OnPlatform RSecret key found \<and> nn_namespace key = ''c''"
proof -
  obtain pre ans post where split: "deploy_log =
      pre @ CUpsert OnPlatform RSecret \<lparr>nn_namespace = ''c'', nn_name = ''pull''\<rparr> ans # post"
    using call_in_log [OF _ outline_inversion(3) [OF sample_calls(5)]] by (auto simp: sample_lengths)
  from foreign_secrets_not_overwritten [OF sample_run_laws split [unfolded deploy_log_def]]
  show ?thesis using split by (auto simp: sample_cluster_def)
qed

theorem release_written_after_source_and_namespace_witness:
  "\<exists>pre ans post k nn'.
     deploy_log = pre @ CUpsert OnPlatform RRelease
       \<lparr>nn_namespace = ''c'', nn_name = ''c1.external-dns''\<rparr> ans # post \<and>
     CUpsert OnPlatform (RSource k) \<lparr>nn_namespace = ''c'', nn_name = ''c1.external-dns''\<rparr>
       (Returned (Inr nn')) \<in> set pre"
proof -
  obtain pre ans post where split: "deploy_log = pre @ CUpsert OnPlatform RRelease
      \<lparr>nn_namespace = ''c'', nn_name = ''c1.external-dns''\<rparr> ans # post"
    using call_in_log [OF _ outline_inversion(3) [OF sample_calls(7)]] by (auto simp: sample_lengths)
  from release_written_after_source_and_namespace [OF sample_run_laws split [unfolded deploy_log_def]]
  show ?thesis using split by auto
qed

theorem access_given_up_after_cleanup_witness:
  "\<exists>pre nn d ans post. delete_log = pre @ CAccessDelete nn d ans # post \<and>
     nn = \<lparr>nn_namespace = ''c'', nn_name = ''c1''\<rparr> \<and> release_absent sample_lib gone_cluster pre \<and>
     cleaned_up sample_lib sample_reconciler gone_cluster (RSource GitRepository) pre"
proof -
  obtain nn d ans where "delete_log ! 14 = CAccessDelete nn d ans"
    using outline_inversion(5) [OF sample_calls(2)] by blast
  then obtain pre post where split: "delete_log = pre @ CAccessDelete nn d ans # post"
    using log_split [of 14 delete_log] by (auto simp: sample_lengths)
  from access_given_up_after_cleanup [OF sample_run_laws split [unfolded delete_log_def]]
  show ?thesis using split by (auto simp: sample_cluster_def object_key_def)
qed

theorem writes_confined_witness:
  "\<exists>pre ans post. deploy_log = pre @ CCreate (OnTarget 0) RNamespace
       \<lparr>nn_namespace = [], nn_name = ''external-dns''\<rparr> ans # post \<and>
     target_cluster_namespace = ''external-dns''"
proof -
  obtain pre ans post where split: "deploy_log = pre @ CCreate (OnTarget 0) RNamespace
      \<lparr>nn_namespace = [], nn_name = ''external-dns''\<rparr> ans # post"
    using call_in_log [OF _ outline_inversion(4) [OF sample_calls(6)]] by (auto simp: sample_lengths)
  from writes_confined [OF sample_run_laws split [unfolded deploy_log_def]]
  show ?thesis using split by auto
qed

theorem only_generic_annotation_removed_witness:
  "\<exists>pre nn ans post. annotated_log = pre @ CRemoveAnnotation ''op'' nn ans # post \<and>
     ''op'' \<noteq> dns_operation_annotation sample_lib"
proof -
  obtain nn ans where "annotated_log ! 0 = CRemoveAnnotation ''op'' nn ans"
    using outline_inversion(6) [OF sample_calls(8)] by blast
  then obtain pre post where split: "annotated_log = pre @ CRemoveAnnotation ''op'' nn ans # post"
    using log_split [of 0 annotated_log] by (auto simp: sample_lengths)
  from only_generic_annotation_removed [OF sample_run_laws split [unfolded annotated_log_def]]
  show ?thesis using split by auto
qed

theorem reconcile_calls_allowed_witness:
  "\<exists>call post. reconcile_log sample_lib sample_reconciler \<lparr>nn_namespace = ''c'', nn_name = ''c1''\<rparr> []
        deploy_server = [] @ call # post \<and>
     allowed (run_scope sample_lib sample_reconciler new_cluster) [] call"
proof -
  let ?req = "\<lparr>nn_namespace = ''c'', nn_name = ''c1''\<rparr>"
  have read: "api_get (clusters_api (platform sample_reconciler)) ?req deploy_server =
      (Inr new_cluster, deploy_server)"
    by (simp add: sample_reconciler_def sample_platform_def stored_def deploy_server_def
        find_object_def object_key_def sample_cluster_def)
  have "length (reconcile_log sample_lib sample_reconciler ?req [] deploy_server) = 27" by code_simp
  then obtain call post where split:
    "reconcile_log sample_lib sample_reconciler ?req [] deploy_server = [] @ call # post"
    by (cases "reconcile_log sample_lib sample_reconciler ?req [] deploy_server") auto
  from reconcile_calls_allowed [OF sample_run_laws read split] split show ?thesis by blast
qed

theorem ignored_cluster_left_alone_witness:
  "length (reconcile_log sample_lib sample_reconciler \<lparr>nn_namespace = ''c'', nn_name = ''c1''\<rparr> []
     (deploy_server\<lparr>sv_clusters := [sample_cluster [] [''dns.op'' \<mapsto> ''ignore''] False]\<rparr>)) = 1"
proof -
  let ?c = "sample_cluster [] [''dns.op'' \<mapsto> ''ignore''] False"
  let ?w = "deploy_server\<lparr>sv_clusters := [?c]\<rparr>"
  let ?req = "\<lparr>nn_namespace = ''c'', nn_name = ''c1''\<rparr>"
  have read: "api_get (clusters_api (platform sample_reconciler)) ?req ?w = (Inr ?c, ?w)"
    by (simp add: sample_reconciler_def sample_platform_def stored_def
        find_object_def object_key_def sample_cluster_def)
  have op: "requested_operation sample_lib ?c = Some (lib_operation_ignore sample_lib)"
    by (simp add: requested_operation_def dns_operation_annotation_def sample_lib_def sample_cluster_def)
  from ignored_cluster_left_alone [OF read op] show ?thesis by simp
qed

theorem unmanaged_cluster_left_alone_witness:
  "length (run_log sample_lib sample_reconciler new_cluster [] (deploy_server\<lparr>sv_configs := [sample_config []]\<rparr>)) = 2"
proof -
  let ?w = "deploy_server\<lparr>sv_configs := [sample_config []]\<rparr>"
  let ?key = "\<lparr>nn_namespace = [], nn_name = provider_name sample_reconciler\<rparr>"
  have op: "requested_operation sample_lib new_cluster
      \<notin> {Some (lib_operation_ignore sample_lib), Some (lib_operation_reconcile sample_lib)}"
    by (simp add: requested_operation_def sample_cluster_def)
  have fin: "cluster_finalizer sample_lib \<notin> set (meta_finalizers new_cluster)"
    by (simp add: sample_cluster_def)
  have cfg: "api_get (configs_api (platform sample_reconciler)) ?key ?w = (Inr (sample_config []), ?w)"
    by (simp add: sample_reconciler_def sample_platform_def stored_def find_object_def object_key_def
        sample_config_def)
  have svc: "api_get (services_api (platform sample_reconciler)) ?key ?w = (Inr sample_service, ?w)"
    by (simp add: sample_reconciler_def sample_platform_def stored_def find_object_def object_key_def
        sample_service_def deploy_server_def)
  have none: "meta_deleting new_cluster \<or>
      select_config (spec_purposes (service_spec (sample_config []))) (cluster_purposes new_cluster) = None"
    by (simp add: sample_config_def)
  from unmanaged_cluster_left_alone [OF op fin cfg svc none, of "[]", THEN arg_cong [where f = length]]
  show ?thesis by simp
qed

subsection \<open>Names and texts\<close>

theorem resource_name_within_limit_witness:
  "int (length ''c1.external-dns'') \<le> lib_max_name_length sample_lib"
proof -
  have "cluster_based_resource_name sample_lib ''c1'' = Returned ''c1.external-dns''" by code_simp
  from resource_name_within_limit [OF sample_laws(6) this] show ?thesis by simp
qed

theorem resource_names_distinct_witness:
  "cluster_based_resource_name sample_lib ''c1'' \<noteq> cluster_based_resource_name sample_lib ''c2''"
  using resource_names_distinct [OF sample_laws(6), of "''c1''" "''c2''"]
  by (simp add: sample_lib_def name_suffix_def)

theorem values_fill_every_placeholder_witness:
  "expand_values sample_reconciler new_cluster
     (''{ns: '' @ escaped_token PhClusterNamespace @ ''}'') = ''{ns: c}''"
proof -
  have "\<forall>p. backslash \<notin> set (placeholder_value sample_reconciler new_cluster p)"
    by (intro allI, case_tac p)
       (simp_all add: placeholder_value_def sample_reconciler_def sample_cluster_def backslash_def)
  from values_fill_every_placeholder [of "[Plain ''{ns: '', Hole PhClusterNamespace, Plain ''}'']", OF _ this]
  show ?thesis
    by (simp add: plain_segments_def backslash_def filled_text_def placeholder_value_def sample_cluster_def)
qed

subsection \<open>Secrets and sources\<close>

theorem watched_secrets_are_copied_secrets_witness:
  "extract_referenced_secret_names (sample_config []) (Some sample_service) =
     fst ` set (secret_map [''pull''] []) \<union>
     fst ` set (secret_map [''pull''] [\<lparr>copy_source = ''cred'', copy_target = Some ''creds''\<rparr>])"
  using watched_secrets_are_copied_secrets [where rr = "empty_result\<lparr>rr_provider_config := Some (sample_config [])\<rparr>"
      and config = "sample_config []" and svc = sample_service]
  by (simp add: sample_config_def sample_service_def)

definition sample_copy :: secret where
  "sample_copy =
     (case secret_mutation sample_lib (expected_labels sample_lib sample_reconciler ''c1'')
        (sample_secret ''sys'' ''pull'' Map.empty) (new_secret ''c'' ''pull'') of
        Mutated obj \<Rightarrow> obj | _ \<Rightarrow> undefined)"

lemma sample_labels_distinct: "distinct (map fst (expected_labels sample_lib sample_reconciler ''c1''))"
  by code_simp

theorem secret_copy_contents_witness:
  "has_labels (expected_labels sample_lib sample_reconciler ''c1'') (meta_labels sample_copy) \<and>
   object_key sample_copy = \<lparr>nn_namespace = ''c'', nn_name = ''pull''\<rparr>"
proof -
  have "secret_mutation sample_lib (expected_labels sample_lib sample_reconciler ''c1'')
      (sample_secret ''sys'' ''pull'' Map.empty) (new_secret ''c'' ''pull'') = Mutated sample_copy"
    by (simp add: sample_copy_def secret_mutation_def)
  from secret_copy_contents [OF sample_laws(3) sample_labels_distinct this] show ?thesis by simp
qed

theorem obsolete_sources_exact_witness:
  "set (obsolete_sources sample_lib HelmRepository ''n''
     [sample_source ''n'', sample_source ''m''] [sample_source ''n''] []) =
   {(HelmRepository, sample_source ''m''), (GitRepository, sample_source ''n'')}"
  unfolding obsolete_sources_exact [OF sample_laws(5)]
  by (auto simp: sample_source_def split: source_kind.splits)

subsection \<open>The HelmRelease\<close>

definition sample_result :: reconcile_result where
  "sample_result = empty_result
     \<lparr>rr_config := Some sample_purpose, rr_provider_config := Some (sample_config [sample_purpose]),
      rr_access_request := Some granted_request, rr_source_kind := Some HelmRepository\<rparr>"

definition filled_release :: helm_release where
  "filled_release =
     (case release_mutation sample_lib sample_reconciler new_cluster
        (expected_labels sample_lib sample_reconciler ''c1'') sample_result (new_release ''c'' ''n'') of
        Mutated obj \<Rightarrow> obj | _ \<Rightarrow> undefined)"

lemma filled_release:
  "release_mutation sample_lib sample_reconciler new_cluster
     (expected_labels sample_lib sample_reconciler ''c1'') sample_result (new_release ''c'' ''n'') =
   Mutated filled_release"
proof -
  have "(case release_mutation sample_lib sample_reconciler new_cluster
      (expected_labels sample_lib sample_reconciler ''c1'') sample_result (new_release ''c'' ''n'') of
      Mutated obj \<Rightarrow> True | _ \<Rightarrow> False)" by code_simp
  then show ?thesis unfolding filled_release_def by (auto split: mutated.splits)
qed

theorem release_mutation_idempotent_witness:
  "release_mutation sample_lib sample_reconciler new_cluster
     (expected_labels sample_lib sample_reconciler ''c1'') sample_result filled_release =
   Mutated filled_release"
  by (rule release_mutation_idempotent [OF sample_laws(3,4) filled_release])

theorem release_contents_witness:
  "hr_interval filled_release = one_hour \<and> hr_chart_ref filled_release = None"
  using release_contents [OF sample_laws(3) sample_labels_distinct filled_release]
  by (simp add: sample_result_def sample_purpose_def sample_config_def)

subsection \<open>Registry and watches\<close>

theorem config_change_requests_known_clusters_witness:
  "\<lparr>nn_namespace = ''c'', nn_name = ''c1''\<rparr> \<in>
     set (requests_for_known sample_lib
       (registry_after [Add (meta_of ''c'' ''c2''), Add (meta_of ''c'' ''c1''), Remove ''c2'' ''c'']))"
  using config_change_requests_known_clusters [OF sample_laws(2,5),
      of "[Add (meta_of ''c'' ''c2''), Add (meta_of ''c'' ''c1''), Remove ''c2'' ''c'']"
         "\<lparr>nn_namespace = ''c'', nn_name = ''c1''\<rparr>"]
  by (simp add: meta_of_def object_key_def)

theorem secret_change_requests_known_clusters_witness:
  "set (fst (map_secret_to_requests sample_lib sample_reconciler [\<lparr>nn_namespace = ''c'', nn_name = ''c1''\<rparr>]
     (Some (sample_secret ''sys'' ''cred'' Map.empty)) deploy_server)) =
   {\<lparr>nn_namespace = ''c'', nn_name = ''c1''\<rparr>}"
proof -
  let ?key = "\<lparr>nn_namespace = [], nn_name = provider_name sample_reconciler\<rparr>"
  have cfg: "api_get (configs_api (platform sample_reconciler)) ?key deploy_server =
      (Inr (sample_config [sample_purpose]), deploy_server)"
    by (simp add: sample_reconciler_def sample_platform_def stored_def find_object_def object_key_def
        sample_config_def deploy_server_def)
  have svc: "api_get (services_api (platform sample_reconciler)) ?key deploy_server =
      (Inr sample_service, deploy_server)"
    by (simp add: sample_reconciler_def sample_platform_def stored_def find_object_def object_key_def
        sample_service_def deploy_server_def)
  from secret_change_requests_known_clusters [OF sample_laws(2,5) cfg svc] show ?thesis
    by (simp add: sample_secret_def sample_reconciler_def sample_config_def sample_service_def
        extract_referenced_secret_names_def)
qed

text \<open>The state after the sample deployment has been reconciled from the start.\<close>

definition sample_start :: "server controller_state" where
  "sample_start = \<lparr>world = deploy_server, known_clusters = initial_known_clusters\<rparr>"

abbreviation sample_request :: namespaced_name where
  "sample_request \<equiv> \<lparr>nn_namespace = ''c'', nn_name = ''c1''\<rparr>"

theorem reconcile_touches_own_entry_witness:
  "\<lparr>nn_namespace = ''c'', nn_name = ''c2''\<rparr> \<notin>
     set (known_clusters (snd (Reconcile sample_lib sample_reconciler sample_request sample_start)))"
  using reconcile_touches_own_entry [OF sample_laws(8,9,7), of sample_request sample_start
      "fst (Reconcile sample_lib sample_reconciler sample_request sample_start)"
      "snd (Reconcile sample_lib sample_reconciler sample_request sample_start)"
      "\<lparr>nn_namespace = ''c'', nn_name = ''c2''\<rparr>"]
  by (simp add: sample_start_def initial_known_clusters_def)

theorem config_change_requests_reconciled_clusters_witness:
  "set (requests_for_known sample_lib
     (known_clusters (snd (Reconcile sample_lib sample_reconciler sample_request sample_start))))
   \<subseteq> {sample_request}"
proof -
  have "reachable sample_lib sample_reconciler [] sample_start"
    unfolding sample_start_def by (rule reachable.start)
  then have "reachable sample_lib sample_reconciler [sample_request]
      (snd (Reconcile sample_lib sample_reconciler sample_request sample_start))"
    by (rule reachable.reconciled) (rule surjective_pairing)
  from config_change_requests_reconciled_clusters [OF this sample_laws(8,9,7,2,5)]
  show ?thesis by simp
qed

theorem vanished_cluster_is_forgotten_witness:
  "\<exists>s'. Reconcile sample_lib sample_reconciler \<lparr>nn_namespace = ''c'', nn_name = ''c9''\<rparr> sample_start =
     (Returned (\<lparr>requeue_after = 0\<rparr>, None), s')"
proof -
  have "api_get (clusters_api (platform sample_reconciler)) \<lparr>nn_namespace = ''c'', nn_name = ''c9''\<rparr>
      (world sample_start) = (Inl NotFound, deploy_server)"
    by (simp add: sample_start_def sample_reconciler_def sample_platform_def stored_def find_object_def
        object_key_def deploy_server_def sample_cluster_def)
  from vanished_cluster_is_forgotten [OF this] show ?thesis by auto
qed

subsection \<open>Phases\<close>

theorem run_keeps_its_configuration_witness:
  "\<exists>rr' s'. reconcile_configured sample_lib sample_reconciler new_cluster [] empty_result (sample_config [])
       sample_start = (Returned rr', s') \<and> rr_config rr' = None"
proof -
  have "reconcile_configured sample_lib sample_reconciler new_cluster [] empty_result (sample_config [])
      sample_start = (Returned empty_result, sample_start)"
    by (simp add: reconcile_configured_def handle_delete_def sample_config_def sample_cluster_def
        sample_start_def initial_known_clusters_def remove_known_cluster_def remove_known_cluster_raw_def
        Let_def empty_result_def)
  from run_keeps_its_configuration [OF this] this show ?thesis by (simp add: sample_config_def)
qed

text \<open>The same reconciler with an access library whose AccessRequest cannot be read.\<close>

definition broken_reconciler :: "server reconciler" where
  "broken_reconciler = sample_reconciler\<lparr>access_reconciler := sample_access
     \<lparr>access_request_of := (\<lambda>k w. ((None, Some (OtherError ''gone'')), w))\<rparr>\<rparr>"

definition loaded_result :: reconcile_result where
  "loaded_result = empty_result
     \<lparr>rr_provider_config := Some (sample_config []), rr_platform_service := Some sample_service\<rparr>"

theorem access_request_error_stops_after_copying_witness:
  "\<exists>rr' w'. deploy_with_access sample_lib broken_reconciler new_cluster [] loaded_result deploy_server =
     (Returned rr', w') \<and> rr_error rr' = Some (reasoned (AccessRequestFailed (OtherError ''gone'')) InternalError)"
proof -
  let ?acc = "access_reconciler broken_reconciler" and ?key = "object_key new_cluster"
  have calls: "access_reconcile ?acc ?key deploy_server = ((\<lparr>requeue_after = 0\<rparr>, None), deploy_server)"
    "requeue_after \<lparr>requeue_after = 0\<rparr> \<le> 0"
    "access_request_of ?acc ?key deploy_server = ((None, Some (OtherError ''gone'')), deploy_server)"
    "access_cluster ?acc ?key deploy_server = ((Some 0, None), deploy_server)"
    by (simp_all add: broken_reconciler_def sample_access_def)
  let ?copy = "copy_secrets sample_lib broken_reconciler (meta_namespace new_cluster) []
      (loaded_result\<lparr>rr_error := None, rr_access_request := None, rr_access := Some 0\<rparr>)
      PlatformClusterCopy deploy_server"
  have "case fst ?copy of Returned (rr, _) \<Rightarrow> rr_error rr = None | Panicked _ \<Rightarrow> False" by code_simp
  then obtain rr0 copied w' where copy: "?copy = (Returned (rr0, copied), w')" and "rr_error rr0 = None"
    by (cases ?copy) (auto split: outcome.splits)
  with access_request_error_stops_after_copying [OF calls copy] show ?thesis by auto
qed

end
