(* ===== verification/Watches.thy ===== *)
theory Watches
  imports Controller
begin

section \<open>What triggers a reconciliation\<close>

text \<open>
  \<open>SetupWithManager\<close> of \<open>internal/controllers/cluster/controller.go\<close>: the three watches of the
  controller, each with the predicates that filter its events and the handler that turns an event
  into requests. Predicates and handlers come from controller-runtime and controller-utils and are
  parameters; what their documentation promises is stated in \<open>predicate_law\<close> and \<open>handler_law\<close>.
\<close>

subsection \<open>Events, predicates and handlers\<close>

datatype 'o watch_event = Created 'o | Updated 'o 'o | Deleted 'o | Generic 'o

primrec event_object :: "'o watch_event \<Rightarrow> 'o" where
  "event_object (Created obj) = obj"
| "event_object (Updated old new) = new"
| "event_object (Deleted obj) = obj"
| "event_object (Generic obj) = obj"

primrec event_objects :: "'o watch_event \<Rightarrow> 'o list" where
  "event_objects (Created obj) = [obj]"
| "event_objects (Updated old new) = [old, new]"
| "event_objects (Deleted obj) = [obj]"
| "event_objects (Generic obj) = [obj]"

type_synonym 'o event_filter = "'o watch_event \<Rightarrow> bool"

record 'o predicates =
  pred_and :: "'o event_filter list \<Rightarrow> 'o event_filter"
  pred_or :: "'o event_filter list \<Rightarrow> 'o event_filter"
  pred_not :: "'o event_filter \<Rightarrow> 'o event_filter"
  pred_generation_changed :: "'o event_filter"
  pred_deletion_changed :: "'o event_filter"
  pred_got_annotation :: "string \<Rightarrow> string \<Rightarrow> 'o event_filter"
  pred_lost_annotation :: "string \<Rightarrow> string \<Rightarrow> 'o event_filter"
  pred_has_annotation :: "string \<Rightarrow> string \<Rightarrow> 'o event_filter"
  pred_exact_name :: "string \<Rightarrow> string \<Rightarrow> 'o event_filter"
  pred_of_object :: "('o \<Rightarrow> bool) \<Rightarrow> 'o event_filter"

text \<open>
  \<open>enqueue_object\<close> is the handler that \<open>For\<close> installs, \<open>enqueue_mapped\<close> is
  \<open>handler.EnqueueRequestsFromMapFunc\<close>; a mapping may read from the API server.
\<close>

record ('o, 'w) event_handlers =
  enqueue_object :: "'o watch_event \<Rightarrow> namespaced_name list"
  enqueue_mapped :: "('o \<Rightarrow> 'w \<Rightarrow> namespaced_name list \<times> 'w) \<Rightarrow> 'o watch_event \<Rightarrow> 'w \<Rightarrow> namespaced_name list \<times> 'w"

record 'w watch_lib =
  cluster_predicates :: "cluster predicates"
  config_predicates :: "service_config predicates"
  secret_predicates :: "secret predicates"
  cluster_handlers :: "(cluster, 'w) event_handlers"
  config_handlers :: "(service_config, 'w) event_handlers"
  secret_handlers :: "(secret, 'w) event_handlers"

subsection \<open>The watches\<close>

definition cluster_watch_filter :: "cluster predicates \<Rightarrow> 'w lib \<Rightarrow> cluster event_filter" where
  "cluster_watch_filter P L =
     pred_and P
       [pred_or P
          [pred_generation_changed P,
           pred_deletion_changed P,
           pred_got_annotation P (lib_operation_annotation L) (lib_operation_reconcile L),
           pred_lost_annotation P (lib_operation_annotation L) (lib_operation_ignore L),
           pred_got_annotation P (dns_operation_annotation L) (lib_operation_reconcile L),
           pred_lost_annotation P (dns_operation_annotation L) (lib_operation_ignore L)],
        pred_not P
          (pred_or P
             [pred_has_annotation P (lib_operation_annotation L) (lib_operation_ignore L),
              pred_has_annotation P (dns_operation_annotation L) (lib_operation_ignore L)])]"

definition config_watch_filter :: "service_config predicates \<Rightarrow> 'w reconciler \<Rightarrow> service_config event_filter" where
  "config_watch_filter P r =
     pred_and P [pred_generation_changed P, pred_exact_name P (provider_name r) []]"

definition secret_watch_filter :: "secret predicates \<Rightarrow> 'w reconciler \<Rightarrow> secret event_filter" where
  "secret_watch_filter P r = pred_of_object P (\<lambda>obj. meta_namespace obj = provider_namespace r)"

datatype watched =
  ClusterChanged "cluster watch_event"
| ConfigChanged "service_config watch_event"
| SecretChanged "secret watch_event"

text \<open>The requests that an event leads to, with the registry as it is when the event is handled.\<close>

definition watch_requests ::
  "'w watch_lib \<Rightarrow> 'w lib \<Rightarrow> 'w reconciler \<Rightarrow> registry \<Rightarrow> watched \<Rightarrow> 'w \<Rightarrow> namespaced_name list \<times> 'w" where
  "watch_requests W L r known ev w =
     (case ev of
        ClusterChanged e \<Rightarrow>
          if cluster_watch_filter (cluster_predicates W) L e
          then (enqueue_object (cluster_handlers W) e, w) else ([], w)
      | ConfigChanged e \<Rightarrow>
          if config_watch_filter (config_predicates W) r e
          then enqueue_mapped (config_handlers W) (\<lambda>_ w. (requests_for_known L known, w)) e w
          else ([], w)
      | SecretChanged e \<Rightarrow>
          if secret_watch_filter (secret_predicates W) r e
          then enqueue_mapped (secret_handlers W) (\<lambda>obj. map_secret_to_requests L r known (Some obj)) e w
          else ([], w))"

subsection \<open>Documented behaviour of predicates and handlers\<close>

text \<open>
  The combinators work pointwise. An annotation is had, got or lost by comparing the value on the new
  object with that on the old one; the law says nothing about what \<open>Got\<close> and \<open>Lost\<close> make of events
  other than updates.
\<close>

definition predicate_law :: "'x object_meta_scheme predicates \<Rightarrow> bool" where
  "predicate_law P \<longleftrightarrow>
     (\<forall>fs e. pred_and P fs e = list_all (\<lambda>f. f e) fs) \<and>
     (\<forall>fs e. pred_or P fs e = list_ex (\<lambda>f. f e) fs) \<and>
     (\<forall>f e. pred_not P f e = (\<not> f e)) \<and>
     (\<forall>k v e. pred_has_annotation P k v e \<longleftrightarrow> meta_annotations (event_object e) k = Some v) \<and>
     (\<forall>k v old new. pred_got_annotation P k v (Updated old new) \<longleftrightarrow>
        meta_annotations old k \<noteq> Some v \<and> meta_annotations new k = Some v) \<and>
     (\<forall>k v old new. pred_lost_annotation P k v (Updated old new) \<longleftrightarrow>
        meta_annotations old k = Some v \<and> meta_annotations new k \<noteq> Some v) \<and>
     (\<forall>n ns e. pred_exact_name P n ns e \<longleftrightarrow> object_key (event_object e) = \<lparr>nn_namespace = ns, nn_name = n\<rparr>) \<and>
     (\<forall>f e. pred_of_object P f e = f (event_object e))"

text \<open>A mapping is applied to every object of the event, and what it yields is enqueued.\<close>

fun map_objects :: "('o \<Rightarrow> 'w \<Rightarrow> namespaced_name list \<times> 'w) \<Rightarrow> 'o list \<Rightarrow> 'w \<Rightarrow> namespaced_name list \<times> 'w" where
  "map_objects f [] w = ([], w)"
| "map_objects f (obj # objs) w =
     (case f obj w of (reqs, w1) \<Rightarrow> (case map_objects f objs w1 of (reqs2, w2) \<Rightarrow> (reqs @ reqs2, w2)))"

definition handler_law :: "('x object_meta_scheme, 'w) event_handlers \<Rightarrow> bool" where
  "handler_law H \<longleftrightarrow>
     (\<forall>e. set (enqueue_object H e) = {object_key (event_object e)}) \<and>
     (\<forall>f e w. set (fst (enqueue_mapped H f e w)) = set (fst (map_objects f (event_objects e) w)))"

subsection \<open>Facts about the filters\<close>

lemma cluster_watch_filter_iff:
  assumes "predicate_law P"
  shows "cluster_watch_filter P L e \<longleftrightarrow>
    (pred_generation_changed P e \<or> pred_deletion_changed P e \<or>
     pred_got_annotation P (lib_operation_annotation L) (lib_operation_reconcile L) e \<or>
     pred_lost_annotation P (lib_operation_annotation L) (lib_operation_ignore L) e \<or>
     pred_got_annotation P (dns_operation_annotation L) (lib_operation_reconcile L) e \<or>
     pred_lost_annotation P (dns_operation_annotation L) (lib_operation_ignore L) e) \<and>
    meta_annotations (event_object e) (lib_operation_annotation L) \<noteq> Some (lib_operation_ignore L) \<and>
    meta_annotations (event_object e) (dns_operation_annotation L) \<noteq> Some (lib_operation_ignore L)"
  using assms by (auto simp: cluster_watch_filter_def predicate_law_def)

lemma ignoring_annotation:
  "requested_operation L c = Some (lib_operation_ignore L) \<Longrightarrow>
     meta_annotations c (lib_operation_annotation L) = Some (lib_operation_ignore L) \<or>
     meta_annotations c (dns_operation_annotation L) = Some (lib_operation_ignore L)"
  unfolding requested_operation_def
  by (cases "meta_annotations c (dns_operation_annotation L)") simp_all

lemma set_map_objects_const:
  "set (fst (map_objects (\<lambda>_ w. (reqs, w)) objs w)) = (if objs = [] then {} else set reqs)"
  by (induction objs) (simp_all add: case_prod_beta)

lemma event_objects_not_Nil [simp]: "event_objects e \<noteq> []"
  by (cases e) simp_all

subsection \<open>Properties\<close>

text \<open>
  C34. The watch on Clusters agrees with the reconciler about those to be ignored: no event of a Cluster
  itself (that it is created, updated, deleted or announced) leads to a request if the reconciliation
  would ignore the Cluster. It is stricter, though: a Cluster with the generic ignore annotation gets no
  request from its own events even if the DNS-specific annotation, which takes precedence in the
  reconciliation, asks for one. Events of configurations and secrets are not filtered by annotation; they
  may request a Cluster that is to be ignored, and the reconciliation then leaves it alone.
\<close>

theorem ignored_clusters_get_no_requests:
  assumes "predicate_law (cluster_predicates W)"
    and "requested_operation L (event_object e) = Some (lib_operation_ignore L) \<or>
         meta_annotations (event_object e) (lib_operation_annotation L) = Some (lib_operation_ignore L) \<and>
         requested_operation L (event_object e) = Some (lib_operation_reconcile L)"
  shows "watch_requests W L r known (ClusterChanged e) w = ([], w)"
proof -
  have "\<not> cluster_watch_filter (cluster_predicates W) L e"
    using assms ignoring_annotation by (auto simp: cluster_watch_filter_iff)
  then show ?thesis by (simp add: watch_requests_def)
qed

text \<open>
  C36. When an ignore annotation of either kind is taken off a Cluster, the Cluster is requested at once,
  if no ignore annotation of either kind is left on it; under the same condition so is a Cluster that gets
  a reconcile annotation of either kind.
\<close>

theorem annotation_changes_request_the_cluster:
  assumes "predicate_law (cluster_predicates W)" and "handler_law (cluster_handlers W)"
    and "k \<in> {lib_operation_annotation L, dns_operation_annotation L}"
    and "meta_annotations old k = Some (lib_operation_ignore L) \<or>
         meta_annotations old k \<noteq> Some (lib_operation_reconcile L) \<and>
         meta_annotations new k = Some (lib_operation_reconcile L)"
    and "meta_annotations new (lib_operation_annotation L) \<noteq> Some (lib_operation_ignore L)"
    and "meta_annotations new (dns_operation_annotation L) \<noteq> Some (lib_operation_ignore L)"
  shows "set (fst (watch_requests W L r known (ClusterChanged (Updated old new)) w)) = {object_key new}"
proof -
  have "cluster_watch_filter (cluster_predicates W) L (Updated old new)"
    using assms(3-6) assms(1) [unfolded predicate_law_def]
    by (auto simp: cluster_watch_filter_iff [OF assms(1)])
  with assms(2) show ?thesis by (simp add: watch_requests_def handler_law_def)
qed

text \<open>
  A change of the specification of the DNSServiceConfig with the name of the provider requests all
  known Clusters; other events of DNSServiceConfigs request none.
\<close>

theorem config_events_request_known_clusters:
  assumes "predicate_law (config_predicates W)" and "handler_law (config_handlers W)"
    and "range_clusters_law L" and "project_law L"
  shows "set (fst (watch_requests W L r known (ConfigChanged e) w)) =
    (if pred_generation_changed (config_predicates W) e \<and>
        object_key (event_object e) = \<lparr>nn_namespace = [], nn_name = provider_name r\<rparr>
     then set known else {})"
proof -
  have "set (requests_for_known L known) = set known"
    using assms(3,4)
    by (auto simp: requests_for_known_def list_known_clusters_def project_law_def
        range_clusters_law_def intro!: set_range_order)
  with assms(1,2) show ?thesis
    by (simp add: watch_requests_def handler_law_def set_map_objects_const config_watch_filter_def
        predicate_law_def)
qed

end
