(* ===== verification/Go_Slices.thy ===== *)
theory Go_Slices
  imports Main
begin

section \<open>Go slices\<close>

text \<open>
  A slice is a window onto an array that other slices may share: \<open>append\<close> writes behind the window
  if the array has room there and moves to a new array otherwise. Arrays live in a store and are
  addressed by their position; their length is the capacity, and a cell that was never written
  holds \<open>None\<close>. How large a new array becomes is up to the runtime: the parameter \<open>grow\<close> gives its
  capacity from the old capacity and the length that is needed.
\<close>

type_synonym 'a arrays = "'a option list list"

text \<open>A nil slice has no array.\<close>

record slice =
  slice_array :: "nat option"
  slice_len :: nat

definition nil_slice :: slice where
  "nil_slice = \<lparr>slice_array = None, slice_len = 0\<rparr>"

definition backing :: "'a arrays \<Rightarrow> slice \<Rightarrow> 'a option list" where
  "backing st s = (case slice_array s of None \<Rightarrow> [] | Some a \<Rightarrow> st ! a)"

definition slice_cap :: "'a arrays \<Rightarrow> slice \<Rightarrow> nat" where
  "slice_cap st s = length (backing st s)"

text \<open>The elements of a slice; a cell that was never written does not count as one.\<close>

definition elements :: "'a arrays \<Rightarrow> slice \<Rightarrow> 'a list" where
  "elements st s = List.map_filter id (take (slice_len s) (backing st s))"

definition go_append :: "(nat \<Rightarrow> nat \<Rightarrow> nat) \<Rightarrow> 'a arrays \<Rightarrow> slice \<Rightarrow> 'a \<Rightarrow> 'a arrays \<times> slice" where
  "go_append grow st s x =
     (let n = slice_len s in
      case slice_array s of
        Some a \<Rightarrow>
          if n < length (st ! a) then (st[a := (st ! a)[n := Some x]], s\<lparr>slice_len := Suc n\<rparr>)
          else (st @ [take n (st ! a) @ Some x # replicate (grow (length (st ! a)) (Suc n) - Suc n) None],
                \<lparr>slice_array = Some (length st), slice_len = Suc n\<rparr>)
      | None \<Rightarrow>
          (st @ [Some x # replicate (grow 0 1 - 1) None],
           \<lparr>slice_array = Some (length st), slice_len = 1\<rparr>))"

text \<open>A slice is well formed if its window lies in its array and was written.\<close>

definition valid_slice :: "'a arrays \<Rightarrow> slice \<Rightarrow> bool" where
  "valid_slice st s \<longleftrightarrow>
     (case slice_array s of
        None \<Rightarrow> slice_len s = 0
      | Some a \<Rightarrow> a < length st \<and> slice_len s \<le> length (st ! a) \<and>
          None \<notin> set (take (slice_len s) (st ! a)))"

lemma valid_nil_slice [simp]: "valid_slice st nil_slice"
  by (simp add: valid_slice_def nil_slice_def)

lemma elements_nil_slice [simp]: "elements st nil_slice = []"
  by (simp add: elements_def nil_slice_def backing_def map_filter_def)

lemma map_filter_id_snoc [simp]: "List.map_filter id (xs @ [Some x]) = List.map_filter id xs @ [x]"
  by (simp add: map_filter_def)

text \<open>What \<open>append\<close> returns holds the old elements and the new one.\<close>

lemma elements_go_append:
  assumes "valid_slice st s" and "go_append grow st s x = (st', s')"
  shows "elements st' s' = elements st s @ [x] \<and> valid_slice st' s'"
proof (cases "slice_array s")
  case None
  with assms show ?thesis
    by (auto simp: go_append_def valid_slice_def elements_def backing_def map_filter_def nth_append)
next
  case (Some a)
  with assms(1) have "None \<notin> set (take (slice_len s) (st ! a))" "a < length st"
    by (auto simp: valid_slice_def)
  with Some assms show ?thesis
    by (auto simp: go_append_def valid_slice_def elements_def backing_def Let_def nth_append
        take_Suc_conv_app_nth split: if_splits)
qed

text \<open>Another slice keeps its elements if it does not reach beyond the end of the window.\<close>

lemma elements_frame:
  assumes "go_append grow st s x = (st', s')" and "valid_slice st t"
    and "slice_array t \<noteq> slice_array s \<or> slice_len t \<le> slice_len s \<or> slice_cap st s \<le> slice_len s"
  shows "elements st' t = elements st t \<and> valid_slice st' t"
proof (cases "slice_array t")
  case None
  with assms(2) show ?thesis by (simp add: elements_def backing_def valid_slice_def)
next
  case (Some b)
  with assms(2) have b: "b < length st" by (simp add: valid_slice_def)
  have "take (slice_len t) (st' ! b) = take (slice_len t) (st ! b) \<and> length (st' ! b) = length (st ! b) \<and>
      length st \<le> length st'"
    using assms(1,3) b Some
    by (cases "slice_array s = Some b")
       (auto simp: go_append_def Let_def nth_append slice_cap_def backing_def
         split: option.splits if_splits)
  with assms(2) Some b show ?thesis
    by (auto simp: elements_def backing_def valid_slice_def)
qed

end
