(* ===== verification/Command_Line.thy ===== *)
theory Command_Line
  imports Prelude Go_Slices
begin

section \<open>Command line options\<close>

text \<open>
  \<open>cmd/platform-service-dns/app\<close>: the options of \<open>app.go\<close> and \<open>run.go\<close>, their flags, their
  completion, and the printing of \<open>print.go\<close>. Parsing a command line into flag values, the YAML
  encoder, the logger, the cluster client and the certificate watcher are libraries and parameters.
\<close>

subsection \<open>Raw options and flags\<close>

record raw_shared_options =
  raw_environment :: string
  raw_provider_name :: string
  raw_dry_run :: bool

record raw_run_options =
  raw_metrics_addr :: string
  raw_metrics_cert_path :: string
  raw_metrics_cert_name :: string
  raw_metrics_cert_key :: string
  raw_webhook_cert_path :: string
  raw_webhook_cert_name :: string
  raw_webhook_cert_key :: string
  raw_leader_election :: bool
  raw_probe_addr :: string
  raw_pprof_addr :: string
  raw_secure_metrics :: bool
  raw_enable_http2 :: bool
  raw_controllers :: "string list"

datatype option_value = Text string | Flag bool | Texts "string list"

text \<open>
  The flags by name with their defaults, as \<open>AddPersistentFlags\<close> and \<open>AddFlags\<close> declare them. The
  parsed command line maps the flags that were given to their values.
\<close>

type_synonym given_flags = "string \<rightharpoonup> option_value"

definition shared_flags :: "(string \<times> option_value) list" where
  "shared_flags =
     [(''environment'', Text ''''), (''provider-name'', Text ''''), (''dry-run'', Flag False)]"

definition run_flags :: "(string \<times> option_value) list" where
  "run_flags =
     [(''metrics-bind-address'', Text ''0''),
      (''health-probe-bind-address'', Text '':8081''),
      (''pprof-bind-address'', Text ''''),
      (''leader-elect'', Flag False),
      (''metrics-secure'', Flag True),
      (''webhook-cert-path'', Text ''''),
      (''webhook-cert-name'', Text ''tls.crt''),
      (''webhook-cert-key'', Text ''tls.key''),
      (''metrics-cert-path'', Text ''''),
      (''metrics-cert-name'', Text ''tls.crt''),
      (''metrics-cert-key'', Text ''tls.key''),
      (''enable-http2'', Flag False)]"

definition flag_value :: "(string \<times> option_value) list \<Rightarrow> given_flags \<Rightarrow> string \<Rightarrow> option_value option" where
  "flag_value flags given name =
     (case map_of flags name of
        None \<Rightarrow> None
      | Some preset \<Rightarrow> (case given name of None \<Rightarrow> Some preset | Some v \<Rightarrow> Some v))"

definition text_flag :: "(string \<times> option_value) list \<Rightarrow> given_flags \<Rightarrow> string \<Rightarrow> string" where
  "text_flag flags given name = (case flag_value flags given name of Some (Text s) \<Rightarrow> s | _ \<Rightarrow> [])"

definition bool_flag :: "(string \<times> option_value) list \<Rightarrow> given_flags \<Rightarrow> string \<Rightarrow> bool" where
  "bool_flag flags given name = (case flag_value flags given name of Some (Flag b) \<Rightarrow> b | _ \<Rightarrow> False)"

definition raw_shared_of :: "given_flags \<Rightarrow> raw_shared_options" where
  "raw_shared_of given =
     \<lparr>raw_environment = text_flag shared_flags given ''environment'',
      raw_provider_name = text_flag shared_flags given ''provider-name'',
      raw_dry_run = bool_flag shared_flags given ''dry-run''\<rparr>"

text \<open>
  No flag sets \<open>Controllers\<close>. The flags given are those that the parser, a library, has accepted: it
  rejects a name that is not in \<open>run_flags\<close> or \<open>shared_flags\<close> before the options are read.
\<close>

definition raw_run_of :: "given_flags \<Rightarrow> raw_run_options" where
  "raw_run_of given =
     \<lparr>raw_metrics_addr = text_flag run_flags given ''metrics-bind-address'',
      raw_metrics_cert_path = text_flag run_flags given ''metrics-cert-path'',
      raw_metrics_cert_name = text_flag run_flags given ''metrics-cert-name'',
      raw_metrics_cert_key = text_flag run_flags given ''metrics-cert-key'',
      raw_webhook_cert_path = text_flag run_flags given ''webhook-cert-path'',
      raw_webhook_cert_name = text_flag run_flags given ''webhook-cert-name'',
      raw_webhook_cert_key = text_flag run_flags given ''webhook-cert-key'',
      raw_leader_election = bool_flag run_flags given ''leader-elect'',
      raw_probe_addr = text_flag run_flags given ''health-probe-bind-address'',
      raw_pprof_addr = text_flag run_flags given ''pprof-bind-address'',
      raw_secure_metrics = bool_flag run_flags given ''metrics-secure'',
      raw_enable_http2 = bool_flag run_flags given ''enable-http2'',
      raw_controllers = []\<rparr>"

text \<open>The fields under the names that the struct tags give them, as the YAML encoder sees them.\<close>

definition shared_fields :: "raw_shared_options \<Rightarrow> (string \<times> option_value) list" where
  "shared_fields o' =
     [(''environment'', Text (raw_environment o')),
      (''provider-name'', Text (raw_provider_name o')),
      (''dry-run'', Flag (raw_dry_run o'))]"

definition run_fields :: "raw_run_options \<Rightarrow> (string \<times> option_value) list" where
  "run_fields o' =
     [(''metrics-bind-address'', Text (raw_metrics_addr o')),
      (''metrics-cert-path'', Text (raw_metrics_cert_path o')),
      (''metrics-cert-name'', Text (raw_metrics_cert_name o')),
      (''metrics-cert-key'', Text (raw_metrics_cert_key o')),
      (''webhook-cert-path'', Text (raw_webhook_cert_path o')),
      (''webhook-cert-name'', Text (raw_webhook_cert_name o')),
      (''webhook-cert-key'', Text (raw_webhook_cert_key o')),
      (''leader-elect'', Flag (raw_leader_election o')),
      (''health-probe-bind-address'', Text (raw_probe_addr o')),
      (''pprof-bind-address'', Text (raw_pprof_addr o')),
      (''metrics-secure'', Flag (raw_secure_metrics o')),
      (''enable-http2'', Flag (raw_enable_http2 o')),
      (''controllers'', Texts (raw_controllers o'))]"

subsection \<open>Libraries\<close>

text \<open>\<open>filepath.Join(dir, name)\<close>, kept as the pair of its arguments.\<close>

datatype file_path = Joined string string

type_synonym watcher = nat

record 'w app_lib =
  app_marshal :: "(string \<times> option_value) list \<Rightarrow> string + string"
  app_get_logger :: "'w \<Rightarrow> string option \<times> 'w"
  app_init_rest_config :: "'w \<Rightarrow> string option \<times> 'w"
  app_getenv :: "'w \<Rightarrow> string \<Rightarrow> string"
  app_namespace_variable :: string
  app_new_cert_watcher :: "file_path \<Rightarrow> file_path \<Rightarrow> 'w \<Rightarrow> (string + watcher) \<times> 'w"
  app_endpoint :: "'w \<Rightarrow> string"
  app_grow :: "nat \<Rightarrow> nat \<Rightarrow> nat"

subsection \<open>TLS options\<close>

text \<open>
  The functions that are appended to the TLS options. The two that set a certificate read the watcher
  from the options when they are called.
\<close>

datatype tls_option = DisableHttp2 | WebhookCertificate | MetricsCertificate

record tls_config =
  next_protos :: "string list"
  get_certificate :: "watcher option"

record metrics_options =
  bind_address :: string
  secure_serving :: bool
  metrics_tls :: slice
  metrics_filtered :: bool

record run_options =
  shared_raw :: raw_shared_options
  run_raw :: raw_run_options
  tls_opts :: slice
  webhook_tls_opts :: slice
  metrics_server :: metrics_options
  metrics_watcher :: "watcher option"
  webhook_watcher :: "watcher option"
  pod_namespace :: string

text \<open>The options as \<open>NewRunCommand\<close> makes them, after the flags have been parsed.\<close>

definition new_run_options :: "raw_shared_options \<Rightarrow> raw_run_options \<Rightarrow> run_options" where
  "new_run_options shared raw =
     \<lparr>shared_raw = shared, run_raw = raw, tls_opts = nil_slice, webhook_tls_opts = nil_slice,
      metrics_server = \<lparr>bind_address = [], secure_serving = False, metrics_tls = nil_slice,
        metrics_filtered = False\<rparr>,
      metrics_watcher = None, webhook_watcher = None, pod_namespace = []\<rparr>"

definition apply_tls_option :: "run_options \<Rightarrow> tls_option \<Rightarrow> tls_config \<Rightarrow> tls_config" where
  "apply_tls_option o' f cfg =
     (case f of
        DisableHttp2 \<Rightarrow> cfg\<lparr>next_protos := [''http/1.1'']\<rparr>
      | WebhookCertificate \<Rightarrow> cfg\<lparr>get_certificate := webhook_watcher o'\<rparr>
      | MetricsCertificate \<Rightarrow> cfg\<lparr>get_certificate := metrics_watcher o'\<rparr>)"

text \<open>What a server that is given a slice of TLS options makes of a configuration.\<close>

definition server_config :: "run_options \<Rightarrow> tls_option arrays \<Rightarrow> slice \<Rightarrow> tls_config \<Rightarrow> tls_config" where
  "server_config o' st s cfg = fold (apply_tls_option o') (elements st s) cfg"

subsection \<open>Complete\<close>

datatype option_error =
  EnvironmentEmpty
| ProviderNameEmpty
| LoggerFailed string
| RestConfigFailed string
| NamespaceVariableUnset string
| WebhookWatcherFailed string
| MetricsWatcherFailed string

record 'w app_state =
  app_world :: 'w
  tls_arrays :: "tls_option arrays"

definition complete_shared ::
  "'w app_lib \<Rightarrow> raw_shared_options \<Rightarrow> 'w \<Rightarrow> option_error option \<times> 'w" where
  "complete_shared A o' w =
     (if raw_environment o' = [] then (Some EnvironmentEmpty, w)
      else if raw_provider_name o' = [] then (Some ProviderNameEmpty, w)
      else
        case app_get_logger A w of
          (Some e, w1) \<Rightarrow> (Some (LoggerFailed e), w1)
        | (None, w1) \<Rightarrow>
            (case app_init_rest_config A w1 of
               (Some e, w2) \<Rightarrow> (Some (RestConfigFailed e), w2)
             | (None, w2) \<Rightarrow> (None, w2)))"

definition append_tls ::
  "'w app_lib \<Rightarrow> slice \<Rightarrow> tls_option \<Rightarrow> 'w app_state \<Rightarrow> slice \<times> 'w app_state" where
  "append_tls A s f st =
     (case go_append (app_grow A) (tls_arrays st) s f of
        (arrays, s') \<Rightarrow> (s', st\<lparr>tls_arrays := arrays\<rparr>))"

definition complete_http2 :: "'w app_lib \<Rightarrow> run_options \<Rightarrow> 'w app_state \<Rightarrow> run_options \<times> 'w app_state" where
  "complete_http2 A o' st =
     (if \<not> raw_enable_http2 (run_raw o')
      then case append_tls A (tls_opts o') DisableHttp2 st of (s, st1) \<Rightarrow> (o'\<lparr>tls_opts := s\<rparr>, st1)
      else (o', st))"

definition complete_webhook ::
  "'w app_lib \<Rightarrow> run_options \<Rightarrow> 'w app_state \<Rightarrow> (option_error option \<times> run_options) \<times> 'w app_state" where
  "complete_webhook A o0 st =
     (let o' = o0\<lparr>webhook_tls_opts := tls_opts o0\<rparr>; raw = run_raw o' in
      if length (raw_webhook_cert_path raw) > 0 then
        case app_new_cert_watcher A
               (Joined (raw_webhook_cert_path raw) (raw_webhook_cert_name raw))
               (Joined (raw_webhook_cert_path raw) (raw_webhook_cert_key raw)) (app_world st) of
          (Inl e, w) \<Rightarrow> ((Some (WebhookWatcherFailed e), o'), st\<lparr>app_world := w\<rparr>)
        | (Inr watcher, w) \<Rightarrow>
            (case append_tls A (webhook_tls_opts o') WebhookCertificate (st\<lparr>app_world := w\<rparr>) of
               (s, st1) \<Rightarrow> ((None, o'\<lparr>webhook_watcher := Some watcher, webhook_tls_opts := s\<rparr>), st1))
      else ((None, o'), st))"

definition complete_metrics ::
  "'w app_lib \<Rightarrow> run_options \<Rightarrow> 'w app_state \<Rightarrow> (option_error option \<times> run_options) \<times> 'w app_state" where
  "complete_metrics A o0 st =
     (let raw = run_raw o0;
          server = \<lparr>bind_address = raw_metrics_addr raw, secure_serving = raw_secure_metrics raw,
                    metrics_tls = tls_opts o0, metrics_filtered = raw_secure_metrics raw\<rparr>;
          o' = o0\<lparr>metrics_server := server\<rparr> in
      if length (raw_metrics_cert_path raw) > 0 then
        case app_new_cert_watcher A
               (Joined (raw_metrics_cert_path raw) (raw_metrics_cert_name raw))
               (Joined (raw_metrics_cert_path raw) (raw_metrics_cert_key raw)) (app_world st) of
          (Inl e, w) \<Rightarrow> ((Some (MetricsWatcherFailed e), o'), st\<lparr>app_world := w\<rparr>)
        | (Inr watcher, w) \<Rightarrow>
            (case append_tls A (metrics_tls server) MetricsCertificate (st\<lparr>app_world := w\<rparr>) of
               (s, st1) \<Rightarrow> ((None, o'\<lparr>metrics_watcher := Some watcher,
                               metrics_server := server\<lparr>metrics_tls := s\<rparr>\<rparr>), st1))
      else ((None, o'), st))"

definition complete_run ::
  "'w app_lib \<Rightarrow> run_options \<Rightarrow> 'w app_state \<Rightarrow> (option_error option \<times> run_options) \<times> 'w app_state" where
  "complete_run A o' st =
     (case complete_shared A (shared_raw o') (app_world st) of
        (Some e, w) \<Rightarrow> ((Some e, o'), st\<lparr>app_world := w\<rparr>)
      | (None, w) \<Rightarrow>
          let ns = app_getenv A w (app_namespace_variable A);
              o1 = o'\<lparr>pod_namespace := ns\<rparr>; st1 = st\<lparr>app_world := w\<rparr> in
          if ns = [] then ((Some (NamespaceVariableUnset (app_namespace_variable A)), o1), st1)
          else
            case complete_http2 A o1 st1 of
              (o2, st2) \<Rightarrow>
                (case complete_webhook A o2 st2 of
                   ((Some e, o3), st3) \<Rightarrow> ((Some e, o3), st3)
                 | ((None, o3), st3) \<Rightarrow> complete_metrics A o3 st3))"

subsection \<open>TLS options after completion\<close>

text \<open>The options that both servers start from.\<close>

definition base_tls :: "raw_run_options \<Rightarrow> tls_option list" where
  "base_tls raw = (if raw_enable_http2 raw then [] else [DisableHttp2])"

lemma elements_append_tls:
  assumes "append_tls A s f st = (s', st')" and "valid_slice (tls_arrays st) s"
  shows "elements (tls_arrays st') s' = elements (tls_arrays st) s @ [f]"
    and "valid_slice (tls_arrays st') s'" and "app_world st' = app_world st"
  using assms elements_go_append [OF assms(2)]
  by (auto simp: append_tls_def split: prod.splits)

lemma append_tls_frame:
  assumes "append_tls A s f st = (s', st')" and "valid_slice (tls_arrays st) t"
    and "slice_array t \<noteq> slice_array s \<or> slice_len t \<le> slice_len s \<or>
         slice_cap (tls_arrays st) s \<le> slice_len s"
  shows "elements (tls_arrays st') t = elements (tls_arrays st) t \<and> valid_slice (tls_arrays st') t"
  using assms elements_frame [OF _ assms(2,3)]
  by (auto simp: append_tls_def split: prod.splits)

lemma complete_http2_facts:
  assumes "complete_http2 A o' st = (o2, st2)" and "tls_opts o' = nil_slice"
    and "app_grow A 0 1 \<le> 1 \<or> raw_enable_http2 (run_raw o')"
  shows "elements (tls_arrays st2) (tls_opts o2) = base_tls (run_raw o')"
    and "valid_slice (tls_arrays st2) (tls_opts o2)"
    and "slice_cap (tls_arrays st2) (tls_opts o2) \<le> slice_len (tls_opts o2)"
    and "run_raw o2 = run_raw o'"
  using assms
  by (auto simp: complete_http2_def append_tls_def go_append_def nil_slice_def base_tls_def elements_def
      backing_def map_filter_def valid_slice_def slice_cap_def split: if_splits)

lemma complete_webhook_facts:
  assumes "complete_webhook A o' st = ((None, o2), st2)"
    and "valid_slice (tls_arrays st) (tls_opts o')"
    and "slice_cap (tls_arrays st) (tls_opts o') \<le> slice_len (tls_opts o')"
  shows "elements (tls_arrays st2) (webhook_tls_opts o2) = elements (tls_arrays st) (tls_opts o') @
           (if raw_webhook_cert_path (run_raw o') = [] then [] else [WebhookCertificate])"
    and "valid_slice (tls_arrays st2) (webhook_tls_opts o2)"
    and "elements (tls_arrays st2) (tls_opts o2) = elements (tls_arrays st) (tls_opts o')"
    and "valid_slice (tls_arrays st2) (tls_opts o2)"
    and "slice_cap (tls_arrays st2) (tls_opts o2) \<le> slice_len (tls_opts o2)"
    and "run_raw o2 = run_raw o'"
    and "raw_webhook_cert_path (run_raw o') \<noteq> [] \<Longrightarrow> webhook_watcher o2 \<noteq> None"
proof -
  have cap: "slice_cap (tls_arrays st1) s' \<le> slice_len (tls_opts o')"
    if "append_tls A (tls_opts o') f st0 = (s, st1)" "tls_arrays st0 = tls_arrays st"
       "s' = tls_opts o'" for s s' f and st0 st1 :: "'a app_state"
    using that assms(2,3)
    by (auto simp: append_tls_def go_append_def slice_cap_def backing_def valid_slice_def nth_append Let_def
        split: prod.splits option.splits if_splits)
  note run = assms(1) [unfolded complete_webhook_def Let_def]
  show "elements (tls_arrays st2) (webhook_tls_opts o2) = elements (tls_arrays st) (tls_opts o') @
           (if raw_webhook_cert_path (run_raw o') = [] then [] else [WebhookCertificate])"
    "valid_slice (tls_arrays st2) (webhook_tls_opts o2)"
    "elements (tls_arrays st2) (tls_opts o2) = elements (tls_arrays st) (tls_opts o')"
    "valid_slice (tls_arrays st2) (tls_opts o2)"
    "slice_cap (tls_arrays st2) (tls_opts o2) \<le> slice_len (tls_opts o2)"
    "run_raw o2 = run_raw o'"
    "raw_webhook_cert_path (run_raw o') \<noteq> [] \<Longrightarrow> webhook_watcher o2 \<noteq> None"
    using run assms(2,3)
    by (auto split: if_splits prod.splits sum.splits dest: elements_append_tls append_tls_frame cap)
qed

lemma complete_metrics_facts:
  assumes "complete_metrics A o' st = ((None, o2), st2)"
    and "valid_slice (tls_arrays st) (tls_opts o')" and "valid_slice (tls_arrays st) (webhook_tls_opts o')"
    and "slice_cap (tls_arrays st) (tls_opts o') \<le> slice_len (tls_opts o')"
  shows "elements (tls_arrays st2) (metrics_tls (metrics_server o2)) = elements (tls_arrays st) (tls_opts o') @
           (if raw_metrics_cert_path (run_raw o') = [] then [] else [MetricsCertificate])"
    and "elements (tls_arrays st2) (webhook_tls_opts o2) = elements (tls_arrays st) (webhook_tls_opts o')"
    and "webhook_watcher o2 = webhook_watcher o'"
    and "raw_metrics_cert_path (run_raw o') \<noteq> [] \<Longrightarrow> metrics_watcher o2 \<noteq> None"
    and "metrics_filtered (metrics_server o2) = raw_secure_metrics (run_raw o')"
    and "secure_serving (metrics_server o2) = raw_secure_metrics (run_raw o')"
  using assms
  by (auto simp: complete_metrics_def Let_def split: if_splits prod.splits sum.splits
      dest: elements_append_tls append_tls_frame)

lemma complete_run_None:
  assumes "complete_run A o' st = ((None, o2), st2)"
  obtains w o1 st1 o3 st3 where
    "complete_shared A (shared_raw o') (app_world st) = (None, w)"
    "app_getenv A w (app_namespace_variable A) \<noteq> []"
    "complete_http2 A (o'\<lparr>pod_namespace := app_getenv A w (app_namespace_variable A)\<rparr>)
       (st\<lparr>app_world := w\<rparr>) = (o1, st1)"
    "complete_webhook A o1 st1 = ((None, o3), st3)"
    "complete_metrics A o3 st3 = ((None, o2), st2)"
  using assms
  by (auto simp: complete_run_def Let_def split: prod.splits option.splits if_splits)

subsection \<open>Properties\<close>

text \<open>
  Giving every printed raw option back as a flag leads to the same options, up to \<open>Controllers\<close>: it is
  printed as \<open>controllers\<close>, the only printed name that is no flag (a parser rejects it). No flag is
  missing from what is printed.
\<close>

lemma printed_options_are_flags:
  "raw_shared_of (map_of (shared_fields so)) = so \<and>
   raw_run_of (map_of (run_fields ro)) = ro\<lparr>raw_controllers := []\<rparr> \<and>
   set (map fst shared_flags) = set (map fst (shared_fields so)) \<and>
   set (map fst run_flags) = set (map fst (run_fields ro)) - {''controllers''}"
  by (auto simp: raw_shared_of_def raw_run_of_def shared_fields_def run_fields_def text_flag_def
      bool_flag_def flag_value_def shared_flags_def run_flags_def)

lemma complete_shared_None:
  "complete_shared A so w = (None, w') \<Longrightarrow> raw_environment so \<noteq> [] \<and> raw_provider_name so \<noteq> []"
  by (simp add: complete_shared_def split: if_splits)

text \<open>
  Both servers' lists of TLS options grow from one slice. Whether they end in one array depends on the
  room that the runtime leaves in the array of its first element, which the language does not fix.
\<close>

definition servers_share_array :: "'w app_lib \<Rightarrow> raw_run_options \<Rightarrow> bool" where
  "servers_share_array A ro \<longleftrightarrow>
     \<not> raw_enable_http2 ro \<and> raw_webhook_cert_path ro \<noteq> [] \<and> raw_metrics_cert_path ro \<noteq> [] \<and> 1 < app_grow A 0 1"

lemma complete_http2_spare:
  assumes "complete_http2 A o' st = (o2, st2)" and "tls_opts o' = nil_slice"
    and "\<not> raw_enable_http2 (run_raw o')" and "app_grow A 0 1 - 1 = Suc n"
  shows "tls_arrays st2 = tls_arrays st @ [Some DisableHttp2 # None # replicate n None] \<and>
    tls_opts o2 = \<lparr>slice_array = Some (length (tls_arrays st)), slice_len = 1\<rparr> \<and> run_raw o2 = run_raw o'"
  using assms by (auto simp: complete_http2_def append_tls_def go_append_def nil_slice_def)

lemma append_tls_spare:
  assumes "tls_arrays st = arr @ [x # y # rest]"
  shows "append_tls A \<lparr>slice_array = Some (length arr), slice_len = Suc 0\<rparr> f st =
    (\<lparr>slice_array = Some (length arr), slice_len = 2\<rparr>, st\<lparr>tls_arrays := arr @ [x # Some f # rest]\<rparr>)"
  using assms by (simp add: append_tls_def go_append_def)

lemma complete_webhook_spare:
  assumes "complete_webhook A o' st = ((None, o2), st2)" and "tls_arrays st = arr @ [x # None # rest]"
    and "tls_opts o' = \<lparr>slice_array = Some (length arr), slice_len = 1\<rparr>"
  shows "tls_arrays st2 = arr @ [x # (if raw_webhook_cert_path (run_raw o') = [] then None
        else Some WebhookCertificate) # rest] \<and> tls_opts o2 = tls_opts o' \<and> run_raw o2 = run_raw o' \<and>
    webhook_tls_opts o2 = \<lparr>slice_array = Some (length arr),
      slice_len = if raw_webhook_cert_path (run_raw o') = [] then 1 else 2\<rparr> \<and>
    (raw_webhook_cert_path (run_raw o') \<noteq> [] \<longrightarrow> webhook_watcher o2 \<noteq> None)"
  using assms
  by (auto simp: complete_webhook_def Let_def append_tls_spare [of _ arr x None rest] split: if_splits sum.splits prod.splits)

lemma complete_metrics_spare:
  assumes "complete_metrics A o' st = ((None, o2), st2)" and "tls_arrays st = arr @ [x # y # rest]"
    and "tls_opts o' = \<lparr>slice_array = Some (length arr), slice_len = 1\<rparr>"
  shows "tls_arrays st2 = arr @ [x # (if raw_metrics_cert_path (run_raw o') = [] then y
        else Some MetricsCertificate) # rest] \<and> webhook_tls_opts o2 = webhook_tls_opts o' \<and>
    metrics_tls (metrics_server o2) = \<lparr>slice_array = Some (length arr),
      slice_len = if raw_metrics_cert_path (run_raw o') = [] then 1 else 2\<rparr> \<and>
    webhook_watcher o2 = webhook_watcher o' \<and>
    (raw_metrics_cert_path (run_raw o') \<noteq> [] \<longrightarrow> metrics_watcher o2 \<noteq> None)"
  using assms
  by (auto simp: complete_metrics_def Let_def append_tls_spare [of _ arr x y rest] split: if_splits sum.splits prod.splits)

lemma elements_spare: "elements (arr @ [x # y # rest]) \<lparr>slice_array = Some (length arr), slice_len = k\<rparr> =
    List.map_filter id (take k (x # y # rest))"
  by (simp add: elements_def backing_def)

lemma tls_with_spare_room:
  assumes "complete_run A (new_run_options so ro) st = ((None, o'), st')"
    and "\<not> raw_enable_http2 ro" and "1 < app_grow A 0 1"
  shows "elements (tls_arrays st') (webhook_tls_opts o') = DisableHttp2 #
      (if raw_webhook_cert_path ro = [] then [] else if raw_metrics_cert_path ro = [] then [WebhookCertificate]
       else [MetricsCertificate]) \<and>
    elements (tls_arrays st') (metrics_tls (metrics_server o')) = DisableHttp2 #
      (if raw_metrics_cert_path ro = [] then [] else [MetricsCertificate]) \<and>
    (raw_webhook_cert_path ro \<noteq> [] \<longrightarrow> webhook_watcher o' \<noteq> None) \<and>
    (raw_metrics_cert_path ro \<noteq> [] \<longrightarrow> metrics_watcher o' \<noteq> None)"
proof -
  obtain n where n: "app_grow A 0 1 - 1 = Suc n" using assms(3) by (metis Suc_diff_1 zero_less_diff)
  from assms(1) obtain w o1 st1 o3 st3 where steps:
    "complete_http2 A ((new_run_options so ro)\<lparr>pod_namespace := app_getenv A w (app_namespace_variable A)\<rparr>)
       (st\<lparr>app_world := w\<rparr>) = (o1, st1)"
    "complete_webhook A o1 st1 = ((None, o3), st3)"
    "complete_metrics A o3 st3 = ((None, o'), st')"
    by (rule complete_run_None)
  have 1: "tls_arrays st1 = tls_arrays st @ [Some DisableHttp2 # None # replicate n None]"
    "tls_opts o1 = \<lparr>slice_array = Some (length (tls_arrays st)), slice_len = 1\<rparr>" "run_raw o1 = ro"
    using complete_http2_spare [OF steps(1) _ _ n] assms(2) by (simp_all add: new_run_options_def)
  note 2 = complete_webhook_spare [OF steps(2) 1(1,2), unfolded 1(2,3)]
  note 3 = complete_metrics_spare [OF steps(3) conjunct1 [OF 2] conjunct1 [OF conjunct2 [OF 2]]]
  show ?thesis using 2 3 by (simp add: elements_spare map_filter_def)
qed

text \<open>
  C35. After a completion without error, neither server offers HTTP/2 unless it is enabled, and the
  metrics server serves with the certificate of its own watcher. So does the webhook server, but for one
  case: both certificate paths are set, HTTP/2 is disabled, and the runtime gives the slice of the one
  option that both lists start from an array with room for another. Then the two lists share that
  array, the metrics option overwrites the webhook option, and the webhooks are served with the
  certificate of the metrics server. A server without a certificate path keeps the certificate it had,
  one with a path has a watcher.
\<close>

theorem servers_use_their_certificates:
  assumes "complete_run A (new_run_options so ro) st = ((None, o'), st')"
  shows "server_config o' (tls_arrays st') (webhook_tls_opts o') cfg =
      \<lparr>next_protos = (if raw_enable_http2 ro then next_protos cfg else [''http/1.1'']),
       get_certificate = (if raw_webhook_cert_path ro = [] then get_certificate cfg
         else if servers_share_array A ro then metrics_watcher o' else webhook_watcher o')\<rparr> \<and>
    server_config o' (tls_arrays st') (metrics_tls (metrics_server o')) cfg =
      \<lparr>next_protos = (if raw_enable_http2 ro then next_protos cfg else [''http/1.1'']),
       get_certificate = (if raw_metrics_cert_path ro = [] then get_certificate cfg else metrics_watcher o')\<rparr> \<and>
    (raw_webhook_cert_path ro \<noteq> [] \<longrightarrow> webhook_watcher o' \<noteq> None) \<and>
    (raw_metrics_cert_path ro \<noteq> [] \<longrightarrow> metrics_watcher o' \<noteq> None)"
proof (cases "app_grow A 0 1 \<le> 1 \<or> raw_enable_http2 ro")
  case True
  from assms obtain w o1 st1 o3 st3 where steps:
    "complete_http2 A ((new_run_options so ro)\<lparr>pod_namespace := app_getenv A w (app_namespace_variable A)\<rparr>)
       (st\<lparr>app_world := w\<rparr>) = (o1, st1)"
    "complete_webhook A o1 st1 = ((None, o3), st3)"
    "complete_metrics A o3 st3 = ((None, o'), st')"
    by (rule complete_run_None)
  note h = complete_http2_facts [OF steps(1) _, simplified new_run_options_def, simplified, OF True [simplified]]
  note wh = complete_webhook_facts [OF steps(2) h(2,3)]
  note m = complete_metrics_facts [OF steps(3) wh(4,2,5)]
  show ?thesis
    using h wh m True by (auto simp: server_config_def apply_tls_option_def base_tls_def servers_share_array_def)
next
  case False
  with tls_with_spare_room [OF assms] show ?thesis
    by (auto simp: server_config_def apply_tls_option_def servers_share_array_def)
qed

end
