(* ===== verification/Schemes.thy ===== *)
theory Schemes
  imports Request_Log
begin

section \<open>Schemes\<close>

text \<open>
  \<open>api/install/install.go\<close> and \<open>api/dns/v1alpha1/groupversion_info.go\<close>: which API types the clients
  of the two commands can work with. A scheme and the functions that add the types of the imported
  API packages are parameters; \<open>scheme_law\<close> states what each of them promises. The kinds are the
  resources of the controller and the CustomResourceDefinitions of the init command.
\<close>

datatype scheme_kind = Served resource | CrdKind

text \<open>A function that adds types to a scheme: an error, if there was one, and the scheme.\<close>

type_synonym 's registration = "'s \<Rightarrow> string option \<times> 's"

record group_version =
  gv_group :: string
  gv_version :: string

record 's scheme_lib =
  new_scheme :: 's
  add_client_go :: "'s registration"
  add_api_extensions :: "'s registration"
  add_clusters_api :: "'s registration"
  add_provider_api :: "'s registration"
  add_flux_sources_api :: "'s registration"
  add_flux_helm_api :: "'s registration"
  add_to_group_version :: "group_version \<Rightarrow> 's \<Rightarrow> 's"
  add_known_types :: "group_version \<Rightarrow> string list \<Rightarrow> 's \<Rightarrow> 's"
  must_succeed :: "string option \<Rightarrow> unit outcome"
  builder_register :: "'s registration list \<Rightarrow> 's registration list \<Rightarrow> 's registration list"
  builder_add_to_scheme :: "'s registration list \<Rightarrow> 's registration"
  openmcp_group_name :: string
  kinds_of :: "'s \<Rightarrow> scheme_kind set"

subsection \<open>The scheme builder of the DNS API\<close>

definition dns_group_version :: "'s scheme_lib \<Rightarrow> group_version" where
  "dns_group_version S =
     \<lparr>gv_group = ''dns.'' @ openmcp_group_name S, gv_version = ''v1alpha1''\<rparr>"

text \<open>\<open>SchemeBuilder\<close> as the package variable is initialised.\<close>

definition initial_builder :: "'s scheme_lib \<Rightarrow> 's registration list" where
  "initial_builder S =
     builder_register S [] [\<lambda>s. (None, add_to_group_version S (dns_group_version S) s)]"

definition register_to_scheme_builder ::
  "'s scheme_lib \<Rightarrow> string list \<Rightarrow> 's registration list \<Rightarrow> 's registration list" where
  "register_to_scheme_builder S types builder =
     builder_register S builder [\<lambda>s. (None, add_known_types S (dns_group_version S) types s)]"

text \<open>
  The builder after the \<open>init\<close> function of \<open>config_types.go\<close>. \<open>AddToScheme\<close> is a method value on
  the variable, so it sees what \<open>init\<close> registers later.
\<close>

definition dns_builder :: "'s scheme_lib \<Rightarrow> 's registration list" where
  "dns_builder S =
     register_to_scheme_builder S [''DNSServiceConfig'', ''DNSServiceConfigList''] (initial_builder S)"

definition add_dns_api :: "'s scheme_lib \<Rightarrow> 's registration" where
  "add_dns_api S = builder_add_to_scheme S (dns_builder S)"

subsection \<open>Installation\<close>

text \<open>\<open>utilruntime.Must\<close>, applied to the error of a registration.\<close>

definition must :: "'s scheme_lib \<Rightarrow> 's registration \<Rightarrow> 's \<Rightarrow> 's outcome" where
  "must S f s = (case f s of (e, s') \<Rightarrow> bind_outcome (must_succeed S e) (\<lambda>_. Returned s'))"

definition install_crd_apis :: "'s scheme_lib \<Rightarrow> 's \<Rightarrow> 's outcome" where
  "install_crd_apis S s0 =
     bind_outcome (must S (add_client_go S) s0) (\<lambda>s.
     must S (add_api_extensions S) s)"

definition install_operator_apis_platform :: "'s scheme_lib \<Rightarrow> 's \<Rightarrow> 's outcome" where
  "install_operator_apis_platform S s0 =
     bind_outcome (must S (add_client_go S) s0) (\<lambda>s.
     bind_outcome (must S (add_dns_api S) s) (\<lambda>s.
     bind_outcome (must S (add_clusters_api S) s) (\<lambda>s.
     bind_outcome (must S (add_provider_api S) s) (\<lambda>s.
     bind_outcome (must S (add_flux_sources_api S) s) (\<lambda>s.
     must S (add_flux_helm_api S) s)))))"

subsection \<open>What the libraries promise\<close>

text \<open>A registration that succeeds adds the given kinds and loses none; \<open>Must\<close> panics on an error.\<close>

definition adds :: "'s scheme_lib \<Rightarrow> scheme_kind set \<Rightarrow> 's registration \<Rightarrow> bool" where
  "adds S new f \<longleftrightarrow> (\<forall>s s'. f s = (None, s') \<longrightarrow> kinds_of S s \<union> new \<subseteq> kinds_of S s')"

primrec run_registrations :: "'s registration list \<Rightarrow> 's registration" where
  "run_registrations [] s = (None, s)"
| "run_registrations (f # fs) s =
     (case f s of (Some e, s') \<Rightarrow> (Some e, s') | (None, s') \<Rightarrow> run_registrations fs s')"

definition scheme_law :: "'s scheme_lib \<Rightarrow> bool" where
  "scheme_law S \<longleftrightarrow>
     adds S {Served RSecret, Served RNamespace} (add_client_go S) \<and>
     adds S {CrdKind} (add_api_extensions S) \<and>
     adds S {Served RCluster} (add_clusters_api S) \<and>
     adds S {Served RService} (add_provider_api S) \<and>
     adds S (range (Served \<circ> RSource)) (add_flux_sources_api S) \<and>
     adds S {Served RRelease} (add_flux_helm_api S) \<and>
     (\<forall>gv. adds S {} (\<lambda>s. (None, add_to_group_version S gv s))) \<and>
     (\<forall>types. adds S (if ''DNSServiceConfig'' \<in> set types then {Served RConfig} else {})
        (\<lambda>s. (None, add_known_types S (dns_group_version S) types s))) \<and>
     (\<forall>e. must_succeed S e = (if e = None then Returned () else Panicked LibraryPanic)) \<and>
     (\<forall>b fs. builder_register S b fs = b @ fs) \<and>
     (\<forall>b. builder_add_to_scheme S b = run_registrations b)"

lemma adds_must:
  assumes "scheme_law S" and "adds S new f" and "must S f s = Returned s'"
  shows "kinds_of S s \<union> new \<subseteq> kinds_of S s'"
  using assms by (auto simp: must_def adds_def scheme_law_def split: prod.splits if_splits)

lemma adds_Nil: "adds S {} (run_registrations [])"
  by (simp add: adds_def)

lemma adds_Cons:
  assumes "adds S new f" and "adds S rest (run_registrations fs)"
  shows "adds S (new \<union> rest) (run_registrations (f # fs))"
  unfolding adds_def
proof (intro allI impI)
  fix s s'
  assume "run_registrations (f # fs) s = (None, s')"
  then obtain s1 where "f s = (None, s1)" "run_registrations fs s1 = (None, s')"
    by (auto split: prod.splits option.splits)
  with assms have "kinds_of S s \<union> new \<subseteq> kinds_of S s1" "kinds_of S s1 \<union> rest \<subseteq> kinds_of S s'"
    by (simp_all add: adds_def)
  then show "kinds_of S s \<union> (new \<union> rest) \<subseteq> kinds_of S s'" by blast
qed

lemma adds_dns_api:
  assumes "scheme_law S"
  shows "adds S {Served RConfig} (add_dns_api S)"
proof -
  let ?gv = "\<lambda>s. (None :: string option, add_to_group_version S (dns_group_version S) s)"
  let ?types = "[''DNSServiceConfig'', ''DNSServiceConfigList'']"
  let ?known = "\<lambda>s. (None :: string option, add_known_types S (dns_group_version S) ?types s)"
  have gv: "adds S {} ?gv" using assms unfolding scheme_law_def by blast
  have "adds S (if ''DNSServiceConfig'' \<in> set ?types then {Served RConfig} else {}) ?known"
    using assms unfolding scheme_law_def by blast
  then have "adds S {Served RConfig} ?known" by simp
  from adds_Cons [OF gv adds_Cons [OF this adds_Nil]]
  have "adds S {Served RConfig} (run_registrations [?gv, ?known])" by simp
  moreover have "builder_register S b fs = b @ fs" "builder_add_to_scheme S b = run_registrations b" for b fs
    using assms unfolding scheme_law_def by blast+
  then have "add_dns_api S = run_registrations [?gv, ?known]"
    by (simp add: add_dns_api_def dns_builder_def register_to_scheme_builder_def initial_builder_def)
  ultimately show ?thesis by simp
qed

subsection \<open>Properties\<close>

text \<open>
  C38. The scheme of the run command knows every kind of object that the controller reads or writes, on
  the platform cluster and on the target clusters, and that of the init command knows
  CustomResourceDefinitions.
\<close>

theorem installed_schemes_are_complete:
  assumes "scheme_law S"
  shows "(install_operator_apis_platform S s0 = Returned s \<longrightarrow> range Served \<subseteq> kinds_of S s) \<and>
         (install_crd_apis S s0 = Returned s \<longrightarrow> CrdKind \<in> kinds_of S s)"
proof -
  have known: "adds S {Served RSecret, Served RNamespace} (add_client_go S)"
    "adds S {CrdKind} (add_api_extensions S)"
    "adds S {Served RCluster} (add_clusters_api S)" "adds S {Served RService} (add_provider_api S)"
    "adds S (range (Served \<circ> RSource)) (add_flux_sources_api S)"
    "adds S {Served RRelease} (add_flux_helm_api S)"
    using assms by (simp_all add: scheme_law_def)
  have "Served res \<in> {Served RSecret, Served RNamespace} \<union> {Served RConfig} \<union> {Served RCluster} \<union>
      {Served RService} \<union> range (Served \<circ> RSource) \<union> {Served RRelease}" for res
    by (cases res) auto
  then have every: "range Served \<subseteq> {Served RSecret, Served RNamespace} \<union> {Served RConfig} \<union>
      {Served RCluster} \<union> {Served RService} \<union> range (Served \<circ> RSource) \<union> {Served RRelease}" by blast
  have "range Served \<subseteq> kinds_of S s" if run: "install_operator_apis_platform S s0 = Returned s"
  proof -
    from run obtain s1 s2 s3 s4 s5 where steps: "must S (add_client_go S) s0 = Returned s1"
      "must S (add_dns_api S) s1 = Returned s2" "must S (add_clusters_api S) s2 = Returned s3"
      "must S (add_provider_api S) s3 = Returned s4" "must S (add_flux_sources_api S) s4 = Returned s5"
      "must S (add_flux_helm_api S) s5 = Returned s"
      by (auto simp: install_operator_apis_platform_def bind_outcome_Returned_iff)
    note grows = adds_must [OF assms known(1) steps(1)] adds_must [OF assms adds_dns_api [OF assms] steps(2)]
      adds_must [OF assms known(3) steps(3)] adds_must [OF assms known(4) steps(4)]
      adds_must [OF assms known(5) steps(5)] adds_must [OF assms known(6) steps(6)]
    have grow: "P \<union> new \<union> m \<subseteq> k'" if "P \<union> new \<subseteq> k" "k \<union> m \<subseteq> k'" for P new m k k' :: "scheme_kind set"
      using that by blast
    show ?thesis
      using grow [OF grow [OF grow [OF grow [OF grow [OF grows(1,2)] grows(3)] grows(4)] grows(5)] grows(6)]
      by (intro subset_trans [OF every]) (simp only: le_sup_iff simp_thms)
  qed
  moreover have "CrdKind \<in> kinds_of S s" if "install_crd_apis S s0 = Returned s"
    using that by (auto simp: install_crd_apis_def bind_outcome_Returned_iff dest!: adds_must [OF assms known(2)])
  ultimately show ?thesis by blast
qed

end
