(* ===== verification/Startup.thy ===== *)
theory Startup
  imports Command_Line Schemes
begin

section \<open>The commands\<close>

text \<open>
  \<open>run.go\<close>, \<open>init.go\<close> and \<open>print.go\<close> of \<open>cmd/platform-service-dns/app\<close>: what the run and the init
  command do with their options. The calls into controller-runtime and the CRD library that may fail
  are steps; \<open>perform\<close> is the library behind them. Printed output is kept in the state.
\<close>

subsection \<open>Steps\<close>

record manager_options =
  manager_metrics :: metrics_options
  manager_webhook_tls :: slice
  manager_probe_addr :: string
  manager_pprof_addr :: string
  manager_leader_election :: bool
  manager_leader_id :: string

text \<open>
  The CRD manager of the init command: the label that says where a CRD belongs, where the CRDs are read
  from (\<open>CRDs\<close> of \<open>api/crds/crds.go\<close>, a directory of the embedded files), and the values of the label
  that are mapped to the platform cluster.
\<close>

datatype crd_source = EmbeddedCrds string

record crd_manager =
  crd_label :: string
  crd_files :: crd_source
  crd_platform_values :: "string list"

definition crds :: crd_source where
  "crds = EmbeddedCrds ''manifests''"

datatype 's startup_step =
  InitializeClient 's
| CreateManager manager_options
| ReadConfig namespaced_name
| SetupReconciler string string string string
| AddWatcher watcher
| AddHealthCheck string
| AddReadyCheck string
| StartManager
| ApplyCrds crd_manager

datatype startup_error =
  ClientFailed api_error
| ManagerFailed api_error
| ConfigMissing string
| ConfigUnreadable string api_error
| ReconcilerFailed api_error
| MetricsWatcherNotAdded api_error
| WebhookWatcherNotAdded api_error
| HealthCheckFailed api_error
| ReadyCheckFailed api_error
| ManagerStopped api_error
| CrdsFailed api_error

record ('s, 'w) startup_lib =
  perform :: "'s startup_step \<Rightarrow> 'w \<Rightarrow> api_error option \<times> 'w"
  openmcp_cluster_label :: string
  purpose_platform :: string

definition attempt ::
  "('w \<Rightarrow> api_error option \<times> 'w) \<Rightarrow> (api_error \<Rightarrow> startup_error) \<Rightarrow>
   ('w, startup_error option) comp \<Rightarrow> ('w, startup_error option) comp" where
  "attempt call err rest w =
     (case call w of
        (Some e, w1) \<Rightarrow> (Returned (Some (err e)), w1)
      | (None, w1) \<Rightarrow> rest w1)"

definition if_present :: "'a option \<Rightarrow> ('a \<Rightarrow> ('w, 'b) comp \<Rightarrow> ('w, 'b) comp) \<Rightarrow> ('w, 'b) comp \<Rightarrow> ('w, 'b) comp" where
  "if_present p f rest = (case p of None \<Rightarrow> rest | Some a \<Rightarrow> f a rest)"

subsection \<open>The run command\<close>

definition manager_options_of :: "run_options \<Rightarrow> manager_options" where
  "manager_options_of o' =
     \<lparr>manager_metrics = metrics_server o',
      manager_webhook_tls = webhook_tls_opts o',
      manager_probe_addr = raw_probe_addr (run_raw o'),
      manager_pprof_addr = raw_pprof_addr (run_raw o'),
      manager_leader_election = raw_leader_election (run_raw o'),
      manager_leader_id = ''github.com/openmcp-project/platform-service-dns''\<rparr>"

definition config_key :: "run_options \<Rightarrow> namespaced_name" where
  "config_key o' = \<lparr>nn_namespace = [], nn_name = raw_provider_name (shared_raw o')\<rparr>"

definition reconciler_step :: "run_options \<Rightarrow> 's startup_step" where
  "reconciler_step o' = SetupReconciler controller_name (raw_provider_name (shared_raw o'))
     (pod_namespace o') (raw_environment (shared_raw o'))"

definition run_manager ::
  "'s scheme_lib \<Rightarrow> ('s, 'w) startup_lib \<Rightarrow> run_options \<Rightarrow> ('w, startup_error option) comp" where
  "run_manager S T o' =
     bind_st (of_outcome (install_operator_apis_platform S (new_scheme S))) (\<lambda>scheme.
     attempt (perform T (InitializeClient scheme)) ClientFailed
    (attempt (perform T (CreateManager (manager_options_of o'))) ManagerFailed
    (attempt (perform T (ReadConfig (config_key o')))
       (\<lambda>e. if e = NotFound then ConfigMissing (nn_name (config_key o'))
            else ConfigUnreadable (nn_name (config_key o')) e)
    (attempt (perform T (reconciler_step o')) ReconcilerFailed
    (if_present (metrics_watcher o') (\<lambda>wt. attempt (perform T (AddWatcher wt)) MetricsWatcherNotAdded)
    (if_present (webhook_watcher o') (\<lambda>wt. attempt (perform T (AddWatcher wt)) WebhookWatcherNotAdded)
    (attempt (perform T (AddHealthCheck ''healthz'')) HealthCheckFailed
    (attempt (perform T (AddReadyCheck ''readyz'')) ReadyCheckFailed
    (attempt (perform T StartManager) ManagerStopped
    (return_st None))))))))))"

subsection \<open>The init command\<close>

definition run_init ::
  "'s scheme_lib \<Rightarrow> ('s, 'w) startup_lib \<Rightarrow> ('w, startup_error option) comp" where
  "run_init S T =
     bind_st (of_outcome (install_crd_apis S (new_scheme S))) (\<lambda>scheme.
     attempt (perform T (InitializeClient scheme)) ClientFailed
    (attempt (perform T (ApplyCrds
        \<lparr>crd_label = openmcp_cluster_label T, crd_files = crds, crd_platform_values = [purpose_platform T]\<rparr>)) CrdsFailed
    (return_st None)))"

subsection \<open>Output\<close>

text \<open>\<open>cmd.Println\<close> and \<open>cmd.Print\<close>.\<close>

datatype output_item = OutLine string | OutText string

record 'w process =
  app_state :: "'w app_state"
  outputs :: "output_item list"

definition say :: "output_item \<Rightarrow> 'w process \<Rightarrow> 'w process" where
  "say out p = p\<lparr>outputs := outputs p @ [out]\<rparr>"

text \<open>All printing of options: the YAML text, or a line with the error.\<close>

definition print_yaml ::
  "'w app_lib \<Rightarrow> string \<Rightarrow> (string \<times> option_value) list \<Rightarrow> 'w process \<Rightarrow> 'w process" where
  "print_yaml A prefix entries p =
     (case app_marshal A entries of
        Inl e \<Rightarrow> say (OutLine (prefix @ e)) p
      | Inr data \<Rightarrow> say (OutText data) p)"

definition print_raw_shared :: "'w app_lib \<Rightarrow> raw_shared_options \<Rightarrow> 'w process \<Rightarrow> 'w process" where
  "print_raw_shared A o' = print_yaml A ''error marshalling raw shared options: '' (shared_fields o')"

definition print_completed_shared :: "'w app_lib \<Rightarrow> raw_shared_options \<Rightarrow> 'w process \<Rightarrow> 'w process" where
  "print_completed_shared A o' p =
     print_yaml A ''error marshalling completed shared options: ''
       [(''platformCluster'', Text (app_endpoint A (app_world (app_state p)))),
        (''providerName'', Text (raw_provider_name o'))] p"

definition print_raw_run :: "'w app_lib \<Rightarrow> raw_run_options \<Rightarrow> 'w process \<Rightarrow> 'w process" where
  "print_raw_run A o' = print_yaml A ''error marshalling raw options: '' (run_fields o')"

definition print_completed_run :: "'w app_lib \<Rightarrow> 'w process \<Rightarrow> 'w process" where
  "print_completed_run A = print_yaml A ''error marshalling completed options: '' []"

definition raw_frame :: "('w process \<Rightarrow> 'w process) \<Rightarrow> 'w process \<Rightarrow> 'w process" where
  "raw_frame body p =
     say (OutLine ''########## RAW OPTIONS END ##########'')
       (body (say (OutLine ''########## RAW OPTIONS START ##########'') p))"

definition completed_frame :: "('w process \<Rightarrow> 'w process) \<Rightarrow> 'w process \<Rightarrow> 'w process" where
  "completed_frame body p =
     say (OutLine ''########## COMPLETED OPTIONS END ##########'')
       (body (say (OutLine ''########## COMPLETED OPTIONS START ##########'') p))"

definition print_raw_run_options :: "'w app_lib \<Rightarrow> run_options \<Rightarrow> 'w process \<Rightarrow> 'w process" where
  "print_raw_run_options A o' =
     raw_frame (\<lambda>p. print_raw_run A (run_raw o') (print_raw_shared A (shared_raw o') p))"

definition print_completed_run_options :: "'w app_lib \<Rightarrow> run_options \<Rightarrow> 'w process \<Rightarrow> 'w process" where
  "print_completed_run_options A o' =
     completed_frame (\<lambda>p. print_completed_run A (print_completed_shared A (shared_raw o') p))"

definition print_raw_init_options :: "'w app_lib \<Rightarrow> raw_shared_options \<Rightarrow> 'w process \<Rightarrow> 'w process" where
  "print_raw_init_options A o' = raw_frame (print_raw_shared A o')"

definition print_completed_init_options :: "'w app_lib \<Rightarrow> raw_shared_options \<Rightarrow> 'w process \<Rightarrow> 'w process" where
  "print_completed_init_options A o' = completed_frame (print_completed_shared A o')"

subsection \<open>Executing a command\<close>

text \<open>A command ends normally or panics with an error.\<close>

datatype command_end =
  CommandDone
| CompletionFailed option_error
| StartupFailed startup_error
| CommandPanicked panic

definition finish_command :: "('w, startup_error option) comp \<Rightarrow> 'w process \<Rightarrow> command_end \<times> 'w process" where
  "finish_command run p =
     (case run (app_world (app_state p)) of
        (res, w) \<Rightarrow>
          (case res of
             Panicked pn \<Rightarrow> CommandPanicked pn
           | Returned (Some e) \<Rightarrow> StartupFailed e
           | Returned None \<Rightarrow> CommandDone,
           p\<lparr>app_state := (app_state p)\<lparr>app_world := w\<rparr>\<rparr>))"

definition dry_run_line :: output_item where
  "dry_run_line = OutLine ''=== END OF DRY RUN ===''"

definition run_command ::
  "'w app_lib \<Rightarrow> 's scheme_lib \<Rightarrow> ('s, 'w) startup_lib \<Rightarrow> run_options \<Rightarrow> 'w process \<Rightarrow> command_end \<times> 'w process" where
  "run_command A S T o0 p0 =
     (let p1 = print_raw_run_options A o0 p0 in
      case complete_run A o0 (app_state p1) of
        ((err, o'), st) \<Rightarrow>
          let p2 = p1\<lparr>app_state := st\<rparr> in
          (case err of
             Some e \<Rightarrow> (CompletionFailed e, p2)
           | None \<Rightarrow>
               let p3 = print_completed_run_options A o' p2 in
               if raw_dry_run (shared_raw o') then (CommandDone, say dry_run_line p3)
               else finish_command (run_manager S T o') p3))"

definition init_command ::
  "'w app_lib \<Rightarrow> 's scheme_lib \<Rightarrow> ('s, 'w) startup_lib \<Rightarrow> raw_shared_options \<Rightarrow> 'w process \<Rightarrow> command_end \<times> 'w process" where
  "init_command A S T o' p0 =
     (let p1 = print_raw_init_options A o' p0 in
      case complete_shared A o' (app_world (app_state p1)) of
        (err, w) \<Rightarrow>
          let p2 = p1\<lparr>app_state := (app_state p1)\<lparr>app_world := w\<rparr>\<rparr> in
          (case err of
             Some e \<Rightarrow> (CompletionFailed e, p2)
           | None \<Rightarrow>
               let p3 = print_completed_init_options A o' p2 in
               if raw_dry_run o' then (CommandDone, say dry_run_line p3)
               else finish_command (run_init S T) p3))"

subsection \<open>The steps of a start\<close>

text \<open>The library with a log of the steps and their results.\<close>

definition logged_steps ::
  "('s, 'w) startup_lib \<Rightarrow> ('s, 'w \<times> ('s startup_step \<times> api_error option) list) startup_lib" where
  "logged_steps T =
     \<lparr>perform = (\<lambda>step (w, l). case perform T step w of (e, w') \<Rightarrow> (e, w', l @ [(step, e)])),
      openmcp_cluster_label = openmcp_cluster_label T, purpose_platform = purpose_platform T\<rparr>"

text \<open>A start as a list of steps, each with the error it leads to.\<close>

primrec perform_all ::
  "('s, 'w) startup_lib \<Rightarrow> ('s startup_step \<times> (api_error \<Rightarrow> startup_error)) list \<Rightarrow>
   ('w, startup_error option) comp" where
  "perform_all T [] = return_st None"
| "perform_all T (step # steps) = attempt (perform T (fst step)) (snd step) (perform_all T steps)"

definition startup_plan :: "run_options \<Rightarrow> 's \<Rightarrow> ('s startup_step \<times> (api_error \<Rightarrow> startup_error)) list" where
  "startup_plan o' scheme =
     [(InitializeClient scheme, ClientFailed),
      (CreateManager (manager_options_of o'), ManagerFailed),
      (ReadConfig (config_key o'),
       \<lambda>e. if e = NotFound then ConfigMissing (nn_name (config_key o'))
           else ConfigUnreadable (nn_name (config_key o')) e),
      (reconciler_step o', ReconcilerFailed)] @
     (case metrics_watcher o' of None \<Rightarrow> [] | Some wt \<Rightarrow> [(AddWatcher wt, MetricsWatcherNotAdded)]) @
     (case webhook_watcher o' of None \<Rightarrow> [] | Some wt \<Rightarrow> [(AddWatcher wt, WebhookWatcherNotAdded)]) @
     [(AddHealthCheck ''healthz'', HealthCheckFailed), (AddReadyCheck ''readyz'', ReadyCheckFailed),
      (StartManager, ManagerStopped)]"

lemma run_manager_follows_plan:
  "run_manager S T o' =
     bind_st (of_outcome (install_operator_apis_platform S (new_scheme S)))
       (\<lambda>scheme. perform_all T (startup_plan o' scheme))"
  by (auto simp: run_manager_def startup_plan_def if_present_def split: option.split)

lemma perform_all_log:
  assumes "perform_all (logged_steps T) steps (w, l) = (x, w', l')"
  shows "(\<exists>ps err rest e. steps = ps @ (fst (last l'), err) # rest \<and>
            l' = l @ map (\<lambda>step. (fst step, None)) ps @ [(fst (last l'), Some e)] \<and>
            x = Returned (Some (err e))) \<or>
         l' = l @ map (\<lambda>step. (fst step, None)) steps \<and> x = Returned None"
  using assms
proof (induction steps arbitrary: w l)
  case Nil
  then show ?case by (simp add: return_st_def)
next
  case (Cons step steps)
  obtain e w1 where call: "perform T (fst step) w = (e, w1)" by (cases "perform T (fst step) w")
  show ?case
  proof (cases e)
    case None
    with call Cons.prems have "perform_all (logged_steps T) steps (w1, l @ [(fst step, None)]) = (x, w', l')"
      by (simp add: attempt_def logged_steps_def)
    from Cons.IH [OF this] show ?thesis
    proof (elim disjE exE conjE)
      fix ps err rest e
      assume "steps = ps @ (fst (last l'), err) # rest"
        "l' = (l @ [(fst step, None)]) @ map (\<lambda>step. (fst step, None)) ps @ [(fst (last l'), Some e)]"
        "x = Returned (Some (err e))"
      then show ?thesis
        by (intro disjI1 exI [of _ "step # ps"] exI [of _ err] exI [of _ rest] exI [of _ e]) simp
    qed simp
  next
    case (Some err)
    with call Cons.prems have "l' = l @ [(fst step, Some err)]" "x = Returned (Some (snd step err))"
      by (simp_all add: attempt_def logged_steps_def)
    then show ?thesis
      by (intro disjI1 exI [of _ "[]"] exI [of _ "snd step"] exI [of _ steps] exI [of _ err]) simp
  qed
qed

lemma complete_run_shared_raw:
  "complete_run A o0 st = ((err, o'), st') \<Longrightarrow> shared_raw o' = shared_raw o0"
  by (auto simp: complete_run_def complete_http2_def complete_webhook_def complete_metrics_def Let_def
      split: prod.splits option.splits sum.splits if_splits)

lemma app_state_printing [simp]:
  "app_state (say out p) = app_state p"
  "app_state (print_yaml A prefix entries p) = app_state p"
  "app_state (print_raw_shared A so p) = app_state p"
  "app_state (print_raw_run_options A o0 p) = app_state p"
  "app_state (print_completed_run_options A o0 p) = app_state p"
  by (simp_all add: say_def print_yaml_def print_raw_shared_def print_completed_shared_def print_raw_run_def
      print_completed_run_def raw_frame_def completed_frame_def print_raw_run_options_def
      print_completed_run_options_def split: sum.split)

lemma last_output_say [simp]: "last (outputs (say out p)) = out"
  by (simp add: say_def)

subsection \<open>Properties\<close>

text \<open>
  C37. The manager is started last: only after the configuration of the provider was found, the
  reconciler was set up, every certificate watcher that the options hold was added, and both health
  checks were installed. How the command ends is then how the manager ended.
\<close>

theorem manager_started_last:
  assumes "run_manager S (logged_steps T) o' (w, []) = (x, w', l)" and "(StartManager, e) \<in> set l"
  shows "(ReadConfig (config_key o'), None) \<in> set l \<and> (reconciler_step o', None) \<in> set l \<and>
    (\<forall>wt. metrics_watcher o' = Some wt \<or> webhook_watcher o' = Some wt \<longrightarrow> (AddWatcher wt, None) \<in> set l) \<and>
    (AddHealthCheck ''healthz'', None) \<in> set l \<and> (AddReadyCheck ''readyz'', None) \<in> set l \<and>
    last l = (StartManager, e) \<and> x = Returned (map_option ManagerStopped e)"
proof -
  obtain scheme where run: "perform_all (logged_steps T) (startup_plan o' scheme) (w, []) = (x, w', l)"
  proof (cases "install_operator_apis_platform S (new_scheme S)")
    case (Returned scheme)
    with assms(1) that show ?thesis
      by (simp add: run_manager_follows_plan bind_st_def of_outcome_def)
  next
    case (Panicked p)
    with assms show ?thesis by (simp add: run_manager_follows_plan bind_st_def of_outcome_def)
  qed
  obtain before where plan: "startup_plan o' scheme = before @ [(StartManager, ManagerStopped)]"
    and not_before: "StartManager \<notin> fst ` set before"
    and needed: "{ReadConfig (config_key o'), reconciler_step o', AddHealthCheck ''healthz'',
        AddReadyCheck ''readyz''} \<union> AddWatcher ` (set_option (metrics_watcher o') \<union> set_option (webhook_watcher o'))
      \<subseteq> fst ` set before"
    by (rule that [of "butlast (startup_plan o' scheme)"])
       (auto simp: startup_plan_def reconciler_step_def split: option.splits)
  from perform_all_log [OF run]
  consider (failed) ps err rest e' where "before @ [(StartManager, ManagerStopped)] = ps @ (fst (last l), err) # rest"
      "l = map (\<lambda>step. (fst step, None)) ps @ [(fst (last l), Some e')]" "x = Returned (Some (err e'))"
    | (ended) "l = map (\<lambda>step. (fst step, None)) (before @ [(StartManager, ManagerStopped)])" "x = Returned None"
    unfolding plan by auto
  then have log: "\<exists>res. l = map (\<lambda>step. (fst step, None)) before @ [(StartManager, res)] \<and>
      x = Returned (map_option ManagerStopped res)"
  proof cases
    case (failed ps err rest e')
    define s where "s = fst (last l)"
    note failed = failed [folded s_def]
    have "rest = []"
    proof (rule ccontr)
      assume "rest \<noteq> []"
      then obtain init where "before = ps @ (s, err) # init"
        using failed(1) by (cases rest rule: rev_cases) auto
      moreover have "StartManager \<in> fst ` set l" using assms(2) by force
      then have "StartManager \<in> insert s (fst ` set ps)"
        unfolding failed(2) by (simp add: image_image)
      ultimately show False using not_before by auto
    qed
    with failed(1) have "ps = before" "s = StartManager" "err = ManagerStopped" by simp_all
    with failed(2,3) show ?thesis by (intro exI [of _ "Some e'"]) simp
  next
    case ended
    then show ?thesis by simp
  qed
  then obtain res where res: "l = map (\<lambda>step. (fst step, None)) before @ [(StartManager, res)]"
    "x = Returned (map_option ManagerStopped res)" by blast
  with assms(2) not_before have "e = res" by force
  have "(step, None) \<in> set l" if "step \<in> fst ` set before" for step
    using that res(1) by auto
  with needed have "(ReadConfig (config_key o'), None) \<in> set l" "(reconciler_step o', None) \<in> set l"
    "\<And>wt. metrics_watcher o' = Some wt \<or> webhook_watcher o' = Some wt \<Longrightarrow> (AddWatcher wt, None) \<in> set l"
    "(AddHealthCheck ''healthz'', None) \<in> set l" "(AddReadyCheck ''readyz'', None) \<in> set l"
    by auto
  with res \<open>e = res\<close> show ?thesis by simp
qed

text \<open>
  A dry run ends before anything is started: whatever the cluster libraries would do, the command
  ends the same way, with the options printed and nothing else done than completing them.
\<close>

theorem dry_run_starts_nothing:
  assumes "raw_dry_run (shared_raw o0)"
  shows "run_command A S T o0 p = run_command A S' T' o0 p \<and>
    init_command A S T (shared_raw o0) p = init_command A S' T' (shared_raw o0) p \<and>
    (fst (run_command A S T o0 p) = CommandDone \<longrightarrow>
       last (outputs (snd (run_command A S T o0 p))) = dry_run_line \<and>
       app_state (snd (run_command A S T o0 p)) = snd (complete_run A o0 (app_state p)))"
  using assms complete_run_shared_raw [of A o0]
  by (simp add: run_command_def init_command_def Let_def split: prod.split option.split)

end
