(* ===== verification/Command_Witnesses.thy ===== *)
theory Command_Witnesses
  imports Watches Startup Sample_Environment
begin

section \<open>Witnesses for watches and commands\<close>

text \<open>
  The properties of the watches, the options, the schemes and the commands, each at a concrete input
  where its hypotheses hold.
\<close>

subsection \<open>Watches\<close>

definition sample_predicates :: "('x object_meta_scheme watch_event \<Rightarrow> bool) \<Rightarrow> 'x object_meta_scheme predicates" where
  "sample_predicates changed =
     \<lparr>pred_and = (\<lambda>fs e. list_all (\<lambda>f. f e) fs),
      pred_or = (\<lambda>fs e. list_ex (\<lambda>f. f e) fs),
      pred_not = (\<lambda>f e. \<not> f e),
      pred_generation_changed = changed,
      pred_deletion_changed = (\<lambda>e. case e of
          Updated old new \<Rightarrow> meta_deleting new \<and> \<not> meta_deleting old | _ \<Rightarrow> False),
      pred_got_annotation = (\<lambda>k v e. case e of
          Updated old new \<Rightarrow> meta_annotations old k \<noteq> Some v \<and> meta_annotations new k = Some v | _ \<Rightarrow> False),
      pred_lost_annotation = (\<lambda>k v e. case e of
          Updated old new \<Rightarrow> meta_annotations old k = Some v \<and> meta_annotations new k \<noteq> Some v | _ \<Rightarrow> False),
      pred_has_annotation = (\<lambda>k v e. meta_annotations (event_object e) k = Some v),
      pred_exact_name = (\<lambda>n ns e. object_key (event_object e) = \<lparr>nn_namespace = ns, nn_name = n\<rparr>),
      pred_of_object = (\<lambda>f e. f (event_object e))\<rparr>"

definition sample_handlers :: "('x object_meta_scheme, 'w) event_handlers" where
  "sample_handlers =
     \<lparr>enqueue_object = (\<lambda>e. [object_key (event_object e)]),
      enqueue_mapped = (\<lambda>f e. map_objects f (event_objects e))\<rparr>"

definition sample_watches :: "server watch_lib" where
  "sample_watches =
     \<lparr>cluster_predicates = sample_predicates (\<lambda>e. True), config_predicates = sample_predicates (\<lambda>e. True),
      secret_predicates = sample_predicates (\<lambda>e. True), cluster_handlers = sample_handlers,
      config_handlers = sample_handlers, secret_handlers = sample_handlers\<rparr>"

lemma sample_watch_laws:
  "predicate_law (cluster_predicates sample_watches)" "handler_law (cluster_handlers sample_watches)"
  "predicate_law (config_predicates sample_watches)" "handler_law (config_handlers sample_watches)"
  by (simp_all add: sample_watches_def predicate_law_def sample_predicates_def handler_law_def sample_handlers_def)

theorem ignored_clusters_get_no_requests_witness:
  "watch_requests sample_watches sample_lib sample_reconciler []
     (ClusterChanged (Created (sample_cluster [] [''op'' \<mapsto> ''ignore'', ''dns.op'' \<mapsto> ''reconcile''] False)))
     deploy_server = ([], deploy_server)"
  by (rule ignored_clusters_get_no_requests [OF sample_watch_laws(1)])
     (simp add: requested_operation_def dns_operation_annotation_def sample_lib_def sample_cluster_def)

theorem annotation_changes_request_the_cluster_witness:
  "set (fst (watch_requests sample_watches sample_lib sample_reconciler []
     (ClusterChanged (Updated (sample_cluster [] [''op'' \<mapsto> ''ignore''] False)
        (sample_cluster [] Map.empty False))) deploy_server)) =
   {\<lparr>nn_namespace = ''c'', nn_name = ''c1''\<rparr>}"
  using annotation_changes_request_the_cluster [OF sample_watch_laws(1,2), of "''op''" sample_lib
      "sample_cluster [] [''op'' \<mapsto> ''ignore''] False" "sample_cluster [] Map.empty False"]
  by (simp add: dns_operation_annotation_def sample_lib_def sample_cluster_def object_key_def)

theorem config_events_request_known_clusters_witness:
  "set (fst (watch_requests sample_watches sample_lib sample_reconciler
     [\<lparr>nn_namespace = ''c'', nn_name = ''c1''\<rparr>] (ConfigChanged (Created (sample_config []))) deploy_server)) =
   {\<lparr>nn_namespace = ''c'', nn_name = ''c1''\<rparr>}"
  unfolding config_events_request_known_clusters [OF sample_watch_laws(3,4) sample_laws(2,5)]
  by (simp add: sample_watches_def sample_predicates_def sample_config_def sample_reconciler_def object_key_def)

subsection \<open>Options\<close>

text \<open>
  The world counts the certificate watchers made so far; the runtime gives a new array the size that is
  needed.
\<close>

definition sample_app :: "nat app_lib" where
  "sample_app =
     \<lparr>app_marshal = (\<lambda>entries. Inr (concat (map fst entries))),
      app_get_logger = (\<lambda>w. (None, w)),
      app_init_rest_config = (\<lambda>w. (None, w)),
      app_getenv = (\<lambda>w name. ''dns-system''),
      app_namespace_variable = ''POD_NAMESPACE'',
      app_new_cert_watcher = (\<lambda>cert key n. (Inr n, Suc n)),
      app_endpoint = (\<lambda>w. ''https://platform''),
      app_grow = (\<lambda>old needed. needed)\<rparr>"

definition sample_shared :: raw_shared_options where
  "sample_shared = \<lparr>raw_environment = ''dev'', raw_provider_name = ''dns'', raw_dry_run = True\<rparr>"

definition sample_run :: raw_run_options where
  "sample_run = (raw_run_of Map.empty)\<lparr>raw_webhook_cert_path := ''webhook'', raw_metrics_cert_path := ''metrics''\<rparr>"

definition sample_state :: "nat app_state" where
  "sample_state = \<lparr>app_world = 0, tls_arrays = []\<rparr>"

lemma sample_completion:
  "fst (fst (complete_run sample_app (new_run_options sample_shared sample_run) sample_state)) = None"
  by code_simp

theorem servers_use_their_certificates_witness:
  "\<exists>o' st'. complete_run sample_app (new_run_options sample_shared sample_run) sample_state = ((None, o'), st') \<and>
     get_certificate (server_config o' (tls_arrays st') (webhook_tls_opts o') \<lparr>next_protos = [], get_certificate = None\<rparr>) =
       webhook_watcher o' \<and> webhook_watcher o' \<noteq> None \<and>
     get_certificate (server_config o' (tls_arrays st') (metrics_tls (metrics_server o')) \<lparr>next_protos = [], get_certificate = None\<rparr>) =
       metrics_watcher o'"
proof -
  obtain o' st' where run: "complete_run sample_app (new_run_options sample_shared sample_run) sample_state =
      ((None, o'), st')"
    using sample_completion by (metis prod.collapse)
  have "\<not> servers_share_array sample_app sample_run" by (simp add: servers_share_array_def sample_app_def)
  with servers_use_their_certificates [OF run] run show ?thesis
    by (auto simp: sample_run_def)
qed

subsection \<open>Schemes\<close>

text \<open>A scheme is the set of the kinds it knows.\<close>

definition sample_schemes :: "scheme_kind set scheme_lib" where
  "sample_schemes =
     \<lparr>new_scheme = {},
      add_client_go = (\<lambda>s. (None, {Served RSecret, Served RNamespace} \<union> s)),
      add_api_extensions = (\<lambda>s. (None, {CrdKind} \<union> s)),
      add_clusters_api = (\<lambda>s. (None, {Served RCluster} \<union> s)),
      add_provider_api = (\<lambda>s. (None, {Served RService} \<union> s)),
      add_flux_sources_api = (\<lambda>s. (None, {Served (RSource k) | k. True} \<union> s)),
      add_flux_helm_api = (\<lambda>s. (None, {Served RRelease} \<union> s)),
      add_to_group_version = (\<lambda>gv s. s),
      add_known_types = (\<lambda>gv types s. if ''DNSServiceConfig'' \<in> set types then {Served RConfig} \<union> s else s),
      must_succeed = (\<lambda>e. if e = None then Returned () else Panicked LibraryPanic),
      builder_register = (@),
      builder_add_to_scheme = run_registrations,
      openmcp_group_name = ''openmcp'',
      kinds_of = (\<lambda>s. s)\<rparr>"

lemma sample_scheme_law: "scheme_law sample_schemes"
  by (auto simp: scheme_law_def adds_def sample_schemes_def)

lemma sample_platform_scheme:
  "\<exists>s. install_operator_apis_platform sample_schemes {} = Returned s"
  by (simp add: install_operator_apis_platform_def must_def sample_schemes_def add_dns_api_def dns_builder_def
      register_to_scheme_builder_def initial_builder_def)

theorem installed_schemes_are_complete_witness:
  "\<exists>s. install_operator_apis_platform sample_schemes {} = Returned s \<and> range Served \<subseteq> kinds_of sample_schemes s"
  using sample_platform_scheme installed_schemes_are_complete [OF sample_scheme_law] by blast

subsection \<open>Commands\<close>

text \<open>A library whose steps all succeed; its world counts them.\<close>

definition sample_startup :: "(scheme_kind set, nat) startup_lib" where
  "sample_startup = \<lparr>perform = (\<lambda>step n. (None, Suc n)),
     openmcp_cluster_label = ''openmcp.cloud/cluster'', purpose_platform = ''platform''\<rparr>"

definition sample_options :: run_options where
  "sample_options = (new_run_options sample_shared sample_run)\<lparr>webhook_watcher := Some 7\<rparr>"

theorem manager_started_last_witness:
  "\<exists>x w' l. run_manager sample_schemes (logged_steps sample_startup) sample_options (0, []) = (x, w', l) \<and>
     (AddWatcher 7, None) \<in> set l \<and> last l = (StartManager, None) \<and> x = Returned None"
proof -
  obtain x w' l where run: "run_manager sample_schemes (logged_steps sample_startup) sample_options (0, []) = (x, w', l)"
    by (metis prod.collapse)
  obtain scheme where scheme: "install_operator_apis_platform sample_schemes {} = Returned scheme"
    using sample_platform_scheme by blast
  have "new_scheme sample_schemes = {}" by (simp add: sample_schemes_def)
  with run scheme have "(StartManager, None) \<in> set l"
    by (auto simp: run_manager_def bind_st_def of_outcome_def attempt_def logged_steps_def sample_startup_def
        if_present_def return_st_def split: option.splits)
  from manager_started_last [OF run this] run show ?thesis
    by (auto simp: sample_options_def)
qed

theorem dry_run_starts_nothing_witness:
  "last (outputs (snd (run_command sample_app sample_schemes sample_startup (new_run_options sample_shared sample_run)
     \<lparr>app_state = sample_state, outputs = []\<rparr>))) = dry_run_line"
proof -
  let ?p = "\<lparr>app_state = sample_state, outputs = []\<rparr>"
  let ?run = "run_command sample_app sample_schemes sample_startup (new_run_options sample_shared sample_run) ?p"
  have dry: "raw_dry_run (shared_raw (new_run_options sample_shared sample_run))"
    by (simp add: new_run_options_def sample_shared_def)
  obtain o' st where completed: "complete_run sample_app (new_run_options sample_shared sample_run) sample_state =
      ((None, o'), st)"
    using sample_completion by (metis prod.collapse)
  have "fst ?run = CommandDone"
    using complete_run_shared_raw [OF completed] dry
    by (simp add: run_command_def Let_def completed)
  with dry_run_starts_nothing [OF dry, of sample_app sample_schemes sample_startup ?p] show ?thesis by blast
qed

end
