(* ===== verification/Server_Laws.thy ===== *)
theory Server_Laws
  imports Request_Log
begin

section \<open>A server that stores what it is told\<close>

text \<open>
  For what a reconciliation achieves, the answers of the API servers have to mean something. Here the
  objects of all clusters are one map from places to objects, a view of the world, and
  \<open>server_law\<close> says how the answers relate to it as long as nobody else acts: a read shows what is
  stored, a successful write stores what it returns, a deletion removes the object or marks it. Any
  call may fail, and a failed call changes nothing. \<open>effect\<close> is a contract of a computation: where it
  may change the view at most, and what holds between the view before and after when it returns.
\<close>

subsection \<open>Objects\<close>

datatype any_object =
  ACluster cluster
| AConfig service_config
| AService platform_service
| ASecret secret
| ANamespace object_meta
| ASource flux_source
| ARelease helm_release

primrec any_meta :: "any_object \<Rightarrow> object_meta" where
  "any_meta (ACluster obj) = object_meta.truncate obj"
| "any_meta (AConfig obj) = object_meta.truncate obj"
| "any_meta (AService obj) = object_meta.truncate obj"
| "any_meta (ASecret obj) = object_meta.truncate obj"
| "any_meta (ANamespace obj) = obj"
| "any_meta (ASource obj) = object_meta.truncate obj"
| "any_meta (ARelease obj) = object_meta.truncate obj"

lemma truncate_fields [simp]:
  "meta_name (object_meta.truncate obj) = meta_name obj"
  "meta_namespace (object_meta.truncate obj) = meta_namespace obj"
  "meta_labels (object_meta.truncate obj) = meta_labels obj"
  "meta_deleting (object_meta.truncate obj) = meta_deleting obj"
  "meta_finalizers (object_meta.truncate obj) = meta_finalizers obj"
  by (simp_all add: object_meta.truncate_def)

type_synonym place = "side \<times> resource \<times> namespaced_name"
type_synonym objects = "place \<rightharpoonup> any_object"

subsection \<open>Honest servers\<close>

text \<open>
  Of a list it is only asked that selectors on the labels \<open>K\<close> are honoured.
\<close>

definition get_honest ::
  "('w \<Rightarrow> objects) \<Rightarrow> side \<Rightarrow> resource \<Rightarrow> ('o object_meta_scheme \<Rightarrow> any_object) \<Rightarrow>
   ('o object_meta_scheme, 'w) kind_api \<Rightarrow> bool" where
  "get_honest V sd res wrap api \<longleftrightarrow>
     (\<forall>k w ans w'. api_get api k w = (ans, w') \<longrightarrow> V w' = V w \<and>
        (case ans of
           Inr obj \<Rightarrow> V w (sd, res, k) = Some (wrap obj) \<and> object_key obj = k
         | Inl e \<Rightarrow> e = NotFound \<longrightarrow> V w (sd, res, k) = None))"

definition list_honest ::
  "string set \<Rightarrow> ('w \<Rightarrow> objects) \<Rightarrow> side \<Rightarrow> resource \<Rightarrow> ('o object_meta_scheme \<Rightarrow> any_object) \<Rightarrow>
   ('o object_meta_scheme, 'w) kind_api \<Rightarrow> bool" where
  "list_honest K V sd res wrap api \<longleftrightarrow>
     (\<forall>ns ls w ans w'. api_list api ns ls w = (ans, w') \<longrightarrow> V w' = V w \<and>
        (\<forall>objs. ans = Inr objs \<and> dom ls \<subseteq> K \<longrightarrow>
           (\<forall>k obj. V w (sd, res, k) = Some (wrap obj) \<and> nn_namespace k = ns \<and> ls \<subseteq>\<^sub>m meta_labels obj \<longleftrightarrow>
              object_key obj = k \<and> obj \<in> set objs)))"

definition create_honest ::
  "('w \<Rightarrow> objects) \<Rightarrow> side \<Rightarrow> resource \<Rightarrow> ('o object_meta_scheme \<Rightarrow> any_object) \<Rightarrow>
   ('o object_meta_scheme, 'w) kind_api \<Rightarrow> bool" where
  "create_honest V sd res wrap api \<longleftrightarrow>
     (\<forall>obj w ans w'. api_create api obj w = (ans, w') \<longrightarrow>
        (case ans of
           None \<Rightarrow> V w' = (V w)((sd, res, object_key obj) \<mapsto> wrap obj)
         | Some e \<Rightarrow> V w' = V w \<and> (e = AlreadyExists \<longrightarrow> V w (sd, res, object_key obj) \<noteq> None)))"

text \<open>
  A patch is the difference of two objects. Where the first of them is what is stored, the result is
  the second. A patch that takes off the last finalizer of an object that is being deleted removes it.
\<close>

definition patch_honest ::
  "('w \<Rightarrow> objects) \<Rightarrow> side \<Rightarrow> resource \<Rightarrow> ('o object_meta_scheme \<Rightarrow> any_object) \<Rightarrow>
   ('o object_meta_scheme, 'w) kind_api \<Rightarrow> bool" where
  "patch_honest V sd res wrap api \<longleftrightarrow>
     (\<forall>old new w ans w'. api_patch api old new w = (ans, w') \<longrightarrow>
        (case ans of
           Inl e \<Rightarrow> V w' = V w
         | Inr obj \<Rightarrow> object_key obj = object_key new \<and> meta_finalizers obj = meta_finalizers new \<and>
             (V w (sd, res, object_key new) = Some (wrap old) \<longrightarrow> obj = new) \<and>
             (\<exists>left. V w' = (V w)((sd, res, object_key new) := left) \<and>
                (left = Some (wrap obj) \<or> left = None \<and> meta_finalizers obj = []))))"

definition delete_honest ::
  "('w \<Rightarrow> objects) \<Rightarrow> side \<Rightarrow> resource \<Rightarrow> ('o object_meta_scheme, 'w) kind_api \<Rightarrow> bool" where
  "delete_honest V sd res api \<longleftrightarrow>
     (\<forall>k w ans w'. api_delete api k w = (ans, w') \<longrightarrow>
        (case ans of
           None \<Rightarrow> \<exists>left. V w' = (V w)((sd, res, k) := left) \<and>
                     (\<forall>obj. left = Some obj \<longrightarrow> meta_deleting (any_meta obj))
         | Some e \<Rightarrow> V w' = V w \<and> (e = NotFound \<longrightarrow> V w (sd, res, k) = None)))"

definition upsert_honest ::
  "('w \<Rightarrow> objects) \<Rightarrow> side \<Rightarrow> resource \<Rightarrow> ('o object_meta_scheme \<Rightarrow> any_object) \<Rightarrow>
   ('o object_meta_scheme, 'w) kind_api \<Rightarrow> bool" where
  "upsert_honest V sd res wrap api \<longleftrightarrow>
     (\<forall>obj f w ans w'. api_upsert api obj f w = (ans, w') \<longrightarrow>
        (case ans of
           Returned (Inr new) \<Rightarrow> \<exists>base. f base = Mutated new \<and> object_key new = object_key obj \<and>
             (V w (sd, res, object_key obj) = Some (wrap base) \<or>
              V w (sd, res, object_key obj) = None \<and> base = obj) \<and>
             V w' = (V w)((sd, res, object_key obj) \<mapsto> wrap new)
         | _ \<Rightarrow> V w' = V w))"

definition kind_honest ::
  "string set \<Rightarrow> ('w \<Rightarrow> objects) \<Rightarrow> side \<Rightarrow> resource \<Rightarrow> ('o object_meta_scheme \<Rightarrow> any_object) \<Rightarrow>
   ('o object_meta_scheme, 'w) kind_api \<Rightarrow> bool" where
  "kind_honest K V sd res wrap api \<longleftrightarrow>
     (\<forall>w k obj. V w (sd, res, k) = Some obj \<longrightarrow> obj \<in> range wrap) \<and>
     get_honest V sd res wrap api \<and> list_honest K V sd res wrap api \<and> create_honest V sd res wrap api \<and>
     patch_honest V sd res wrap api \<and> delete_honest V sd res api \<and> upsert_honest V sd res wrap api"

definition client_honest :: "string set \<Rightarrow> ('w \<Rightarrow> objects) \<Rightarrow> side \<Rightarrow> 'w client \<Rightarrow> bool" where
  "client_honest K V sd cl \<longleftrightarrow>
     kind_honest K V sd RCluster ACluster (clusters_api cl) \<and>
     kind_honest K V sd RConfig AConfig (configs_api cl) \<and>
     kind_honest K V sd RService AService (services_api cl) \<and>
     kind_honest K V sd RSecret ASecret (secrets_api cl) \<and>
     kind_honest K V sd RNamespace ANamespace (namespaces_api cl) \<and>
     (\<forall>k. kind_honest K V sd (RSource k) ASource (sources_api cl k)) \<and>
     kind_honest K V sd RRelease ARelease (releases_api cl)"

text \<open>
  The access library works on AccessRequests only, and sending an event changes no object. Taking an
  annotation off the Cluster is a patch of it.
\<close>

definition access_honest :: "('w \<Rightarrow> objects) \<Rightarrow> 'w access_api \<Rightarrow> bool" where
  "access_honest V acc \<longleftrightarrow>
     (\<forall>k w. V (snd (access_reconcile acc k w)) = V w \<and> V (snd (access_request_of acc k w)) = V w \<and>
        V (snd (access_cluster acc k w)) = V w \<and> V (snd (access_reconcile_delete acc k w)) = V w)"

definition annotation_honest :: "('w \<Rightarrow> objects) \<Rightarrow> 'w lib \<Rightarrow> bool" where
  "annotation_honest V L \<longleftrightarrow>
     (\<forall>k c w ans w'. lib_remove_annotation L k c w = (ans, w') \<longrightarrow>
        (case ans of
           Inl e \<Rightarrow> V w' = V w
         | Inr c' \<Rightarrow> \<exists>ans. c' = c\<lparr>meta_annotations := ans\<rparr> \<and>
             V w' = (V w)((OnPlatform, RCluster, object_key c) \<mapsto> ACluster c')))"

definition event_honest :: "('w \<Rightarrow> objects) \<Rightarrow> 'w reconciler \<Rightarrow> bool" where
  "event_honest V r \<longleftrightarrow> (\<forall>eventf e w. event_recorder r = Some eventf \<longrightarrow> V (eventf e w) = V w)"

definition managed_labels :: "'w lib \<Rightarrow> string set" where
  "managed_labels L = {lib_managed_by_label L, lib_managed_purpose_label L}"

definition server_law :: "('w \<Rightarrow> objects) \<Rightarrow> 'w lib \<Rightarrow> 'w reconciler \<Rightarrow> bool" where
  "server_law V L r \<longleftrightarrow>
     client_honest (managed_labels L) V OnPlatform (platform r) \<and>
     (\<forall>a cl. lib_client_of L a = Some cl \<longrightarrow> client_honest (managed_labels L) V (OnTarget a) cl) \<and>
     access_honest V (access_reconciler r) \<and> annotation_honest V L \<and> event_honest V r"

subsection \<open>Reading the laws\<close>

lemma honest_get:
  assumes "kind_honest K V sd res wrap api" and "api_get api k w = (ans, w')"
  shows "V w' = V w" and "ans = Inr obj \<Longrightarrow> V w (sd, res, k) = Some (wrap obj) \<and> object_key obj = k"
    and "ans = Inl NotFound \<Longrightarrow> V w (sd, res, k) = None"
proof -
  have "V w' = V w \<and> (case ans of
      Inr obj \<Rightarrow> V w (sd, res, k) = Some (wrap obj) \<and> object_key obj = k
    | Inl e \<Rightarrow> e = NotFound \<longrightarrow> V w (sd, res, k) = None)"
    using assms unfolding kind_honest_def get_honest_def by blast
  then show "V w' = V w" "ans = Inr obj \<Longrightarrow> V w (sd, res, k) = Some (wrap obj) \<and> object_key obj = k"
    "ans = Inl NotFound \<Longrightarrow> V w (sd, res, k) = None" by auto
qed

lemma honest_list:
  assumes "kind_honest K V sd res wrap api" and "api_list api ns ls w = (ans, w')"
  shows "V w' = V w"
    and "ans = Inr objs \<Longrightarrow> dom ls \<subseteq> K \<Longrightarrow>
      V w (sd, res, k) = Some (wrap obj) \<and> nn_namespace k = ns \<and> ls \<subseteq>\<^sub>m meta_labels obj \<longleftrightarrow>
      object_key obj = k \<and> obj \<in> set objs"
  using assms unfolding kind_honest_def list_honest_def by blast+

lemma honest_create:
  assumes "kind_honest K V sd res wrap api" and "api_create api obj w = (ans, w')"
  shows "ans = None \<Longrightarrow> V w' = (V w)((sd, res, object_key obj) \<mapsto> wrap obj)"
    and "ans = Some e \<Longrightarrow> V w' = V w \<and> (e = AlreadyExists \<longrightarrow> V w (sd, res, object_key obj) \<noteq> None)"
proof -
  have "case ans of
      None \<Rightarrow> V w' = (V w)((sd, res, object_key obj) \<mapsto> wrap obj)
    | Some e \<Rightarrow> V w' = V w \<and> (e = AlreadyExists \<longrightarrow> V w (sd, res, object_key obj) \<noteq> None)"
    using assms unfolding kind_honest_def create_honest_def by blast
  then show "ans = None \<Longrightarrow> V w' = (V w)((sd, res, object_key obj) \<mapsto> wrap obj)"
    "ans = Some e \<Longrightarrow> V w' = V w \<and> (e = AlreadyExists \<longrightarrow> V w (sd, res, object_key obj) \<noteq> None)"
    by auto
qed

lemma honest_patch:
  assumes "kind_honest K V sd res wrap api" and "api_patch api old new w = (ans, w')"
  shows "ans = Inl e \<Longrightarrow> V w' = V w"
    and "ans = Inr obj \<Longrightarrow> object_key obj = object_key new \<and> meta_finalizers obj = meta_finalizers new \<and>
      (V w (sd, res, object_key new) = Some (wrap old) \<longrightarrow> obj = new) \<and>
      (\<exists>left. V w' = (V w)((sd, res, object_key new) := left) \<and>
         (left = Some (wrap obj) \<or> left = None \<and> meta_finalizers obj = []))"
proof -
  have "case ans of
      Inl e \<Rightarrow> V w' = V w
    | Inr obj \<Rightarrow> object_key obj = object_key new \<and> meta_finalizers obj = meta_finalizers new \<and>
        (V w (sd, res, object_key new) = Some (wrap old) \<longrightarrow> obj = new) \<and>
        (\<exists>left. V w' = (V w)((sd, res, object_key new) := left) \<and>
           (left = Some (wrap obj) \<or> left = None \<and> meta_finalizers obj = []))"
    using assms unfolding kind_honest_def patch_honest_def by blast
  then show "ans = Inl e \<Longrightarrow> V w' = V w"
    "ans = Inr obj \<Longrightarrow> object_key obj = object_key new \<and> meta_finalizers obj = meta_finalizers new \<and>
      (V w (sd, res, object_key new) = Some (wrap old) \<longrightarrow> obj = new) \<and>
      (\<exists>left. V w' = (V w)((sd, res, object_key new) := left) \<and>
         (left = Some (wrap obj) \<or> left = None \<and> meta_finalizers obj = []))"
    by auto
qed

text \<open>A deletion that is not answered by an error other than \<open>NotFound\<close>, and one that is.\<close>

lemma honest_delete:
  assumes "kind_honest K V sd res wrap api" and "api_delete api k w = (ans, w')"
  shows "\<exists>left. V w' = (V w)((sd, res, k) := left) \<and>
      (left = V w (sd, res, k) \<or> (\<forall>obj. left = Some obj \<longrightarrow> meta_deleting (any_meta obj)))"
    and "ignore_not_found ans = None \<Longrightarrow> \<forall>obj. V w' (sd, res, k) = Some obj \<longrightarrow> meta_deleting (any_meta obj)"
proof -
  have *: "case ans of
      None \<Rightarrow> \<exists>left. V w' = (V w)((sd, res, k) := left) \<and>
                (\<forall>obj. left = Some obj \<longrightarrow> meta_deleting (any_meta obj))
    | Some e \<Rightarrow> V w' = V w \<and> (e = NotFound \<longrightarrow> V w (sd, res, k) = None)"
    using assms unfolding kind_honest_def delete_honest_def by blast
  show "\<exists>left. V w' = (V w)((sd, res, k) := left) \<and>
      (left = V w (sd, res, k) \<or> (\<forall>obj. left = Some obj \<longrightarrow> meta_deleting (any_meta obj)))"
  proof (cases ans)
    case None
    with * show ?thesis by auto
  next
    case (Some e)
    with * show ?thesis by (intro exI [of _ "V w (sd, res, k)"]) simp
  qed
  show "\<forall>obj. V w' (sd, res, k) = Some obj \<longrightarrow> meta_deleting (any_meta obj)" if "ignore_not_found ans = None"
    using * that by (cases ans) (auto simp: ignore_not_found_def split: if_splits)
qed

lemma honest_upsert:
  assumes "kind_honest K V sd res wrap api" and "api_upsert api obj f w = (ans, w')"
  shows "(\<exists>new base. ans = Returned (Inr new) \<and> f base = Mutated new \<and> object_key new = object_key obj \<and>
            V w' = (V w)((sd, res, object_key obj) \<mapsto> wrap new)) \<or>
         (\<forall>new. ans \<noteq> Returned (Inr new)) \<and> V w' = V w"
proof -
  have "case ans of
      Returned (Inr new) \<Rightarrow> \<exists>base. f base = Mutated new \<and> object_key new = object_key obj \<and>
        (V w (sd, res, object_key obj) = Some (wrap base) \<or>
         V w (sd, res, object_key obj) = None \<and> base = obj) \<and>
        V w' = (V w)((sd, res, object_key obj) \<mapsto> wrap new)
    | _ \<Rightarrow> V w' = V w"
    using assms unfolding kind_honest_def upsert_honest_def by blast
  then show ?thesis by (cases ans) (auto split: sum.splits)
qed

lemma honest_stored:
  assumes "kind_honest K V sd res wrap api" and "V w (sd, res, k) = Some obj"
  shows "obj \<in> range wrap"
  using assms unfolding kind_honest_def by blast

subsection \<open>Contracts\<close>

text \<open>The view is the same outside a region.\<close>

definition same_off :: "place set \<Rightarrow> objects \<Rightarrow> objects \<Rightarrow> bool" where
  "same_off R v v' \<longleftrightarrow> (\<forall>pl. pl \<notin> R \<longrightarrow> v' pl = v pl)"

lemma same_off_refl [simp, intro]: "same_off R v v"
  by (simp add: same_off_def)

lemma same_off_trans: "same_off R v v1 \<Longrightarrow> same_off R' v1 v2 \<Longrightarrow> R \<union> R' \<subseteq> R2 \<Longrightarrow> same_off R2 v v2"
  unfolding same_off_def by (metis UnCI subsetD)

lemma same_off_mono: "same_off R v v' \<Longrightarrow> R \<subseteq> R2 \<Longrightarrow> same_off R2 v v'"
  unfolding same_off_def by blast

lemma same_offD: "same_off R v v' \<Longrightarrow> pl \<notin> R \<Longrightarrow> v' pl = v pl"
  unfolding same_off_def by blast

lemma same_off_update [simp]: "pl \<in> R \<Longrightarrow> same_off R v (v(pl := x))"
  by (auto simp: same_off_def)

definition effect ::
  "('w \<Rightarrow> objects) \<Rightarrow> place set \<Rightarrow> ('w, 'a) comp \<Rightarrow> ('a \<Rightarrow> objects \<Rightarrow> objects \<Rightarrow> bool) \<Rightarrow> bool" where
  "effect V R m Q \<longleftrightarrow>
     (\<forall>w x w'. m w = (x, w') \<longrightarrow> same_off R (V w) (V w') \<and> (\<forall>a. x = Returned a \<longrightarrow> Q a (V w) (V w')))"

lemma effectI:
  assumes "\<And>w x w'. m w = (x, w') \<Longrightarrow>
    same_off R (V w) (V w') \<and> (\<forall>a. x = Returned a \<longrightarrow> Q a (V w) (V w'))"
  shows "effect V R m Q"
  using assms by (simp add: effect_def)

lemma effectD:
  assumes "effect V R m Q" and "m w = (x, w')"
  shows "same_off R (V w) (V w')" and "x = Returned a \<Longrightarrow> Q a (V w) (V w')"
  using assms by (auto simp: effect_def)

lemma effect_conseq:
  assumes "effect V R m Q" and "R \<subseteq> R2" and "\<And>a v v'. Q a v v' \<Longrightarrow> same_off R v v' \<Longrightarrow> Q' a v v'"
  shows "effect V R2 m Q'"
  using assms unfolding effect_def by (metis same_off_mono)

lemma effect_return: "(\<And>v. Q a v v) \<Longrightarrow> effect V R (return_st a) Q"
  by (simp add: effect_def return_st_def)

lemma effect_bind:
  assumes m: "effect V Rm m Q" and f: "\<And>a v v1. Q a v v1 \<Longrightarrow> effect V Rf (f a) (S a)" and "Rm \<union> Rf \<subseteq> R"
    and post: "\<And>a b v v1 v2. Q a v v1 \<Longrightarrow> same_off Rm v v1 \<Longrightarrow> S a b v1 v2 \<Longrightarrow> same_off Rf v1 v2 \<Longrightarrow> T b v v2"
  shows "effect V R (bind_st m f) T"
proof (rule effectI)
  fix w x w'
  assume run: "bind_st m f w = (x, w')"
  obtain y w1 where y: "m w = (y, w1)" by (cases "m w")
  note first = effectD [OF m y]
  show "same_off R (V w) (V w') \<and> (\<forall>a. x = Returned a \<longrightarrow> T a (V w) (V w'))"
  proof (cases y)
    case (Returned a)
    with run y have "f a w1 = (x, w')" by (simp add: bind_st_def)
    note second = effectD [OF f [OF first(2) [OF Returned]] this]
    from first second Returned post same_off_trans [OF first(1) second(1) assms(3)] show ?thesis by metis
  next
    case (Panicked p)
    with run y first(1) assms(3) show ?thesis by (auto simp: bind_st_def intro: same_off_mono)
  qed
qed

lemma effect_panic: "effect V R (\<lambda>w. (Panicked p, w)) Q"
  by (simp add: effect_def)

lemma effect_deref: "(\<And>a. p = Some a \<Longrightarrow> effect V R (f a) Q) \<Longrightarrow> effect V R (deref p f) Q"
  using effect_panic by (cases p) (auto simp: deref_def)

lemma effect_of_outcome: "effect V R (of_outcome x) (\<lambda>a v v'. v' = v \<and> x = Returned a)"
  by (auto simp: effect_def of_outcome_def)

text \<open>For a phase only the outcome matters that lets the run go on.\<close>

definition achieves ::
  "('w \<Rightarrow> objects) \<Rightarrow> place set \<Rightarrow> ('w, reconcile_result) comp \<Rightarrow>
   (reconcile_result \<Rightarrow> objects \<Rightarrow> objects \<Rightarrow> bool) \<Rightarrow> bool" where
  "achieves V R m Q \<longleftrightarrow> effect V R m (\<lambda>rr v v'. \<not> stopped rr \<longrightarrow> Q rr v v')"

lemma achieves_conseq:
  assumes "achieves V R m Q" and "R \<subseteq> R2"
    and "\<And>rr v v'. Q rr v v' \<Longrightarrow> \<not> stopped rr \<Longrightarrow> same_off R v v' \<Longrightarrow> Q' rr v v'"
  shows "achieves V R2 m Q'"
  using assms unfolding achieves_def by (elim effect_conseq) auto

text \<open>What later phases read of the result so far.\<close>

definition same_inputs :: "reconcile_result \<Rightarrow> reconcile_result \<Rightarrow> bool" where
  "same_inputs rr rr' \<longleftrightarrow>
     rr_config rr' = rr_config rr \<and> rr_provider_config rr' = rr_provider_config rr \<and>
     rr_platform_service rr' = rr_platform_service rr \<and> rr_source_kind rr' = rr_source_kind rr \<and>
     rr_access rr' = rr_access rr \<and> rr_access_request rr' = rr_access_request rr"

lemma same_inputs_refl [simp]: "same_inputs rr rr"
  by (simp add: same_inputs_def)

lemma same_inputs_updates [simp]:
  "same_inputs rr (fail rr f why)" "same_inputs rr (rr\<lparr>rr_error := e\<rparr>)"
  "same_inputs rr (rr\<lparr>rr_message := m\<rparr>)" "same_inputs rr (rr\<lparr>rr_result := res\<rparr>)"
  "same_inputs rr (rr\<lparr>rr_related := rel\<rparr>)" "same_inputs rr (rr\<lparr>rr_related := rel, rr_message := m\<rparr>)"
  by (simp_all add: same_inputs_def fail_def)

lemma achieves_chain:
  assumes m: "achieves V Rm m Q" and f: "\<And>rr v v1. \<not> stopped rr \<Longrightarrow> Q rr v v1 \<Longrightarrow> achieves V Rf (f rr) (S rr)" and "Rm \<union> Rf \<subseteq> R"
    and "\<And>rr rr' v v1 v2. Q rr v v1 \<Longrightarrow> same_off Rm v v1 \<Longrightarrow> S rr rr' v1 v2 \<Longrightarrow> same_off Rf v1 v2 \<Longrightarrow> T rr' v v2"
  shows "achieves V R (chain m f) T"
  unfolding chain_def achieves_def
proof (rule effect_bind [where Rf = Rf and S = "\<lambda>rr rr' v v'. if stopped rr then rr' = rr else \<not> stopped rr' \<longrightarrow> S rr rr' v v'"])
  show "effect V Rm m (\<lambda>rr v v'. \<not> stopped rr \<longrightarrow> Q rr v v')"
    using m by (simp add: achieves_def)
  fix rr v v1
  assume "\<not> stopped rr \<longrightarrow> Q rr v v1"
  then show "effect V Rf (if stopped rr then return_st rr else f rr)
      (\<lambda>rr' v v'. if stopped rr then rr' = rr else \<not> stopped rr' \<longrightarrow> S rr rr' v v')"
    using f [of rr v v1] by (auto simp: achieves_def intro: effect_return)
qed (use assms(3,4) in \<open>auto split: if_splits\<close>)

end
