(* ===== verification/Secret_Effects.thy ===== *)
theory Secret_Effects
  imports Server_Laws Phases
begin

section \<open>What copying and removing secrets achieves\<close>

text \<open>
  With an honest server, copying leaves at every target a copy of a configured source, and removing
  leaves no secret with the expected labels other than those to keep, except for ones that are being
  deleted. Both touch nothing but the secrets of the namespace at hand.
\<close>

subsection \<open>Vocabulary\<close>

definition secret_region :: "side \<Rightarrow> string \<Rightarrow> place set" where
  "secret_region sd ns = {(sd, RSecret, nn) | nn. nn_namespace nn = ns}"

lemma secret_region_iff [simp]:
  "(sd', res, nn) \<in> secret_region sd ns \<longleftrightarrow> sd' = sd \<and> res = RSecret \<and> nn_namespace nn = ns"
  by (auto simp: secret_region_def)

text \<open>An object that is gone or about to go.\<close>

definition fading :: "objects \<Rightarrow> place \<Rightarrow> bool" where
  "fading v pl \<longleftrightarrow> (\<forall>obj. v pl = Some obj \<longrightarrow> meta_deleting (any_meta obj))"

definition same_or_fading :: "objects \<Rightarrow> objects \<Rightarrow> bool" where
  "same_or_fading v v' \<longleftrightarrow> (\<forall>pl. v' pl = v pl \<or> fading v' pl)"

lemma same_or_fading_refl [simp]: "same_or_fading v v"
  by (simp add: same_or_fading_def)

lemma same_or_fading_trans: "same_or_fading v v1 \<Longrightarrow> same_or_fading v1 v2 \<Longrightarrow> same_or_fading v v2"
  unfolding same_or_fading_def fading_def by metis

lemma fading_stays: "fading v pl \<Longrightarrow> same_or_fading v v' \<Longrightarrow> fading v' pl"
  unfolding same_or_fading_def fading_def by metis

text \<open>
  Of the objects of a kind in a namespace that carry the expected labels, only those at wanted keys
  are there to stay.
\<close>

definition tidy ::
  "(string \<times> string) list \<Rightarrow> side \<Rightarrow> resource \<Rightarrow> string \<Rightarrow> (namespaced_name \<Rightarrow> bool) \<Rightarrow> objects \<Rightarrow> bool" where
  "tidy expected sd res ns wanted v \<longleftrightarrow>
     (\<forall>nn obj. nn_namespace nn = ns \<and> v (sd, res, nn) = Some obj \<and>
        map_of expected \<subseteq>\<^sub>m meta_labels (any_meta obj) \<longrightarrow> wanted nn \<or> meta_deleting (any_meta obj))"

lemma tidy_after:
  assumes honest: "kind_honest K V sd res wrap api" and "api_list api ns (map_of expected) w = (Inr objs, w1)"
    and keys: "fst ` set expected \<subseteq> K"
    and wrapped: "\<And>obj. meta_labels (any_meta (wrap obj)) = meta_labels obj"
    and other: "\<And>nn. \<not> wanted nn \<Longrightarrow> v' (sd, res, nn) = V w (sd, res, nn) \<or> fading v' (sd, res, nn)"
    and gone: "\<And>obj. obj \<in> set objs \<Longrightarrow> \<not> wanted (object_key obj) \<Longrightarrow> fading v' (sd, res, object_key obj)"
  shows "tidy expected sd res ns wanted v'"
  unfolding tidy_def
proof (intro allI impI, elim conjE)
  fix nn obj
  assume ns: "nn_namespace nn = ns" and stored: "v' (sd, res, nn) = Some obj"
    and labels: "map_of expected \<subseteq>\<^sub>m meta_labels (any_meta obj)"
  show "wanted nn \<or> meta_deleting (any_meta obj)"
  proof (cases "wanted nn \<or> fading v' (sd, res, nn)")
    case True
    with stored show ?thesis by (auto simp: fading_def)
  next
    case False
    with other [of nn] stored have before: "V w (sd, res, nn) = Some obj" by simp
    then obtain s where s: "obj = wrap s" using honest_stored [OF honest] by blast
    have "object_key s = nn \<and> s \<in> set objs"
      using honest_list(2) [OF honest assms(2) refl, of nn s] keys before ns labels wrapped by (simp add: s dom_map_of_conv_image_fst)
    with gone False show ?thesis by auto
  qed
qed

text \<open>A place holds a copy of the source secret of the given name, which copying again leaves as it is.\<close>

definition copied_to ::
  "'w lib \<Rightarrow> 'w reconciler \<Rightarrow> (string \<times> string) list \<Rightarrow> objects \<Rightarrow> string \<Rightarrow> place \<Rightarrow> bool" where
  "copied_to L r expected v name pl \<longleftrightarrow>
     (\<exists>source copy. v (OnPlatform, RSecret, \<lparr>nn_namespace = provider_namespace r, nn_name = name\<rparr>) = Some (ASecret source) \<and>
        v pl = Some (ASecret copy) \<and> secret_data copy = secret_data source \<and>
        secret_type copy = secret_type source \<and> has_labels expected (meta_labels copy) \<and>
        secret_mutation L expected source copy = Mutated copy)"

text \<open>Every target of the entries holds a copy of a source that is configured for it.\<close>

definition copies_present ::
  "'w lib \<Rightarrow> 'w reconciler \<Rightarrow> (string \<times> string) list \<Rightarrow> side \<Rightarrow> string \<Rightarrow> (string \<times> string) list \<Rightarrow> objects \<Rightarrow> bool" where
  "copies_present L r expected sd ns entries v \<longleftrightarrow>
     (\<forall>t \<in> snd ` set entries. \<exists>s. (s, t) \<in> set entries \<and>
        copied_to L r expected v s (sd, RSecret, \<lparr>nn_namespace = ns, nn_name = t\<rparr>))"

text \<open>The entries that are copied to one of the sides.\<close>

definition secret_entries :: "service_config \<Rightarrow> platform_service \<Rightarrow> copy_to \<Rightarrow> (string \<times> string) list" where
  "secret_entries pc svc ct =
     (case spec_secrets (service_spec pc) of
        None \<Rightarrow> []
      | Some stc \<Rightarrow> secret_map (image_pull_secrets svc)
          (case ct of PlatformClusterCopy \<Rightarrow> to_platform_cluster stc | TargetClusterCopy \<Rightarrow> to_target_cluster stc))"

subsection \<open>Copying\<close>

lemma effect_write_secret:
  assumes "kind_honest K V sd RSecret ASecret (secrets_api access)" and "merge_law L"
    and "distinct (map fst expected)" and "object_key target = \<lparr>nn_namespace = ns, nn_name = t\<rparr>"
  shows "effect V (secret_region sd ns) (write_secret L access why expected source copied target)
    (\<lambda>(e, copied') v v'. e = None \<longrightarrow> copied' = insert t copied \<and>
       (\<exists>copy. v' = v((sd, RSecret, \<lparr>nn_namespace = ns, nn_name = t\<rparr>) \<mapsto> ASecret copy) \<and>
          secret_data copy = secret_data source \<and> secret_type copy = secret_type source \<and>
          has_labels expected (meta_labels copy) \<and> secret_mutation L expected source copy = Mutated copy))"
proof (rule effectI)
  fix w x w'
  assume run: "write_secret L access why expected source copied target w = (x, w')"
  obtain ans w1 where call: "api_upsert (secrets_api access) target (secret_mutation L expected source) w = (ans, w1)"
    by (cases "api_upsert (secrets_api access) target (secret_mutation L expected source) w")
  from run call have w1: "w' = w1"
    by (auto simp: write_secret_def split: outcome.splits sum.splits)
  from honest_upsert [OF assms(1) call]
  show "same_off (secret_region sd ns) (V w) (V w') \<and> (\<forall>a. x = Returned a \<longrightarrow>
      (case a of (e, copied') \<Rightarrow> \<lambda>v v'. e = None \<longrightarrow> copied' = insert t copied \<and>
       (\<exists>copy. v' = v((sd, RSecret, \<lparr>nn_namespace = ns, nn_name = t\<rparr>) \<mapsto> ASecret copy) \<and>
          secret_data copy = secret_data source \<and> secret_type copy = secret_type source \<and>
          has_labels expected (meta_labels copy) \<and> secret_mutation L expected source copy = Mutated copy)) (V w) (V w'))"
  proof (elim disjE exE conjE)
    fix new base
    assume new: "ans = Returned (Inr new)" "secret_mutation L expected source base = Mutated new"
      "object_key new = object_key target" "V w1 = (V w)((sd, RSecret, object_key target) \<mapsto> ASecret new)"
    from new(3) assms(4) have "meta_name new = t" by (simp add: object_key_def)
    with new run call w1 secret_mutation_fields [OF assms(2,3) new(2)] assms(4) show ?thesis
      by (auto simp: write_secret_def intro: same_off_update)
  next
    assume "\<forall>new. ans \<noteq> Returned (Inr new)" "V w1 = V w"
    with run call w1 show ?thesis
      by (auto simp: write_secret_def split: outcome.splits sum.splits)
  qed
qed

text \<open>
  One entry, where the source secrets lie outside the region that is written: the namespace of the
  provider is not the one that is copied to, or it is on the other side.
\<close>

definition sources_apart :: "'w reconciler \<Rightarrow> side \<Rightarrow> string \<Rightarrow> bool" where
  "sources_apart r sd ns \<longleftrightarrow> sd \<noteq> OnPlatform \<or> ns \<noteq> provider_namespace r"

lemma effect_copy_secret:
  assumes platform: "kind_honest K V OnPlatform RSecret ASecret (secrets_api (platform r))"
    and target: "kind_honest K V sd RSecret ASecret (secrets_api access)"
    and laws: "merge_law L" "distinct (map fst expected)"
    and apart: "sources_apart r sd ns" "sd \<noteq> OnPlatform \<longrightarrow> ct = TargetClusterCopy"
  shows "effect V (secret_region sd ns) (copy_secret L r ct access why ns expected s t copied)
    (\<lambda>(e, copied') v v'. e = None \<longrightarrow> copied' = insert t copied \<and>
       copied_to L r expected v' s (sd, RSecret, \<lparr>nn_namespace = ns, nn_name = t\<rparr>) \<and>
       same_off {(sd, RSecret, \<lparr>nn_namespace = ns, nn_name = t\<rparr>)} v v')"
proof (rule effectI)
  let ?place = "(sd, RSecret, \<lparr>nn_namespace = ns, nn_name = t\<rparr>)"
  let ?skey = "\<lparr>nn_namespace = provider_namespace r, nn_name = s\<rparr>"
  let ?tkey = "\<lparr>nn_namespace = ns, nn_name = t\<rparr>"
  fix w x w'
  assume run: "copy_secret L r ct access why ns expected s t copied w = (x, w')"
  obtain src w1 where src: "api_get (secrets_api (platform r)) ?skey w = (src, w1)"
    by (cases "api_get (secrets_api (platform r)) ?skey w")
  note V1 = honest_get(1) [OF platform src]
  show "same_off (secret_region sd ns) (V w) (V w') \<and> (\<forall>a. x = Returned a \<longrightarrow>
      (case a of (e, copied') \<Rightarrow> \<lambda>v v'. e = None \<longrightarrow> copied' = insert t copied \<and>
        copied_to L r expected v' s ?place \<and> same_off {?place} v v') (V w) (V w'))"
  proof (cases src)
    case (Inl e)
    with run src V1 show ?thesis by (auto simp: copy_secret_def)
  next
    case (Inr source)
    note stored = honest_get(2) [OF platform src Inr]
    show ?thesis
    proof (cases "ct = PlatformClusterCopy \<and> ?tkey = object_key source")
      case True
      with stored apart show ?thesis by (auto simp: sources_apart_def)
    next
      case False
      obtain tgt w2 where tgt: "api_get (secrets_api access) ?tkey w1 = (tgt, w2)"
        by (cases "api_get (secrets_api access) ?tkey w1")
      note V2 = honest_get(1) [OF target tgt]
      have rest: "(\<exists>err. x = Returned (Some err, copied) \<and> w' = w2) \<or>
          (\<exists>obj. object_key obj = ?tkey \<and> write_secret L access why expected source copied obj w2 = (x, w'))"
      proof (cases tgt)
        case (Inl e)
        with run src \<open>src = Inr source\<close> False tgt have
          "(if e \<noteq> NotFound
            then (Returned (Some (reasoned (GetTargetSecretFailed ?tkey e) why), copied), w2)
            else write_secret L access why expected source copied (new_secret ns t) w2) = (x, w')"
          by (simp add: copy_secret_def Let_def)
        then show ?thesis
          by (cases "e = NotFound") (force intro: exI [of _ "new_secret ns t"])+
      next
        case (Inr obj)
        with run src \<open>src = Inr source\<close> False tgt have
          "(if \<not> has_labels expected (meta_labels obj)
            then (Returned (Some (reasoned (TargetSecretNotManaged (object_key obj)) ConfigurationProblem), copied), w2)
            else write_secret L access why expected source copied obj w2) = (x, w')"
          by (simp add: copy_secret_def Let_def)
        with honest_get(2) [OF target tgt Inr] show ?thesis
          by (cases "has_labels expected (meta_labels obj)") force+
      qed
      then show ?thesis
      proof (elim disjE exE conjE)
        fix err
        assume "x = Returned (Some err, copied)" "w' = w2"
        with V1 V2 show ?thesis by simp
      next
        fix obj
        assume key: "object_key obj = ?tkey"
          and written: "write_secret L access why expected source copied obj w2 = (x, w')"
        note wrote = effectD [OF effect_write_secret [OF target laws key] written]
        have "copied_to L r expected v' s ?place"
          if "v' = (V w)(?place \<mapsto> ASecret copy)" "secret_data copy = secret_data source"
            "secret_type copy = secret_type source" "has_labels expected (meta_labels copy)"
            "secret_mutation L expected source copy = Mutated copy" for copy v'
          using that stored apart(1) by (auto simp: copied_to_def sources_apart_def)
        with wrote V1 V2 show ?thesis by auto
      qed
    qed
  qed
qed

definition loop_post ::
  "'w lib \<Rightarrow> 'w reconciler \<Rightarrow> (string \<times> string) list \<Rightarrow> side \<Rightarrow> string \<Rightarrow> (string \<times> string) list \<Rightarrow> string set \<Rightarrow>
   copy_result \<Rightarrow> objects \<Rightarrow> objects \<Rightarrow> bool" where
  "loop_post L r expected sd ns entries copied res v v' \<longleftrightarrow>
     (fst res = None \<longrightarrow> snd res = copied \<union> snd ` set entries \<and>
        copies_present L r expected sd ns entries v' \<and>
        (\<forall>t. t \<notin> snd ` set entries \<longrightarrow>
           v' (sd, RSecret, \<lparr>nn_namespace = ns, nn_name = t\<rparr>) = v (sd, RSecret, \<lparr>nn_namespace = ns, nn_name = t\<rparr>)))"

lemma copied_to_same:
  assumes "copied_to L r expected v s pl" and "same_off (secret_region sd ns) v v'"
    and "sources_apart r sd ns" and "v' pl = v pl"
  shows "copied_to L r expected v' s pl"
  using assms(1,3,4) same_offD [OF assms(2), of "(OnPlatform, RSecret, \<lparr>nn_namespace = provider_namespace r, nn_name = s\<rparr>)"]
  by (auto simp: copied_to_def sources_apart_def)

lemma copies_present_Cons:
  assumes "copies_present L r expected sd ns entries v"
    and "t \<notin> snd ` set entries \<Longrightarrow> copied_to L r expected v s (sd, RSecret, \<lparr>nn_namespace = ns, nn_name = t\<rparr>)"
  shows "copies_present L r expected sd ns ((s, t) # entries) v"
  unfolding copies_present_def
proof
  fix t' assume "t' \<in> snd ` set ((s, t) # entries)"
  show "\<exists>s'. (s', t') \<in> set ((s, t) # entries) \<and>
      copied_to L r expected v s' (sd, RSecret, \<lparr>nn_namespace = ns, nn_name = t'\<rparr>)"
  proof (cases "t' \<in> snd ` set entries")
    case True
    with assms(1) show ?thesis unfolding copies_present_def by (meson list.set_intros(2))
  next
    case False
    with \<open>t' \<in> _\<close> have "t' = t" by auto
    with False assms(2) show ?thesis by auto
  qed
qed

lemma effect_copy_loop:
  assumes platform: "kind_honest K V OnPlatform RSecret ASecret (secrets_api (platform r))"
    and target: "kind_honest K V sd RSecret ASecret (secrets_api access)"
    and laws: "merge_law L" "distinct (map fst expected)"
    and apart: "sources_apart r sd ns" "sd \<noteq> OnPlatform \<longrightarrow> ct = TargetClusterCopy"
  shows "effect V (secret_region sd ns) (copy_loop L r ct access why ns expected entries copied)
    (loop_post L r expected sd ns entries copied)"
proof (induction entries arbitrary: copied)
  case Nil
  show ?case by (auto simp: loop_post_def copies_present_def intro: effect_return)
next
  case (Cons entry entries)
  obtain s t where entry: "entry = (s, t)" by (cases entry)
  let ?place = "\<lambda>t. (sd, RSecret, \<lparr>nn_namespace = ns, nn_name = t\<rparr>)"
  show ?case
    unfolding entry copy_loop.simps
  proof (rule effect_bind [OF effect_copy_secret [OF assms]])
    show "effect V (secret_region sd ns)
        (case a of (e, copied') \<Rightarrow> if e \<noteq> None then return_st (e, copied')
           else copy_loop L r ct access why ns expected entries copied')
        (\<lambda>res v v'. if fst a \<noteq> None then res = a else loop_post L r expected sd ns entries (snd a) res v v')" for a
      using Cons.IH by (auto split: prod.split intro: effect_return)
    fix a res v v1 v2
    assume first: "(case a of (e, copied') \<Rightarrow> \<lambda>v v'. e = None \<longrightarrow> copied' = insert t copied \<and>
        copied_to L r expected v' s (?place t) \<and> same_off {?place t} v v') v v1"
      and rest: "if fst a \<noteq> None then res = a else loop_post L r expected sd ns entries (snd a) res v1 v2"
      and off: "same_off (secret_region sd ns) v1 v2"
    show "loop_post L r expected sd ns ((s, t) # entries) copied res v v2"
    proof (cases "fst res = None")
      case True
      have "fst a = None" using rest True by (auto split: if_splits)
      with first have head: "snd a = insert t copied" "copied_to L r expected v1 s (?place t)"
        "same_off {?place t} v v1" by (auto split: prod.splits)
      have tail: "snd res = snd a \<union> snd ` set entries" "copies_present L r expected sd ns entries v2"
        "\<And>t. t \<notin> snd ` set entries \<Longrightarrow> v2 (?place t) = v1 (?place t)"
        using rest True \<open>fst a = None\<close> by (simp_all add: loop_post_def)
      have "copied_to L r expected v2 s (?place t)" if "t \<notin> snd ` set entries"
        by (rule copied_to_same [OF head(2) off apart(1) tail(3) [OF that]])
      then have "copies_present L r expected sd ns ((s, t) # entries) v2"
        using tail(2) by (auto intro: copies_present_Cons)
      moreover have "v2 (?place t') = v (?place t')" if "t' \<notin> snd ` set ((s, t) # entries)" for t'
        using tail(3) [of t'] that same_offD [OF head(3), of "?place t'"] by simp
      ultimately show ?thesis
        using tail(1) head(1) by (simp add: loop_post_def)
    qed (auto simp: loop_post_def)
  qed simp
qed

subsection \<open>copySecrets\<close>

text \<open>The side that is copied to or cleaned up, and where that may change anything.\<close>

definition side_for :: "copy_to \<Rightarrow> reconcile_result \<Rightarrow> side \<Rightarrow> bool" where
  "side_for ct rr sd \<longleftrightarrow>
     (case ct of
        PlatformClusterCopy \<Rightarrow> sd = OnPlatform
      | TargetClusterCopy \<Rightarrow> \<exists>a. rr_access rr = Some a \<and> sd = OnTarget a)"

definition copy_region :: "copy_to \<Rightarrow> string \<Rightarrow> place set" where
  "copy_region ct ns =
     {(sd, RSecret, nn) | sd nn. nn_namespace nn = ns \<and> (sd = OnPlatform \<longleftrightarrow> ct = PlatformClusterCopy)}"

lemma copy_region_iff [simp]:
  "(sd, res, nn) \<in> copy_region ct ns \<longleftrightarrow>
     res = RSecret \<and> nn_namespace nn = ns \<and> (sd = OnPlatform \<longleftrightarrow> ct = PlatformClusterCopy)"
  by (auto simp: copy_region_def)

lemma secret_region_copy_region:
  "side_for ct rr sd \<Longrightarrow> secret_region sd ns \<subseteq> copy_region ct ns"
  by (cases ct) (auto simp: secret_region_def side_for_def)

definition copied_all ::
  "'w lib \<Rightarrow> 'w reconciler \<Rightarrow> (string \<times> string) list \<Rightarrow> copy_to \<Rightarrow> string \<Rightarrow> (string \<times> string) list \<Rightarrow>
   reconcile_result \<Rightarrow> reconcile_result \<times> string set \<Rightarrow> objects \<Rightarrow> objects \<Rightarrow> bool" where
  "copied_all L r expected ct ns entries rr res v v' \<longleftrightarrow>
     (\<not> stopped (fst res) \<longrightarrow> same_inputs rr (fst res) \<and> snd res = snd ` set entries \<and>
        (\<forall>sd. side_for ct rr sd \<longrightarrow> copies_present L r expected sd ns entries v'))"

lemma copies_present_set:
  "set xs = set ys \<Longrightarrow> copies_present L r expected sd ns xs v = copies_present L r expected sd ns ys v"
  by (simp add: copies_present_def)

lemma effect_copy_configured:
  assumes "kind_honest K V OnPlatform RSecret ASecret (secrets_api (platform r))"
    and target: "\<And>access. target_access = Some access \<Longrightarrow> kind_honest K V sd RSecret ASecret (secrets_api access)"
    and laws: "merge_law L" "range_law L" "distinct (map fst expected)"
    and apart: "sources_apart r sd ns" and side: "side_for ct rr sd"
    and svc: "rr_platform_service rr = Some svc"
  shows "effect V (copy_region ct ns) (copy_configured L r ns expected rr ct target_access why configured)
    (copied_all L r expected ct ns (secret_map (image_pull_secrets svc) configured) rr)"
proof (cases target_access)
  case None
  then show ?thesis
    by (auto simp: copy_configured_def svc Let_def copied_all_def intro: effect_return)
next
  case (Some access)
  let ?entries = "secret_map (image_pull_secrets svc) configured"
  have ct: "sd \<noteq> OnPlatform \<longrightarrow> ct = TargetClusterCopy"
    using side by (cases ct) (auto simp: side_for_def)
  have one_side: "sd' = sd" if "side_for ct rr sd'" for sd'
    using side that by (cases ct) (auto simp: side_for_def)
  show ?thesis
  proof (rule effectI)
    fix w x w'
    assume "copy_configured L r ns expected rr ct target_access why configured w = (x, w')"
    then have run: "bind_st (copy_loop L r ct access why ns expected (lib_range L w ?entries) {})
       (\<lambda>(e, copied). return_st
          (case e of
             Some err \<Rightarrow> (rr\<lparr>rr_error := Some err\<rparr>, copied)
           | None \<Rightarrow> (rr\<lparr>rr_message := CopiedSecrets (length ?entries) ns ct\<rparr>, copied))) w = (x, w')"
      by (simp add: copy_configured_def svc Some Let_def)
    have same: "set (lib_range L w ?entries) = set ?entries"
      using laws(2) unfolding range_law_def by (metis set_mset_mset)
    have "effect V (copy_region ct ns) (bind_st (copy_loop L r ct access why ns expected (lib_range L w ?entries) {})
       (\<lambda>(e, copied). return_st
          (case e of
             Some err \<Rightarrow> (rr\<lparr>rr_error := Some err\<rparr>, copied)
           | None \<Rightarrow> (rr\<lparr>rr_message := CopiedSecrets (length ?entries) ns ct\<rparr>, copied))))
       (copied_all L r expected ct ns ?entries rr)"
    proof (rule effect_bind [OF effect_copy_loop [OF assms(1) target [OF Some] laws(1,3) apart ct], where Rf = "{}"])
      show "effect V {} (case a of (e, copied) \<Rightarrow> return_st
          (case e of
             Some err \<Rightarrow> (rr\<lparr>rr_error := Some err\<rparr>, copied)
           | None \<Rightarrow> (rr\<lparr>rr_message := CopiedSecrets (length ?entries) ns ct\<rparr>, copied)))
         (\<lambda>res v v'. v' = v \<and> res = (case fst a of
             Some err \<Rightarrow> (rr\<lparr>rr_error := Some err\<rparr>, snd a)
           | None \<Rightarrow> (rr\<lparr>rr_message := CopiedSecrets (length ?entries) ns ct\<rparr>, snd a)))" for a
        by (cases a) (simp, rule effect_return, simp split: option.split)
    next
      show "copied_all L r expected ct ns ?entries rr b v v2"
        if "loop_post L r expected sd ns (lib_range L w ?entries) {} a v v1"
          and "v2 = v1 \<and> b = (case fst a of
             Some err \<Rightarrow> (rr\<lparr>rr_error := Some err\<rparr>, snd a)
           | None \<Rightarrow> (rr\<lparr>rr_message := CopiedSecrets (length ?entries) ns ct\<rparr>, snd a))" for a b v v1 v2
        using that one_side
        by (auto simp: copied_all_def loop_post_def stopped_def same copies_present_set [OF same]
            split: option.splits)
    qed (use secret_region_copy_region [OF side] in auto)
    from effectD [OF this run]
    show "same_off (copy_region ct ns) (V w) (V w') \<and>
      (\<forall>a. x = Returned a \<longrightarrow> copied_all L r expected ct ns ?entries rr a (V w) (V w'))" by simp
  qed
qed

lemma server_law_secrets:
  assumes "server_law V L r"
  shows "kind_honest (managed_labels L) V OnPlatform RSecret ASecret (secrets_api (platform r))"
    and "lib_client_of L a = Some cl \<Longrightarrow> kind_honest (managed_labels L) V (OnTarget a) RSecret ASecret (secrets_api cl)"
  using assms by (auto simp: server_law_def client_honest_def)

lemma effect_copy_secrets:
  assumes server: "server_law V L r" and laws: "merge_law L" "range_law L" "distinct (map fst expected)"
    and apart: "ct = PlatformClusterCopy \<longrightarrow> ns \<noteq> provider_namespace r"
    and loaded: "rr_provider_config rr = Some pc" "rr_platform_service rr = Some svc"
  shows "effect V (copy_region ct ns) (copy_secrets L r ns expected rr ct)
    (copied_all L r expected ct ns (secret_entries pc svc ct) rr)"
proof (cases "spec_secrets (service_spec pc)")
  case None
  then show ?thesis
    by (auto simp: copy_secrets_def loaded secret_entries_def copied_all_def copies_present_def
        intro!: effect_return)
next
  case (Some stc)
  show ?thesis
  proof (cases ct)
    case PlatformClusterCopy
    have "effect V (copy_region ct ns) (copy_configured L r ns expected rr ct (Some (platform r))
        PlatformClusterInteractionProblem (to_platform_cluster stc))
       (copied_all L r expected ct ns (secret_map (image_pull_secrets svc) (to_platform_cluster stc)) rr)"
      using PlatformClusterCopy apart server_law_secrets(1) [OF server]
      by (intro effect_copy_configured [where sd = OnPlatform and K = "managed_labels L"] laws loaded(2))
         (simp_all add: sources_apart_def side_for_def)
    with PlatformClusterCopy show ?thesis
      by (simp add: copy_secrets_def loaded Some secret_entries_def)
  next
    case TargetClusterCopy
    have "effect V (copy_region ct ns) (copy_configured L r ns expected rr ct (lib_client_of L a)
        TargetClusterInteractionProblem (to_target_cluster stc))
       (copied_all L r expected ct ns (secret_map (image_pull_secrets svc) (to_target_cluster stc)) rr)"
      if "rr_access rr = Some a" for a
      using that TargetClusterCopy
      by (intro effect_copy_configured [where sd = "OnTarget a" and K = "managed_labels L"] server_law_secrets [OF server] laws loaded(2))
         (simp_all add: sources_apart_def side_for_def)
    with TargetClusterCopy show ?thesis
      by (auto simp: copy_secrets_def loaded Some secret_entries_def intro: effect_deref)
  qed
qed

subsection \<open>removeSecrets\<close>

text \<open>
  After the loop the listed secrets that are not to be kept are gone or going; at every place the
  object is the one that was there, or it is going; and secrets with names to keep are left alone.
\<close>

definition spared :: "side \<Rightarrow> string set \<Rightarrow> objects \<Rightarrow> objects \<Rightarrow> bool" where
  "spared sd keep v v' \<longleftrightarrow> same_or_fading v v' \<and>
     (\<forall>nn. nn_name nn \<in> keep \<longrightarrow> v' (sd, RSecret, nn) = v (sd, RSecret, nn))"

lemma spared_refl [simp]: "spared sd keep v v"
  by (simp add: spared_def)

lemma spared_trans: "spared sd keep v v1 \<Longrightarrow> spared sd keep v1 v2 \<Longrightarrow> spared sd keep v v2"
  unfolding spared_def by (auto intro: same_or_fading_trans)

lemma deletion_same_or_fading:
  assumes "v' = v(pl := left)"
    and "left = v pl \<or> (\<forall>obj. left = Some obj \<longrightarrow> meta_deleting (any_meta obj))"
  shows "same_or_fading v v'"
  using assms by (auto simp: same_or_fading_def fading_def)

lemma effect_remove_loop:
  assumes "kind_honest K V sd RSecret ASecret (secrets_api access)"
    and "\<forall>obj \<in> set objs. meta_namespace obj = ns"
  shows "effect V (secret_region sd ns) (remove_loop access why keep objs deleted n)
    (\<lambda>(e, _) v v'. spared sd keep v v' \<and>
       (e = None \<longrightarrow> (\<forall>obj \<in> set objs. meta_name obj \<notin> keep \<longrightarrow> fading v' (sd, RSecret, object_key obj))))"
  using assms(2)
proof (induction objs arbitrary: deleted n)
  case Nil
  show ?case by (auto simp: effect_def)
next
  case (Cons obj objs)
  show ?case
  proof (cases "meta_name obj \<in> keep")
    case True
    with Cons show ?thesis by (auto simp: effect_def)
  next
    case False
    show ?thesis
    proof (rule effectI)
      fix w x w'
      assume run: "remove_loop access why keep (obj # objs) deleted n w = (x, w')"
      obtain res w1 where del: "api_delete (secrets_api access) (object_key obj) w = (res, w1)"
        by (cases "api_delete (secrets_api access) (object_key obj) w")
      let ?place = "(sd, RSecret, object_key obj)"
      obtain left where left: "V w1 = (V w)(?place := left)"
          "left = V w ?place \<or> (\<forall>obj. left = Some obj \<longrightarrow> meta_deleting (any_meta obj))"
        using honest_delete(1) [OF assms(1) del] by blast
      have ns: "meta_namespace obj = ns" using Cons.prems by simp
      have off: "same_off (secret_region sd ns) (V w) (V w1)"
        by (simp add: left ns object_key_def)
      have spared: "spared sd keep (V w) (V w1)"
        using deletion_same_or_fading [OF left] False by (auto simp: spared_def left(1) object_key_def)
      show "same_off (secret_region sd ns) (V w) (V w') \<and> (\<forall>a. x = Returned a \<longrightarrow>
          (case a of (e, _) \<Rightarrow> \<lambda>v v'. spared sd keep v v' \<and>
            (e = None \<longrightarrow> (\<forall>obj \<in> set (obj # objs). meta_name obj \<notin> keep \<longrightarrow>
               fading v' (sd, RSecret, object_key obj)))) (V w) (V w'))"
      proof (cases "ignore_not_found res")
        case (Some e)
        with run del False off spared show ?thesis by auto
      next
        case None
        have gone: "fading (V w1) ?place"
          using honest_delete(2) [OF assms(1) del None] by (simp add: fading_def)
        from run del False None have rest: "remove_loop access why keep objs (Suc deleted) n w1 = (x, w')"
          by simp
        from Cons have "effect V (secret_region sd ns) (remove_loop access why keep objs (Suc deleted) n)
          (\<lambda>(e, _) v v'. spared sd keep v v' \<and>
             (e = None \<longrightarrow> (\<forall>obj \<in> set objs. meta_name obj \<notin> keep \<longrightarrow> fading v' (sd, RSecret, object_key obj))))"
          by simp
        note later = effectD [OF this rest]
        have "same_off (secret_region sd ns) (V w) (V w')"
          by (rule same_off_trans [OF off later(1)]) simp
        moreover have "spared sd keep (V w) v'" "fading v' ?place" if "spared sd keep (V w1) v'" for v'
          using spared_trans [OF spared that] fading_stays [OF gone] that by (auto simp: spared_def)
        ultimately show ?thesis using later(2) by (cases x) (auto split: prod.splits)
      qed
    qed
  qed
qed

definition removed_others ::
  "(string \<times> string) list \<Rightarrow> copy_to \<Rightarrow> string \<Rightarrow> string set \<Rightarrow> reconcile_result \<Rightarrow> reconcile_result \<Rightarrow>
   objects \<Rightarrow> objects \<Rightarrow> bool" where
  "removed_others expected ct ns keep rr rr' v v' \<longleftrightarrow>
     same_inputs rr rr' \<and>
     (\<exists>sd. side_for ct rr sd \<and> spared sd keep v v' \<and> tidy expected sd RSecret ns (\<lambda>nn. nn_name nn \<in> keep) v')"

lemma achieves_remove_from:
  assumes target: "\<And>access. target_access = Some access \<Longrightarrow> kind_honest K V sd RSecret ASecret (secrets_api access)"
    and keys: "fst ` set expected \<subseteq> K" and side: "side_for ct rr sd"
  shows "achieves V (copy_region ct ns) (remove_from ns expected rr ct keep target_access why)
    (removed_others expected ct ns keep rr)"
proof (cases target_access)
  case None
  then show ?thesis by (auto simp: remove_from_def achieves_def intro: effect_return)
next
  case (Some access)
  note honest = target [OF Some]
  show ?thesis
    unfolding achieves_def
  proof (rule effectI)
    fix w x w'
    assume run: "remove_from ns expected rr ct keep target_access why w = (x, w')"
    obtain res w1 where listed: "api_list (secrets_api access) ns (map_of expected) w = (res, w1)"
      by (cases "api_list (secrets_api access) ns (map_of expected) w")
    note same = honest_list(1) [OF honest listed]
    show "same_off (copy_region ct ns) (V w) (V w') \<and> (\<forall>a. x = Returned a \<longrightarrow>
        \<not> stopped a \<longrightarrow> removed_others expected ct ns keep rr a (V w) (V w'))"
    proof (cases res)
      case (Inl e)
      with run listed same Some show ?thesis by (auto simp: remove_from_def)
    next
      case (Inr objs)
      have "dom (map_of expected) \<subseteq> K" using keys by (simp add: dom_map_of_conv_image_fst)
      note found = honest_list(2) [OF honest listed Inr this]
      have "\<forall>obj \<in> set objs. meta_namespace obj = ns"
        using found object_key_simps(1) by metis
      note loop = effect_remove_loop [OF honest this, of why keep 0 0]
      have contract: "effect V (copy_region ct ns) (bind_st (remove_loop access why keep objs 0 0)
          (\<lambda>(e, deleted, kept). return_st
             (case e of
                Some err \<Rightarrow> rr\<lparr>rr_error := Some err\<rparr>
              | None \<Rightarrow> rr\<lparr>rr_message := RemovedSecrets deleted ns ct kept\<rparr>)))
         (\<lambda>rr' v v'. \<not> stopped rr' \<longrightarrow> same_inputs rr rr' \<and> spared sd keep v v' \<and>
            (\<forall>obj \<in> set objs. meta_name obj \<notin> keep \<longrightarrow> fading v' (sd, RSecret, object_key obj)))"
      proof (rule effect_bind [OF loop, where Rf = "{}"])
        show "effect V {} (case a of (e, deleted, kept) \<Rightarrow> return_st
             (case e of
                Some err \<Rightarrow> rr\<lparr>rr_error := Some err\<rparr>
              | None \<Rightarrow> rr\<lparr>rr_message := RemovedSecrets deleted ns ct kept\<rparr>))
            (\<lambda>rr' v v'. v' = v \<and> same_inputs rr rr' \<and> (fst a \<noteq> None \<longrightarrow> stopped rr'))" for a
          by (cases a; cases "fst a") (simp, rule effect_return, simp add: stopped_def)+
      qed (use secret_region_copy_region [OF side] in \<open>auto split: prod.splits\<close>)
      have rest: "bind_st (remove_loop access why keep objs 0 0)
          (\<lambda>(e, deleted, kept). return_st
             (case e of
                Some err \<Rightarrow> rr\<lparr>rr_error := Some err\<rparr>
              | None \<Rightarrow> rr\<lparr>rr_message := RemovedSecrets deleted ns ct kept\<rparr>)) w1 = (x, w')"
        using run listed Inr Some by (simp add: remove_from_def)
      note post = effectD [OF contract rest, unfolded same]
      have "tidy expected sd RSecret ns (\<lambda>nn. nn_name nn \<in> keep) (V w')"
        if "spared sd keep (V w) (V w')"
          and "\<forall>obj \<in> set objs. meta_name obj \<notin> keep \<longrightarrow> fading (V w') (sd, RSecret, object_key obj)"
        using that listed
        by (intro tidy_after [OF honest _ keys, where w = w]) (auto simp: Inr spared_def same_or_fading_def)
      with post side show ?thesis by (auto simp: removed_others_def)
    qed
  qed
qed

lemma achieves_remove_secrets:
  assumes server: "server_law V L r" and keys: "fst ` set expected \<subseteq> managed_labels L"
  shows "achieves V (copy_region ct ns) (remove_secrets L r ns expected rr ct keep)
    (removed_others expected ct ns keep rr)"
proof (cases ct)
  case PlatformClusterCopy
  then show ?thesis
    by (auto simp: remove_secrets_def side_for_def
        intro: achieves_remove_from [where sd = OnPlatform, OF _ keys] server_law_secrets [OF server])
next
  case TargetClusterCopy
  have "achieves V (copy_region ct ns)
      (remove_from ns expected rr ct keep (lib_client_of L a) TargetClusterInteractionProblem)
      (removed_others expected ct ns keep rr)" if "rr_access rr = Some a" for a
    using that TargetClusterCopy
    by (intro achieves_remove_from [where sd = "OnTarget a", OF _ keys] server_law_secrets [OF server])
       (simp_all add: side_for_def)
  with TargetClusterCopy show ?thesis
    unfolding achieves_def by (auto simp: remove_secrets_def intro: effect_deref)
qed

end
