(* ===== verification/Source_Effects.thy ===== *)
theory Source_Effects
  imports Secret_Effects
begin

section \<open>What deploying the source, the namespace and the HelmRelease achieves\<close>

text \<open>
  With an honest server, the configured Flux source is stored and every other labelled source is gone
  or going, the namespace exists on the Cluster, and the stored HelmRelease is one that filling it
  again leaves as it is.
\<close>

subsection \<open>Sources\<close>

definition source_region :: "string \<Rightarrow> place set" where
  "source_region ns = {(OnPlatform, RSource k, nn) | k nn. nn_namespace nn = ns}"

lemma source_region_iff [simp]:
  "(sd, res, nn) \<in> source_region ns \<longleftrightarrow> sd = OnPlatform \<and> (\<exists>k. res = RSource k) \<and> nn_namespace nn = ns"
  by (auto simp: source_region_def)

lemma server_law_sources:
  "server_law V L r \<Longrightarrow> kind_honest (managed_labels L) V OnPlatform (RSource k) ASource (sources_api (platform r) k)"
  by (auto simp: server_law_def client_honest_def)

definition listed_sources ::
  "('w \<Rightarrow> objects) \<Rightarrow> 'w reconciler \<Rightarrow> string \<Rightarrow> (string \<times> string) list \<Rightarrow> objects \<Rightarrow> source_kind \<Rightarrow>
   flux_source list \<Rightarrow> bool" where
  "listed_sources V r ns expected v k items \<longleftrightarrow>
     (\<exists>w w'. V w = v \<and> api_list (sources_api (platform r) k) ns (map_of expected) w = (Inr items, w'))"

lemma list_sources_step:
  assumes "server_law V L r" and "list_sources r ns expected rr k f w = (x, w')"
  shows "V w' = V w \<and> (\<exists>e why. x = Returned (fail rr e why)) \<or>
    (\<exists>items w1. f items w1 = (x, w') \<and> V w1 = V w \<and> listed_sources V r ns expected (V w) k items)"
proof -
  obtain res w1 where call: "api_list (sources_api (platform r) k) ns (map_of expected) w = (res, w1)"
    by (cases "api_list (sources_api (platform r) k) ns (map_of expected) w")
  note same = honest_list(1) [OF server_law_sources [OF assms(1)] call]
  show ?thesis
  proof (cases res)
    case (Inl e)
    with assms(2) call same show ?thesis by (auto simp: list_sources_def)
  next
    case (Inr items)
    with assms(2) call have "f items w1 = (x, w')" by (simp add: list_sources_def)
    moreover have "listed_sources V r ns expected (V w) k items"
      using call Inr by (auto simp: listed_sources_def)
    ultimately show ?thesis using same by blast
  qed
qed

lemma existing_sources:
  assumes server: "server_law V L r" and run: "with_existing_sources r ns expected rr f w = (x, w')"
  shows "V w' = V w \<and> (\<exists>e why. x = Returned (fail rr e why)) \<or>
    (\<exists>helm git oci w1. f helm git oci w1 = (x, w') \<and> V w1 = V w \<and>
       (\<forall>k. listed_sources V r ns expected (V w) k
          (case k of HelmRepository \<Rightarrow> helm | GitRepository \<Rightarrow> git | OCIRepository \<Rightarrow> oci)))"
proof -
  note step = list_sources_step [OF server]
  from step [OF run [unfolded with_existing_sources_def]] show ?thesis
  proof (elim disjE exE conjE)
    fix helm w1
    assume 1: "list_sources r ns expected rr GitRepository (\<lambda>git.
        list_sources r ns expected rr OCIRepository (f helm git)) w1 = (x, w')"
      "V w1 = V w" "listed_sources V r ns expected (V w) HelmRepository helm"
    from step [OF 1(1)] show ?thesis
    proof (elim disjE exE conjE)
      fix git w2
      assume 2: "list_sources r ns expected rr OCIRepository (f helm git) w2 = (x, w')"
        "V w2 = V w1" "listed_sources V r ns expected (V w1) GitRepository git"
      from step [OF 2(1)] show ?thesis
      proof (elim disjE exE conjE)
        fix oci w3
        assume 3: "f helm git oci w3 = (x, w')" "V w3 = V w2"
          "listed_sources V r ns expected (V w2) OCIRepository oci"
        have "listed_sources V r ns expected (V w) k
            (case k of HelmRepository \<Rightarrow> helm | GitRepository \<Rightarrow> git | OCIRepository \<Rightarrow> oci)" for k
          using 1(2,3) 2(2,3) 3(2,3) by (cases k) simp_all
        moreover have "V w3 = V w" using 1(2) 2(2) 3(2) by simp
        ultimately show ?thesis using 3(1) by blast
      qed (use 1 2 in auto)
    qed (use 1 in auto)
  qed auto
qed

lemma listed_sources_key:
  assumes "server_law V L r" and "listed_sources V r ns expected v k items" and "obj \<in> set items"
    and "fst ` set expected \<subseteq> managed_labels L"
  shows "meta_namespace obj = ns"
proof -
  from assms(2) obtain w w' where
    "api_list (sources_api (platform r) k) ns (map_of expected) w = (Inr items, w')"
    by (auto simp: listed_sources_def)
  from honest_list(2) [OF server_law_sources [OF assms(1)] this refl, of "object_key obj" obj] assms(3,4)
  show ?thesis by (simp add: dom_map_of_conv_image_fst)
qed

subsection \<open>Deleting sources\<close>

definition source_places :: "(source_kind \<times> flux_source) list \<Rightarrow> place set" where
  "source_places objs = (\<lambda>(k, obj). (OnPlatform, RSource k, object_key obj)) ` set objs"

lemma effect_delete_sources:
  assumes server: "server_law V L r"
  shows "effect V (source_places objs) (delete_sources (platform r) objs)
    (\<lambda>e v v'. same_or_fading v v' \<and> (e = None \<longrightarrow> (\<forall>pl \<in> source_places objs. fading v' pl)))"
proof (induction objs)
  case Nil
  show ?case by (auto simp: effect_def source_places_def)
next
  case (Cons o' objs)
  obtain k obj where o': "o' = (k, obj)" by (cases o')
  let ?place = "(OnPlatform, RSource k, object_key obj)"
  have places: "source_places (o' # objs) = insert ?place (source_places objs)"
    by (simp add: source_places_def o')
  note honest = server_law_sources [OF server, of k]
  show ?case
  proof (rule effectI)
    fix w x w'
    assume run: "delete_sources (platform r) (o' # objs) w = (x, w')"
    obtain res w1 where del: "api_delete (sources_api (platform r) k) (object_key obj) w = (res, w1)"
      by (cases "api_delete (sources_api (platform r) k) (object_key obj) w")
    obtain left where left: "V w1 = (V w)(?place := left)"
        "left = V w ?place \<or> (\<forall>obj. left = Some obj \<longrightarrow> meta_deleting (any_meta obj))"
      using honest_delete(1) [OF honest del] by blast
    have off: "same_off (source_places (o' # objs)) (V w) (V w1)"
      by (simp add: left places)
    note first = deletion_same_or_fading [OF left]
    show "same_off (source_places (o' # objs)) (V w) (V w') \<and> (\<forall>a. x = Returned a \<longrightarrow>
        same_or_fading (V w) (V w') \<and>
        (a = None \<longrightarrow> (\<forall>pl \<in> source_places (o' # objs). fading (V w') pl)))"
    proof (cases "ignore_not_found res")
      case (Some e)
      with run del off first show ?thesis by (auto simp: o')
    next
      case None
      have gone: "fading (V w1) ?place"
        using honest_delete(2) [OF honest del None] by (simp add: fading_def)
      from run del None have "delete_sources (platform r) objs w1 = (x, w')" by (simp add: o')
      note later = effectD [OF Cons.IH this]
      have "same_off (source_places (o' # objs)) (V w) (V w')"
        by (rule same_off_trans [OF off later(1)]) (auto simp: places)
      with later(2) first gone show ?thesis
        by (auto simp: places intro: same_or_fading_trans fading_stays)
    qed
  qed
qed

lemma achieves_finish_sources:
  assumes server: "server_law V L r"
  shows "achieves V (source_places objs) (finish_sources (platform r) objs rr msg)
    (\<lambda>rr' v v'. rr' = rr\<lparr>rr_message := msg\<rparr> \<and> same_or_fading v v' \<and> (\<forall>pl \<in> source_places objs. fading v' pl))"
  unfolding achieves_def finish_sources_def
proof (rule effect_bind [OF effect_delete_sources [OF server], where Rf = "{}"])
  show "effect V {} (return_st (case a of
        Some f \<Rightarrow> fail rr f PlatformClusterInteractionProblem
      | None \<Rightarrow> rr\<lparr>rr_message := msg\<rparr>))
     (\<lambda>rr' v v'. v' = v \<and> (if a = None then rr' = rr\<lparr>rr_message := msg\<rparr> else stopped rr'))" for a
    by (rule effect_return) (auto split: option.split)
qed (auto split: if_splits)

subsection \<open>deployHelmChartSource\<close>

definition source_current ::
  "'w lib \<Rightarrow> cluster \<Rightarrow> (string \<times> string) list \<Rightarrow> service_config \<Rightarrow> source_kind \<Rightarrow> objects \<Rightarrow> bool" where
  "source_current L c expected pc k v \<longleftrightarrow>
     (\<exists>spec name src. configured_source (spec_source (service_spec pc)) = Some (k, spec) \<and>
        cluster_based_resource_name L (meta_name c) = Returned name \<and>
        v (OnPlatform, RSource k, \<lparr>nn_namespace = meta_namespace c, nn_name = name\<rparr>) = Some (ASource src) \<and>
        source_spec src = spec \<and> map_of expected \<subseteq>\<^sub>m meta_labels src \<and>
        source_mutation L c expected spec src = Mutated src \<and>
        (\<forall>j. tidy expected OnPlatform (RSource j) (meta_namespace c) (\<lambda>nn. j = k \<and> nn_name nn = name) v))"

lemma source_mutation_fields:
  assumes "merge_law L" and "owner_law L" and "source_mutation L c expected spec base = Mutated new"
  shows "source_spec new = spec \<and> map_of expected \<subseteq>\<^sub>m meta_labels new \<and>
    source_mutation L c expected spec new = Mutated new"
proof -
  from assms(3) obtain owners where owners: "lib_set_owner L c (meta_owners base) = Inr owners"
    and new: "new = base\<lparr>meta_owners := owners, meta_labels := meta_labels base ++ map_of expected, source_spec := spec\<rparr>"
    using assms(1) by (auto simp: source_mutation_def merge_law_def split: sum.splits)
  have "(a ++ e) ++ e = a ++ e" for a e :: labels
    by (rule ext) (auto simp: map_add_def split: option.split)
  then show ?thesis
    using assms(1,2) owners
    by (auto simp: new source_mutation_def merge_law_def owner_law_def map_le_def map_add_def split: option.split)
qed

lemma tidy_sources:
  assumes server: "server_law V L r" and listed: "listed_sources V r ns expected v k items"
    and keys: "fst ` set expected \<subseteq> managed_labels L"
    and "\<And>nn. \<not> wanted nn \<Longrightarrow> v' (OnPlatform, RSource k, nn) = v (OnPlatform, RSource k, nn) \<or>
          fading v' (OnPlatform, RSource k, nn)"
    and "\<And>obj. obj \<in> set items \<Longrightarrow> \<not> wanted (object_key obj) \<Longrightarrow>
          fading v' (OnPlatform, RSource k, object_key obj)"
  shows "tidy expected OnPlatform (RSource k) ns wanted v'"
proof -
  from listed obtain w w' where "V w = v"
    "api_list (sources_api (platform r) k) ns (map_of expected) w = (Inr items, w')"
    by (auto simp: listed_sources_def)
  with assms(4,5) show ?thesis
    by (intro tidy_after [OF server_law_sources [OF server] _ keys]) auto
qed

lemma achieves_write_source:
  assumes server: "server_law V L r" and laws: "merge_law L" "owner_law L"
    and run: "write_source L r c expected rr k spec name obsolete w = (x, w')"
    and outside: "(OnPlatform, RSource k, \<lparr>nn_namespace = meta_namespace c, nn_name = name\<rparr>) \<notin> source_places obsolete"
  shows "same_off (insert (OnPlatform, RSource k, \<lparr>nn_namespace = meta_namespace c, nn_name = name\<rparr>) (source_places obsolete))
       (V w) (V w')"
    and "x = Returned rr' \<Longrightarrow> \<not> stopped rr' \<Longrightarrow> rr' = rr\<lparr>rr_message := WroteSource k\<rparr> \<and>
       (\<exists>src. V w' (OnPlatform, RSource k, \<lparr>nn_namespace = meta_namespace c, nn_name = name\<rparr>) = Some (ASource src) \<and>
          source_spec src = spec \<and> map_of expected \<subseteq>\<^sub>m meta_labels src \<and>
          source_mutation L c expected spec src = Mutated src) \<and>
       (\<forall>pl. pl \<noteq> (OnPlatform, RSource k, \<lparr>nn_namespace = meta_namespace c, nn_name = name\<rparr>) \<longrightarrow>
          V w' pl = V w pl \<or> fading (V w') pl) \<and>
       (\<forall>pl \<in> source_places obsolete. fading (V w') pl)"
proof -
  let ?obj = "new_source (meta_namespace c) name"
  let ?place = "(OnPlatform, RSource k, \<lparr>nn_namespace = meta_namespace c, nn_name = name\<rparr>)"
  obtain ans w1 where call: "api_upsert (sources_api (platform r) k) ?obj (source_mutation L c expected spec) w = (ans, w1)"
    by (cases "api_upsert (sources_api (platform r) k) ?obj (source_mutation L c expected spec) w")
  have "same_off (insert ?place (source_places obsolete)) (V w) (V w') \<and> (\<forall>rr'. x = Returned rr' \<longrightarrow> \<not> stopped rr' \<longrightarrow>
      rr' = rr\<lparr>rr_message := WroteSource k\<rparr> \<and>
       (\<exists>src. V w' ?place = Some (ASource src) \<and> source_spec src = spec \<and> map_of expected \<subseteq>\<^sub>m meta_labels src \<and>
          source_mutation L c expected spec src = Mutated src) \<and>
       (\<forall>pl. pl \<noteq> ?place \<longrightarrow> V w' pl = V w pl \<or> fading (V w') pl) \<and>
       (\<forall>pl \<in> source_places obsolete. fading (V w') pl))"
    using honest_upsert [OF server_law_sources [OF server] call]
  proof (elim disjE exE conjE)
    fix new base
    assume new: "ans = Returned (Inr new)" "source_mutation L c expected spec base = Mutated new"
      "V w1 = (V w)((OnPlatform, RSource k, object_key ?obj) \<mapsto> ASource new)"
    from run call new(1) have "finish_sources (platform r) obsolete rr (WroteSource k) w1 = (x, w')"
      by (simp add: write_source_def)
    note later = effectD [OF achieves_finish_sources [OF server, unfolded achieves_def] this]
    have "same_off (insert ?place (source_places obsolete)) (V w) (V w')"
      by (rule same_off_trans [OF _ later(1), where R = "{?place}"]) (simp_all add: new(3))
    moreover have "V w' ?place = Some (ASource new)"
      using same_offD [OF later(1) outside] by (simp add: new(3))
    moreover have "V w' pl = V w pl \<or> fading (V w') pl" if "same_or_fading (V w1) (V w')" "pl \<noteq> ?place" for pl
    proof -
      from that(2) new(3) have "V w1 pl = V w pl" by simp
      with that(1) show ?thesis unfolding same_or_fading_def by metis
    qed
    ultimately show ?thesis using later(2) source_mutation_fields [OF laws new(2)] by metis
  next
    assume "\<forall>new. ans \<noteq> Returned (Inr new)" "V w1 = V w"
    with run call show ?thesis by (auto simp: write_source_def split: outcome.splits sum.splits)
  qed
  then show "same_off (insert ?place (source_places obsolete)) (V w) (V w')"
    and "x = Returned rr' \<Longrightarrow> \<not> stopped rr' \<Longrightarrow> rr' = rr\<lparr>rr_message := WroteSource k\<rparr> \<and>
       (\<exists>src. V w' ?place = Some (ASource src) \<and> source_spec src = spec \<and> map_of expected \<subseteq>\<^sub>m meta_labels src \<and>
          source_mutation L c expected spec src = Mutated src) \<and>
       (\<forall>pl. pl \<noteq> ?place \<longrightarrow> V w' pl = V w pl \<or> fading (V w') pl) \<and>
       (\<forall>pl \<in> source_places obsolete. fading (V w') pl)" by blast+
qed

lemma source_places_obsolete:
  assumes "project_law L" and "\<And>k obj. obj \<in> set (case k of HelmRepository \<Rightarrow> helm | GitRepository \<Rightarrow> git | OCIRepository \<Rightarrow> oci) \<Longrightarrow>
      meta_namespace obj = ns"
  shows "(OnPlatform, RSource j, nn) \<in> source_places (obsolete_sources L k name helm git oci) \<longleftrightarrow>
      (\<exists>obj. obj \<in> set (case j of HelmRepository \<Rightarrow> helm | GitRepository \<Rightarrow> git | OCIRepository \<Rightarrow> oci) \<and>
         (j = k \<longrightarrow> meta_name obj \<noteq> name) \<and> nn = object_key obj)"
    and "source_places (obsolete_sources L k name helm git oci) \<subseteq> source_region ns"
  using assms(2) by (auto simp: source_places_def set_obsolete_sources [OF assms(1)])

lemma achieves_deploy_source:
  assumes server: "server_law V L r" and laws: "merge_law L" "project_law L" "owner_law L"
    and labels: "fst ` set expected \<subseteq> managed_labels L"
    and pc: "rr_provider_config rr = Some pc"
  shows "achieves V (source_region (meta_namespace c)) (deploy_helm_chart_source L r c expected rr)
    (\<lambda>rr' v v'. \<exists>k. source_current L c expected pc k v' \<and> same_inputs (rr\<lparr>rr_source_kind := Some k\<rparr>) rr')"
  unfolding achieves_def
proof (rule effectI)
  let ?ns = "meta_namespace c"
  fix w x w'
  assume "deploy_helm_chart_source L r c expected rr w = (x, w')"
  then have run: "bind_st (of_outcome (cluster_based_resource_name L (meta_name c))) (\<lambda>name.
     with_existing_sources r (meta_namespace c) expected rr (\<lambda>helm git oci.
       case configured_source (spec_source (service_spec pc)) of
         None \<Rightarrow> return_st (fail rr NoSourceConfigured ConfigurationProblem)
       | Some (k, spec) \<Rightarrow>
           write_source L r c expected (rr\<lparr>rr_source_kind := Some k\<rparr>) k spec name
             (obsolete_sources L k name helm git oci))) w = (x, w')"
    by (simp add: deploy_helm_chart_source_def pc)
  show "same_off (source_region ?ns) (V w) (V w') \<and> (\<forall>rr'. x = Returned rr' \<longrightarrow> \<not> stopped rr' \<longrightarrow>
      (\<exists>k. source_current L c expected pc k (V w') \<and> same_inputs (rr\<lparr>rr_source_kind := Some k\<rparr>) rr'))"
  proof (cases "cluster_based_resource_name L (meta_name c)")
    case (Panicked p)
    with run show ?thesis by (auto simp: bind_st_def of_outcome_def)
  next
    case (Returned name)
    from run Returned have "with_existing_sources r ?ns expected rr (\<lambda>helm git oci.
       case configured_source (spec_source (service_spec pc)) of
         None \<Rightarrow> return_st (fail rr NoSourceConfigured ConfigurationProblem)
       | Some (k, spec) \<Rightarrow>
           write_source L r c expected (rr\<lparr>rr_source_kind := Some k\<rparr>) k spec name
             (obsolete_sources L k name helm git oci)) w = (x, w')"
      by (simp add: bind_st_def of_outcome_def)
    from existing_sources [OF server this] show ?thesis
    proof (elim disjE exE conjE)
      fix helm git oci w1
      assume next_: "(case configured_source (spec_source (service_spec pc)) of
         None \<Rightarrow> return_st (fail rr NoSourceConfigured ConfigurationProblem)
       | Some (k, spec) \<Rightarrow>
           write_source L r c expected (rr\<lparr>rr_source_kind := Some k\<rparr>) k spec name
             (obsolete_sources L k name helm git oci)) w1 = (x, w')"
        and same: "V w1 = V w"
        and listed: "\<forall>k. listed_sources V r ?ns expected (V w) k
          (case k of HelmRepository \<Rightarrow> helm | GitRepository \<Rightarrow> git | OCIRepository \<Rightarrow> oci)"
      note keys = listed_sources_key [OF server listed [rule_format] _ labels]
      show ?thesis
      proof (cases "configured_source (spec_source (service_spec pc))")
        case None
        with next_ same show ?thesis by (auto simp: return_st_def)
      next
        case (Some ks)
        obtain k spec where ks: "ks = (k, spec)" by (cases ks)
        let ?obsolete = "obsolete_sources L k name helm git oci"
        let ?place = "(OnPlatform, RSource k, \<lparr>nn_namespace = ?ns, nn_name = name\<rparr>)"
        note places = source_places_obsolete(1) [OF laws(2) keys, where k = k and name = name]
        from next_ Some ks have written: "write_source L r c expected (rr\<lparr>rr_source_kind := Some k\<rparr>) k spec name
             ?obsolete w1 = (x, w')" by simp
        have outside: "?place \<notin> source_places ?obsolete" by (auto simp: places object_key_def)
        note post = achieves_write_source [OF server laws(1,3) written outside, unfolded same]
        have "same_off (source_region ?ns) (V w) (V w')"
          by (rule same_off_mono [OF post(1)]) (use source_places_obsolete(2) [OF laws(2) keys] in auto)
        moreover have "tidy expected OnPlatform (RSource j) ?ns (\<lambda>nn. j = k \<and> nn_name nn = name) (V w')"
          if changed: "\<forall>pl. pl \<noteq> ?place \<longrightarrow> V w' pl = V w pl \<or> fading (V w') pl"
            and gone: "\<forall>pl \<in> source_places ?obsolete. fading (V w') pl" for j
        proof (rule tidy_sources [OF server listed [rule_format] labels])
          show "V w' (OnPlatform, RSource j, nn) = V w (OnPlatform, RSource j, nn) \<or>
              fading (V w') (OnPlatform, RSource j, nn)" if "\<not> (j = k \<and> nn_name nn = name)" for nn
            using changed that by (cases nn) auto
          show "fading (V w') (OnPlatform, RSource j, object_key obj)"
            if "obj \<in> set (case j of HelmRepository \<Rightarrow> helm | GitRepository \<Rightarrow> git | OCIRepository \<Rightarrow> oci)"
              and "\<not> (j = k \<and> nn_name (object_key obj) = name)" for obj
            by (rule bspec [OF gone]) (use that in \<open>auto simp: places\<close>)
        qed
        ultimately show ?thesis
          using post(2) Some ks Returned unfolding source_current_def by fastforce
      qed
    next
      fix e why
      assume "V w' = V w" "x = Returned (fail rr e why)"
      then show ?thesis by simp
    qed
  qed
qed

subsection \<open>undeployHelmChartSource\<close>

lemma achieves_undeploy_source:
  assumes server: "server_law V L r" and laws: "project_law L"
    and labels: "fst ` set expected \<subseteq> managed_labels L"
  shows "achieves V (source_region (meta_namespace c)) (undeploy_helm_chart_source L r c expected rr)
    (\<lambda>rr' v v'. same_inputs rr rr' \<and>
       (\<forall>j. tidy expected OnPlatform (RSource j) (meta_namespace c) (\<lambda>nn. False) v'))"
  unfolding achieves_def
proof (rule effectI)
  let ?ns = "meta_namespace c"
  fix w x w'
  assume run: "undeploy_helm_chart_source L r c expected rr w = (x, w')"
  from existing_sources [OF server run [unfolded undeploy_helm_chart_source_def]]
  show "same_off (source_region ?ns) (V w) (V w') \<and> (\<forall>rr'. x = Returned rr' \<longrightarrow> \<not> stopped rr' \<longrightarrow>
      same_inputs rr rr' \<and> (\<forall>j. tidy expected OnPlatform (RSource j) ?ns (\<lambda>nn. False) (V w')))"
  proof (elim disjE exE conjE)
    fix helm git oci w1
    let ?all = "lib_project_sources L (with_type_kind HelmRepository) helm @
          lib_project_sources L (with_type_kind GitRepository) git @
          lib_project_sources L (with_type_kind OCIRepository) oci"
    assume finish: "finish_sources (platform r) ?all rr RemovedSources w1 = (x, w')"
      and same: "V w1 = V w"
      and listed: "\<forall>k. listed_sources V r ?ns expected (V w) k
          (case k of HelmRepository \<Rightarrow> helm | GitRepository \<Rightarrow> git | OCIRepository \<Rightarrow> oci)"
    note keys = listed_sources_key [OF server listed [rule_format] _ labels]
    have project: "lib_project_sources L f xs = map f xs" for f xs
      using laws by (simp add: project_law_def)
    have type_kind: "fst (with_type_kind k obj) = k" "object_key (snd (with_type_kind k obj)) = object_key obj" for k obj
      by (auto simp: with_type_kind_def object_key_def)
    have places: "(sd, RSource j, nn) \<in> source_places ?all \<longleftrightarrow> sd = OnPlatform \<and>
        (\<exists>obj. obj \<in> set (case j of HelmRepository \<Rightarrow> helm | GitRepository \<Rightarrow> git | OCIRepository \<Rightarrow> oci) \<and>
           nn = object_key obj)" for sd j nn
      by (cases j) (auto simp: source_places_def project case_prod_unfold type_kind image_Un image_image)
    have region: "source_places ?all \<subseteq> source_region ?ns"
    proof
      fix pl assume pl: "pl \<in> source_places ?all"
      then obtain sd j nn where "pl = (sd, RSource j, nn)" by (auto simp: source_places_def)
      with pl keys show "pl \<in> source_region ?ns" by (auto simp: places)
    qed
    note post = effectD [OF achieves_finish_sources [OF server, unfolded achieves_def] finish, unfolded same]
    have "tidy expected OnPlatform (RSource j) ?ns (\<lambda>nn. False) (V w')"
      if changed: "same_or_fading (V w) (V w')" and gone: "\<forall>pl \<in> source_places ?all. fading (V w') pl" for j
    proof (rule tidy_sources [OF server listed [rule_format] labels])
      show "V w' (OnPlatform, RSource j, nn) = V w (OnPlatform, RSource j, nn) \<or>
          fading (V w') (OnPlatform, RSource j, nn)" for nn
        using changed unfolding same_or_fading_def by blast
      show "fading (V w') (OnPlatform, RSource j, object_key obj)"
        if "obj \<in> set (case j of HelmRepository \<Rightarrow> helm | GitRepository \<Rightarrow> git | OCIRepository \<Rightarrow> oci)" for obj
        by (rule bspec [OF gone]) (use that in \<open>auto simp: places\<close>)
    qed
    with post same_off_mono [OF post(1) region] show ?thesis by auto
  next
    fix e why
    assume "V w' = V w" "x = Returned (fail rr e why)"
    then show ?thesis by simp
  qed
qed

subsection \<open>The namespace\<close>

definition namespace_region :: "place set" where
  "namespace_region = {(OnTarget a, RNamespace, nn) | a nn. True}"

lemma namespace_region_iff [simp]:
  "(sd, res, nn) \<in> namespace_region \<longleftrightarrow> sd \<noteq> OnPlatform \<and> res = RNamespace"
  by (cases sd) (auto simp: namespace_region_def)

definition namespace_present :: "string \<Rightarrow> reconcile_result \<Rightarrow> objects \<Rightarrow> bool" where
  "namespace_present ns rr v \<longleftrightarrow>
     (\<exists>a. rr_access rr = Some a \<and> v (OnTarget a, RNamespace, \<lparr>nn_namespace = [], nn_name = ns\<rparr>) \<noteq> None)"

lemma achieves_ensure_namespace:
  assumes server: "server_law V L r"
  shows "achieves V namespace_region (ensure_target_cluster_namespace L ns rr)
    (\<lambda>rr' v v'. same_inputs rr rr' \<and> namespace_present ns rr v')"
  unfolding achieves_def ensure_target_cluster_namespace_def
proof (rule effect_deref, rule effect_deref, rule effectI)
  fix a cl w x w'
  let ?key = "\<lparr>nn_namespace = [], nn_name = ns\<rparr>"
  assume a: "rr_access rr = Some a" and cl: "lib_client_of L a = Some cl"
    and run: "(let obj = new_namespace ns; why = TargetClusterInteractionProblem in
       case api_get (namespaces_api cl) (object_key obj) w of
         (Inr _, w1) \<Rightarrow> (Returned rr, w1)
       | (Inl e, w1) \<Rightarrow>
           if e \<noteq> NotFound then (Returned (fail rr (GetNamespaceFailed ns e) why), w1)
           else
             case api_create (namespaces_api cl) obj w1 of
               (res, w2) \<Rightarrow>
                 (case res of
                    None \<Rightarrow> (Returned (rr\<lparr>rr_message := CreatedNamespace ns\<rparr>), w2)
                  | Some e \<Rightarrow>
                      if e = AlreadyExists then (Returned (rr\<lparr>rr_message := CreatedNamespace ns\<rparr>), w2)
                      else (Returned (fail rr (CreateNamespaceFailed ns e) why), w2))) = (x, w')"
  have honest: "kind_honest (managed_labels L) V (OnTarget a) RNamespace ANamespace (namespaces_api cl)"
    using server cl by (simp add: server_law_def client_honest_def)
  obtain ans w1 where get: "api_get (namespaces_api cl) ?key w = (ans, w1)"
    by (cases "api_get (namespaces_api cl) ?key w")
  obtain res w2 where create: "api_create (namespaces_api cl) (new_namespace ns) w1 = (res, w2)"
    by (cases "api_create (namespaces_api cl) (new_namespace ns) w1")
  note G = honest_get [OF honest get]
  note C = honest_create [OF honest create]
  show "same_off namespace_region (V w) (V w') \<and> (\<forall>rr'. x = Returned rr' \<longrightarrow> \<not> stopped rr' \<longrightarrow>
      same_inputs rr rr' \<and> namespace_present ns rr (V w'))"
  proof (cases ans)
    case (Inr obj)
    with run get G show ?thesis by (auto simp: namespace_present_def a)
  next
    case (Inl e)
    with run get create G(1) C show ?thesis
      by (cases res) (auto simp: namespace_present_def a split: if_splits)
  qed
qed

subsection \<open>The HelmRelease\<close>

definition release_region :: "string \<Rightarrow> place set" where
  "release_region ns = {(OnPlatform, RRelease, nn) | nn. nn_namespace nn = ns}"

lemma release_region_iff [simp]:
  "(sd, res, nn) \<in> release_region ns \<longleftrightarrow> sd = OnPlatform \<and> res = RRelease \<and> nn_namespace nn = ns"
  by (auto simp: release_region_def)

lemma server_law_releases:
  "server_law V L r \<Longrightarrow> kind_honest (managed_labels L) V OnPlatform RRelease ARelease (releases_api (platform r))"
  by (simp add: server_law_def client_honest_def)

definition release_current ::
  "'w lib \<Rightarrow> 'w reconciler \<Rightarrow> cluster \<Rightarrow> (string \<times> string) list \<Rightarrow> reconcile_result \<Rightarrow> objects \<Rightarrow> bool" where
  "release_current L r c expected rr v \<longleftrightarrow>
     (\<exists>name hr. cluster_based_resource_name L (meta_name c) = Returned name \<and>
        v (OnPlatform, RRelease, \<lparr>nn_namespace = meta_namespace c, nn_name = name\<rparr>) = Some (ARelease hr) \<and>
        release_mutation L r c expected rr hr = Mutated hr)"

text \<open>What the mutate function of the HelmRelease reads of the result so far.\<close>

definition same_release_inputs :: "reconcile_result \<Rightarrow> reconcile_result \<Rightarrow> bool" where
  "same_release_inputs rr rr' \<longleftrightarrow>
     rr_config rr' = rr_config rr \<and> rr_provider_config rr' = rr_provider_config rr \<and>
     rr_source_kind rr' = rr_source_kind rr \<and> rr_access_request rr' = rr_access_request rr"

lemma release_mutation_same:
  assumes "same_release_inputs rr rr'"
  shows "release_mutation L r c expected rr' = release_mutation L r c expected rr"
proof
  fix hr
  have "set_chart L rr' = set_chart L rr" "set_values r c rr' = set_values r c rr"
    "set_kubeconfig L rr' = set_kubeconfig L rr" "release_interval rr' = release_interval rr"
    using assms
    by (simp_all add: fun_eq_iff set_chart_def source_reference_to_def set_values_def
        set_kubeconfig_def release_interval_def same_release_inputs_def cong: option.case_cong)
  then have "fill_release L r c expected rr' owners hr = fill_release L r c expected rr owners hr" for owners
    by (simp add: fill_release_def)
  then show "release_mutation L r c expected rr' hr = release_mutation L r c expected rr hr"
    by (simp add: release_mutation_def split: sum.split)
qed

lemma release_mutation_inputs:
  "same_inputs rr rr' \<Longrightarrow> release_mutation L r c expected rr' = release_mutation L r c expected rr"
  by (rule release_mutation_same) (simp add: same_release_inputs_def same_inputs_def)

lemma achieves_deploy_release:
  assumes server: "server_law V L r" and laws: "merge_law L" "owner_law L"
  shows "achieves V (release_region (meta_namespace c)) (deploy_helm_release L r c expected rr)
    (\<lambda>rr' v v'. same_inputs rr rr' \<and> release_current L r c expected rr v')"
  unfolding achieves_def
proof (rule effectI)
  fix w x w'
  assume run: "deploy_helm_release L r c expected rr w = (x, w')"
  show "same_off (release_region (meta_namespace c)) (V w) (V w') \<and> (\<forall>rr'. x = Returned rr' \<longrightarrow>
      \<not> stopped rr' \<longrightarrow> same_inputs rr rr' \<and> release_current L r c expected rr (V w'))"
  proof (cases "cluster_based_resource_name L (meta_name c)")
    case (Panicked p)
    with run show ?thesis by (auto simp: deploy_helm_release_def bind_st_def of_outcome_def)
  next
    case (Returned name)
    let ?hr = "new_release (meta_namespace c) name"
    let ?rr = "rr\<lparr>rr_related := Some (object_key ?hr)\<rparr>"
    obtain ans w1 where call: "api_upsert (releases_api (platform r)) ?hr (release_mutation L r c expected ?rr) w = (ans, w1)"
      by (cases "api_upsert (releases_api (platform r)) ?hr (release_mutation L r c expected ?rr) w")
    from honest_upsert [OF server_law_releases [OF server] call] show ?thesis
    proof (elim disjE exE conjE)
      fix new base
      assume new: "ans = Returned (Inr new)" "release_mutation L r c expected ?rr base = Mutated new"
        "V w1 = (V w)((OnPlatform, RRelease, object_key ?hr) \<mapsto> ARelease new)"
      from run call new(1) Returned have x: "x = Returned (?rr\<lparr>rr_message := WroteRelease\<rparr>)" "w' = w1"
        by (auto simp: deploy_helm_release_def bind_st_def of_outcome_def Let_def)
      have "release_mutation L r c expected rr new = Mutated new"
        using release_mutation_again [OF laws new(2)]
        unfolding release_mutation_inputs [of rr ?rr, OF same_inputs_updates(5)] .
      with x new(3) Returned show ?thesis
        by (auto simp: release_current_def)
    next
      assume "\<forall>new. ans \<noteq> Returned (Inr new)" "V w1 = V w"
      with run call Returned show ?thesis
        by (auto simp: deploy_helm_release_def bind_st_def of_outcome_def Let_def
            split: outcome.splits sum.splits)
    qed
  qed
qed

text \<open>Undeploying goes on only when the HelmRelease is gone.\<close>

lemma achieves_undeploy_release:
  assumes server: "server_law V L r"
  shows "achieves V (release_region (meta_namespace c)) (undeploy_helm_release L r c expected rr)
    (\<lambda>rr' v v'. same_inputs rr rr' \<and>
       (\<exists>name. cluster_based_resource_name L (meta_name c) = Returned name \<and>
          v' (OnPlatform, RRelease, \<lparr>nn_namespace = meta_namespace c, nn_name = name\<rparr>) = None))"
  unfolding achieves_def
proof (rule effectI)
  fix w x w'
  assume run: "undeploy_helm_release L r c expected rr w = (x, w')"
  note honest = server_law_releases [OF server]
  show "same_off (release_region (meta_namespace c)) (V w) (V w') \<and> (\<forall>rr'. x = Returned rr' \<longrightarrow>
      \<not> stopped rr' \<longrightarrow> same_inputs rr rr' \<and>
       (\<exists>name. cluster_based_resource_name L (meta_name c) = Returned name \<and>
          V w' (OnPlatform, RRelease, \<lparr>nn_namespace = meta_namespace c, nn_name = name\<rparr>) = None))"
  proof (cases "cluster_based_resource_name L (meta_name c)")
    case (Panicked p)
    with run show ?thesis by (auto simp: undeploy_helm_release_def bind_st_def of_outcome_def)
  next
    case (Returned name)
    let ?key = "\<lparr>nn_namespace = meta_namespace c, nn_name = name\<rparr>"
    obtain ans w1 where get: "api_get (releases_api (platform r)) ?key w = (ans, w1)"
      by (cases "api_get (releases_api (platform r)) ?key w")
    note G = honest_get [OF honest get]
    have awaiting: "stopped (await_release_deletion rr1)" for rr1
      by (simp add: stopped_def await_release_deletion_def default_requeue_after_def)
    show ?thesis
    proof (cases ans)
      case (Inl e)
      with run get G Returned show ?thesis
        by (auto simp: undeploy_helm_release_def bind_st_def of_outcome_def Let_def split: if_splits)
    next
      case (Inr hr)
      obtain res w2 where del: "api_delete (releases_api (platform r)) (object_key hr) w1 = (res, w2)"
        by (cases "api_delete (releases_api (platform r)) (object_key hr) w1")
      have key: "object_key hr = ?key" using G(2) [OF Inr] by simp
      have "same_off (release_region (meta_namespace c)) (V w) (V w2)"
        using honest_delete(1) [OF honest del] G(1) by (auto simp: key)
      with run get del Inr Returned G(1) awaiting show ?thesis
        by (auto simp: undeploy_helm_release_def bind_st_def of_outcome_def Let_def
            split: if_splits option.splits)
    qed
  qed
qed

end
