(* ===== verification/Reconcile_Effects.thy ===== *)
theory Reconcile_Effects
  imports Source_Effects
begin

section \<open>What a reconciliation achieves\<close>

text \<open>
  The phases together: with an honest server, a run that ends without error and without a request to
  come back leaves the Cluster in the state that the configuration asks for, deployed or cleaned up.
\<close>

subsection \<open>What survives later phases\<close>

lemma copies_present_cong:
  assumes "copies_present L r expected sd ns entries v"
    and "\<And>t. t \<in> snd ` set entries \<Longrightarrow>
      v' (sd, RSecret, \<lparr>nn_namespace = ns, nn_name = t\<rparr>) = v (sd, RSecret, \<lparr>nn_namespace = ns, nn_name = t\<rparr>)"
    and "\<And>nn. nn_namespace nn = provider_namespace r \<Longrightarrow> v' (OnPlatform, RSecret, nn) = v (OnPlatform, RSecret, nn)"
  shows "copies_present L r expected sd ns entries v'"
  using assms unfolding copies_present_def copied_to_def by simp

lemma tidy_cong:
  assumes "tidy expected sd res ns wanted v"
    and "\<And>nn. nn_namespace nn = ns \<Longrightarrow> v' (sd, res, nn) = v (sd, res, nn)"
  shows "tidy expected sd res ns wanted v'"
  using assms unfolding tidy_def by metis

lemma source_current_cong:
  assumes "source_current L c expected pc k v"
    and "\<And>j nn. nn_namespace nn = meta_namespace c \<Longrightarrow>
      v' (OnPlatform, RSource j, nn) = v (OnPlatform, RSource j, nn)"
  shows "source_current L c expected pc k v'"
  using assms(1) unfolding source_current_def
  by (elim exE conjE, intro exI conjI allI) (auto simp: assms(2) intro: tidy_cong [where v = v])

lemma release_current_inputs:
  "same_inputs rr rr' \<Longrightarrow> release_current L r c expected rr' v = release_current L r c expected rr v"
  by (simp add: release_current_def release_mutation_inputs)

subsection \<open>Copying and removing together\<close>

definition secrets_synced ::
  "'w lib \<Rightarrow> 'w reconciler \<Rightarrow> (string \<times> string) list \<Rightarrow> copy_to \<Rightarrow> string \<Rightarrow> (string \<times> string) list \<Rightarrow>
   reconcile_result \<Rightarrow> objects \<Rightarrow> bool" where
  "secrets_synced L r expected ct ns entries rr v \<longleftrightarrow>
     (\<exists>sd. side_for ct rr sd \<and> copies_present L r expected sd ns entries v \<and>
        tidy expected sd RSecret ns (\<lambda>nn. nn_name nn \<in> snd ` set entries) v)"

lemma side_for_inputs: "same_inputs rr rr' \<Longrightarrow> side_for ct rr' sd = side_for ct rr sd"
  by (auto simp: side_for_def same_inputs_def split: copy_to.split)

lemma side_for_unique: "side_for ct rr sd \<Longrightarrow> side_for ct rr sd' \<Longrightarrow> sd' = sd"
  by (cases ct) (auto simp: side_for_def)

lemma secrets_synced_inputs:
  "same_inputs rr rr' \<Longrightarrow>
   secrets_synced L r expected ct ns entries rr' v = secrets_synced L r expected ct ns entries rr v"
  by (simp add: secrets_synced_def side_for_inputs)

lemma secrets_synced_off:
  assumes "secrets_synced L r expected ct ns entries rr v" and "same_off R v v'"
    and "copy_region ct ns \<inter> R = {}" and "copy_region PlatformClusterCopy (provider_namespace r) \<inter> R = {}"
  shows "secrets_synced L r expected ct ns entries rr v'"
proof -
  from assms(1) obtain sd where sd: "side_for ct rr sd" "copies_present L r expected sd ns entries v"
    "tidy expected sd RSecret ns (\<lambda>nn. nn_name nn \<in> snd ` set entries) v"
    by (auto simp: secrets_synced_def)
  have same: "v' (sd, RSecret, nn) = v (sd, RSecret, nn)" if "nn_namespace nn = ns" for nn
  proof (rule same_offD [OF assms(2)])
    from sd(1) that have "(sd, RSecret, nn) \<in> copy_region ct ns"
      by (cases ct) (auto simp: side_for_def)
    with assms(3) show "(sd, RSecret, nn) \<notin> R" by blast
  qed
  have "v' (OnPlatform, RSecret, nn) = v (OnPlatform, RSecret, nn)" if "nn_namespace nn = provider_namespace r" for nn
  proof (rule same_offD [OF assms(2)])
    from that have "(OnPlatform, RSecret, nn) \<in> copy_region PlatformClusterCopy (provider_namespace r)"
      by simp
    with assms(4) show "(OnPlatform, RSecret, nn) \<notin> R" by blast
  qed
  with same have "copies_present L r expected sd ns entries v'"
    by (intro copies_present_cong [OF sd(2)]) simp_all
  with sd(1) tidy_cong [OF sd(3) same] show ?thesis by (auto simp: secrets_synced_def)
qed

lemma achieves_sync:
  assumes server: "server_law V L r" and laws: "merge_law L" "range_law L" "distinct (map fst expected)"
    and labels: "fst ` set expected \<subseteq> managed_labels L"
    and apart: "ct = PlatformClusterCopy \<longrightarrow> ns \<noteq> provider_namespace r"
    and loaded: "rr_provider_config rr = Some pc" "rr_platform_service rr = Some svc"
    and rest: "\<And>rr1. same_inputs rr rr1 \<Longrightarrow> achieves V R (f rr1) (S rr1)"
  shows "achieves V (copy_region ct ns \<union> R)
    (bind_st (copy_secrets L r ns expected rr ct) (\<lambda>(rr, copied).
       if stopped rr then return_st rr else chain (remove_secrets L r ns expected rr ct copied) f))
    (\<lambda>rr' v v'. \<exists>rr1 v1. same_inputs rr rr1 \<and>
       secrets_synced L r expected ct ns (secret_entries pc svc ct) rr v1 \<and> S rr1 rr' v1 v' \<and> same_off R v1 v')"
  unfolding achieves_def
proof (rule effect_bind [OF effect_copy_secrets [OF server laws apart loaded]])
  let ?entries = "secret_entries pc svc ct"
  show "effect V (copy_region ct ns \<union> R)
      (case a of (rr, copied) \<Rightarrow>
         if stopped rr then return_st rr else chain (remove_secrets L r ns expected rr ct copied) f)
      (\<lambda>rr' v v'. \<not> stopped rr' \<longrightarrow> \<not> stopped (fst a) \<and>
         (\<exists>rr1 v1. removed_others expected ct ns (snd a) (fst a) rr1 v v1 \<and>
           same_off (copy_region ct ns) v v1 \<and> S rr1 rr' v1 v' \<and> same_off R v1 v'))"
    if copied: "copied_all L r expected ct ns ?entries rr a v v1" for a v v1
  proof (cases "stopped (fst a)")
    case True
    then show ?thesis by (cases a) (auto intro: effect_return)
  next
    case False
    have "achieves V (copy_region ct ns \<union> R) (chain (remove_secrets L r ns expected (fst a) ct (snd a)) f)
      (\<lambda>rr' v v'. \<exists>rr1 v1. removed_others expected ct ns (snd a) (fst a) rr1 v v1 \<and>
           same_off (copy_region ct ns) v v1 \<and> S rr1 rr' v1 v' \<and> same_off R v1 v')"
    proof (rule achieves_chain [OF achieves_remove_secrets [OF server labels]])
      show "achieves V R (f rr1) (S rr1)"
        if "removed_others expected ct ns (snd a) (fst a) rr1 v v1" for rr1 v v1
        using that copied False by (intro rest) (auto simp: removed_others_def copied_all_def same_inputs_def)
    qed auto
    with False show ?thesis by (cases a) (simp add: achieves_def)
  qed
next
  let ?entries = "secret_entries pc svc ct"
  fix a rr' v v1 v2
  assume copied: "copied_all L r expected ct ns ?entries rr a v v1"
    and later: "\<not> stopped rr' \<longrightarrow> \<not> stopped (fst a) \<and>
         (\<exists>rr1 v3. removed_others expected ct ns (snd a) (fst a) rr1 v1 v3 \<and>
           same_off (copy_region ct ns) v1 v3 \<and> S rr1 rr' v3 v2 \<and> same_off R v3 v2)"
  show "\<not> stopped rr' \<longrightarrow> (\<exists>rr1 v1. same_inputs rr rr1 \<and>
      secrets_synced L r expected ct ns ?entries rr v1 \<and> S rr1 rr' v1 v2 \<and> same_off R v1 v2)"
  proof
    assume "\<not> stopped rr'"
    with later obtain rr1 v3 where a: "\<not> stopped (fst a)"
      and removed: "removed_others expected ct ns (snd a) (fst a) rr1 v1 v3"
      and off: "same_off (copy_region ct ns) v1 v3" and tail: "S rr1 rr' v3 v2" "same_off R v3 v2" by blast
    from copied a have same: "same_inputs rr (fst a)" and names: "snd a = snd ` set ?entries"
      and present: "\<And>sd. side_for ct rr sd \<Longrightarrow> copies_present L r expected sd ns ?entries v1"
      by (auto simp: copied_all_def)
    from removed obtain sd where inputs: "same_inputs (fst a) rr1" and sd: "side_for ct rr sd"
      and spared: "spared sd (snd a) v1 v3"
      and tidy: "tidy expected sd RSecret ns (\<lambda>nn. nn_name nn \<in> snd a) v3"
      by (auto simp: removed_others_def side_for_inputs [OF same])
    have "v3 (OnPlatform, RSecret, nn) = v1 (OnPlatform, RSecret, nn)"
      if "nn_namespace nn = provider_namespace r" for nn
      using that apart by (intro same_offD [OF off]) auto
    then have "copies_present L r expected sd ns ?entries v3"
      using spared by (intro copies_present_cong [OF present [OF sd]]) (auto simp: spared_def names)
    with sd tidy have "secrets_synced L r expected ct ns ?entries rr v3"
      by (auto simp: secrets_synced_def names)
    moreover have "same_inputs rr rr1" using same inputs by (simp add: same_inputs_def)
    ultimately show "\<exists>rr1 v1. same_inputs rr rr1 \<and>
      secrets_synced L r expected ct ns ?entries rr v1 \<and> S rr1 rr' v1 v2 \<and> same_off R v1 v2"
      using tail by blast
  qed
qed auto

subsection \<open>handleCreateOrUpdate\<close>

text \<open>
  What the configuration asks for: on the platform cluster the copied secrets and no others, the
  current source, and the HelmRelease as the result of the run says; on the Cluster the namespace and
  the copied secrets and no others.
\<close>

definition deployed ::
  "'w lib \<Rightarrow> 'w reconciler \<Rightarrow> cluster \<Rightarrow> (string \<times> string) list \<Rightarrow> service_config \<Rightarrow> platform_service \<Rightarrow>
   reconcile_result \<Rightarrow> objects \<Rightarrow> bool" where
  "deployed L r c expected pc svc rr v \<longleftrightarrow>
     secrets_synced L r expected PlatformClusterCopy (meta_namespace c)
       (secret_entries pc svc PlatformClusterCopy) rr v \<and>
     (\<exists>k. rr_source_kind rr = Some k \<and> source_current L c expected pc k v) \<and>
     namespace_present target_cluster_namespace rr v \<and>
     secrets_synced L r expected TargetClusterCopy target_cluster_namespace
       (secret_entries pc svc TargetClusterCopy) rr v \<and>
     release_current L r c expected rr v"

definition deploy_laws :: "('w \<Rightarrow> objects) \<Rightarrow> 'w lib \<Rightarrow> 'w reconciler \<Rightarrow> (string \<times> string) list \<Rightarrow> bool" where
  "deploy_laws V L r expected \<longleftrightarrow>
     server_law V L r \<and> merge_law L \<and> owner_law L \<and> project_law L \<and> range_law L \<and>
     distinct (map fst expected) \<and> fst ` set expected \<subseteq> managed_labels L"

definition deploy_region :: "cluster \<Rightarrow> place set" where
  "deploy_region c =
     copy_region PlatformClusterCopy (meta_namespace c) \<union> (source_region (meta_namespace c) \<union>
     (namespace_region \<union> (copy_region TargetClusterCopy target_cluster_namespace \<union>
      release_region (meta_namespace c))))"

lemma achieves_release_phase:
  assumes "deploy_laws V L r expected"
  shows "achieves V (release_region (meta_namespace c))
    (chain (deploy_helm_release L r c expected rr) (\<lambda>rr. return_st (rr\<lparr>rr_message := m\<rparr>)))
    (\<lambda>rr' v v'. same_inputs rr rr' \<and> release_current L r c expected rr v')"
proof (rule achieves_chain)
  show "achieves V (release_region (meta_namespace c)) (deploy_helm_release L r c expected rr)
      (\<lambda>rr' v v'. same_inputs rr rr' \<and> release_current L r c expected rr v')"
    using assms by (intro achieves_deploy_release) (auto simp: deploy_laws_def)
  show "achieves V {} (return_st (rr1\<lparr>rr_message := m\<rparr>)) (\<lambda>rr' v v'. v' = v \<and> same_inputs rr1 rr')" for rr1
    by (auto simp: achieves_def intro: effect_return)
qed (auto simp: same_inputs_def)

lemma achieves_target_phases:
  assumes "deploy_laws V L r expected"
    and "rr_provider_config rr = Some pc" "rr_platform_service rr = Some svc"
  shows "achieves V (copy_region TargetClusterCopy target_cluster_namespace \<union> release_region (meta_namespace c))
    (bind_st (copy_secrets L r target_cluster_namespace expected rr TargetClusterCopy) (\<lambda>(rr, copied).
     if stopped rr then return_st rr else
     chain (remove_secrets L r target_cluster_namespace expected rr TargetClusterCopy copied) (\<lambda>rr.
     chain (deploy_helm_release L r c expected rr) (\<lambda>rr.
     return_st (rr\<lparr>rr_message := m\<rparr>)))))
    (\<lambda>rr' v v'. same_inputs rr rr' \<and>
       secrets_synced L r expected TargetClusterCopy target_cluster_namespace
         (secret_entries pc svc TargetClusterCopy) rr v' \<and>
       release_current L r c expected rr v')"
proof (rule achieves_conseq)
  show "achieves V (copy_region TargetClusterCopy target_cluster_namespace \<union> release_region (meta_namespace c))
    (bind_st (copy_secrets L r target_cluster_namespace expected rr TargetClusterCopy) (\<lambda>(rr, copied).
     if stopped rr then return_st rr else
     chain (remove_secrets L r target_cluster_namespace expected rr TargetClusterCopy copied) (\<lambda>rr.
     chain (deploy_helm_release L r c expected rr) (\<lambda>rr.
     return_st (rr\<lparr>rr_message := m\<rparr>)))))
    (\<lambda>rr' v v'. \<exists>rr1 v1. same_inputs rr rr1 \<and>
       secrets_synced L r expected TargetClusterCopy target_cluster_namespace
         (secret_entries pc svc TargetClusterCopy) rr v1 \<and>
       (same_inputs rr1 rr' \<and> release_current L r c expected rr1 v') \<and>
       same_off (release_region (meta_namespace c)) v1 v')"
    using assms
    by (intro achieves_sync achieves_release_phase) (auto simp: deploy_laws_def)
next
  fix rr' v v'
  assume "\<exists>rr1 v1. same_inputs rr rr1 \<and>
       secrets_synced L r expected TargetClusterCopy target_cluster_namespace
         (secret_entries pc svc TargetClusterCopy) rr v1 \<and>
       (same_inputs rr1 rr' \<and> release_current L r c expected rr1 v') \<and>
       same_off (release_region (meta_namespace c)) v1 v'"
  then obtain rr1 v1 where "same_inputs rr rr1" "same_inputs rr1 rr'"
      "release_current L r c expected rr1 v'"
    and synced: "secrets_synced L r expected TargetClusterCopy target_cluster_namespace
         (secret_entries pc svc TargetClusterCopy) rr v1"
      "same_off (release_region (meta_namespace c)) v1 v'" by blast
  moreover from this(3) have "release_current L r c expected rr v'"
    by (simp add: release_current_inputs [OF \<open>same_inputs rr rr1\<close>])
  moreover from synced have "secrets_synced L r expected TargetClusterCopy target_cluster_namespace
         (secret_entries pc svc TargetClusterCopy) rr v'"
    by (rule secrets_synced_off) auto
  ultimately show "same_inputs rr rr' \<and>
       secrets_synced L r expected TargetClusterCopy target_cluster_namespace
         (secret_entries pc svc TargetClusterCopy) rr v' \<and>
       release_current L r c expected rr v'"
    by (auto simp: same_inputs_def)
qed simp

lemma achieves_source_phases:
  assumes laws: "deploy_laws V L r expected"
    and loaded: "rr_provider_config rr = Some pc" "rr_platform_service rr = Some svc"
  shows "achieves V (source_region (meta_namespace c) \<union> (namespace_region \<union>
      (copy_region TargetClusterCopy target_cluster_namespace \<union> release_region (meta_namespace c))))
    (chain (deploy_helm_chart_source L r c expected rr) (\<lambda>rr.
     chain (ensure_target_cluster_namespace L target_cluster_namespace rr) (\<lambda>rr.
     bind_st (copy_secrets L r target_cluster_namespace expected rr TargetClusterCopy) (\<lambda>(rr, copied).
     if stopped rr then return_st rr else
     chain (remove_secrets L r target_cluster_namespace expected rr TargetClusterCopy copied) (\<lambda>rr.
     chain (deploy_helm_release L r c expected rr) (\<lambda>rr.
     return_st (rr\<lparr>rr_message := m\<rparr>)))))))
    (\<lambda>rr' v v'. \<exists>k. same_inputs (rr\<lparr>rr_source_kind := Some k\<rparr>) rr' \<and> source_current L c expected pc k v' \<and>
       namespace_present target_cluster_namespace rr' v' \<and>
       secrets_synced L r expected TargetClusterCopy target_cluster_namespace
         (secret_entries pc svc TargetClusterCopy) rr' v' \<and>
       release_current L r c expected rr' v')"
proof (rule achieves_chain)
  show "achieves V (source_region (meta_namespace c)) (deploy_helm_chart_source L r c expected rr)
      (\<lambda>rr' v v'. \<exists>k. source_current L c expected pc k v' \<and> same_inputs (rr\<lparr>rr_source_kind := Some k\<rparr>) rr')"
    using laws loaded by (intro achieves_deploy_source) (auto simp: deploy_laws_def)
next
  fix rr1 v v1
  assume "\<exists>k. source_current L c expected pc k v1 \<and> same_inputs (rr\<lparr>rr_source_kind := Some k\<rparr>) rr1"
  then have loaded1: "rr_provider_config rr1 = Some pc" "rr_platform_service rr1 = Some svc"
    using loaded by (auto simp: same_inputs_def)
  show "achieves V (namespace_region \<union>
      (copy_region TargetClusterCopy target_cluster_namespace \<union> release_region (meta_namespace c)))
    (chain (ensure_target_cluster_namespace L target_cluster_namespace rr1) (\<lambda>rr.
     bind_st (copy_secrets L r target_cluster_namespace expected rr TargetClusterCopy) (\<lambda>(rr, copied).
     if stopped rr then return_st rr else
     chain (remove_secrets L r target_cluster_namespace expected rr TargetClusterCopy copied) (\<lambda>rr.
     chain (deploy_helm_release L r c expected rr) (\<lambda>rr.
     return_st (rr\<lparr>rr_message := m\<rparr>))))))
    (\<lambda>rr' v v'. same_inputs rr1 rr' \<and> namespace_present target_cluster_namespace rr' v' \<and>
       secrets_synced L r expected TargetClusterCopy target_cluster_namespace
         (secret_entries pc svc TargetClusterCopy) rr' v' \<and>
       release_current L r c expected rr' v')"
  proof (rule achieves_chain)
    show "achieves V namespace_region (ensure_target_cluster_namespace L target_cluster_namespace rr1)
        (\<lambda>rr' v v'. same_inputs rr1 rr' \<and> namespace_present target_cluster_namespace rr1 v')"
      using laws by (intro achieves_ensure_namespace [where r = r]) (simp add: deploy_laws_def)
  next
    fix rr2 v v1
    assume "same_inputs rr1 rr2 \<and> namespace_present target_cluster_namespace rr1 v1"
    then show "achieves V (copy_region TargetClusterCopy target_cluster_namespace \<union> release_region (meta_namespace c))
      (bind_st (copy_secrets L r target_cluster_namespace expected rr2 TargetClusterCopy) (\<lambda>(rr, copied).
       if stopped rr then return_st rr else
       chain (remove_secrets L r target_cluster_namespace expected rr TargetClusterCopy copied) (\<lambda>rr.
       chain (deploy_helm_release L r c expected rr) (\<lambda>rr.
       return_st (rr\<lparr>rr_message := m\<rparr>)))))
      (\<lambda>rr' v v'. same_inputs rr2 rr' \<and>
         secrets_synced L r expected TargetClusterCopy target_cluster_namespace
           (secret_entries pc svc TargetClusterCopy) rr2 v' \<and>
         release_current L r c expected rr2 v')"
      using laws loaded1 by (intro achieves_target_phases) (auto simp: same_inputs_def)
  next
    fix rr2 rr' v v1 v2
    let ?late = "copy_region TargetClusterCopy target_cluster_namespace \<union> release_region (meta_namespace c)"
    assume first: "same_inputs rr1 rr2 \<and> namespace_present target_cluster_namespace rr1 v1"
      and off: "same_off ?late v1 v2"
      and later: "same_inputs rr2 rr' \<and>
         secrets_synced L r expected TargetClusterCopy target_cluster_namespace
           (secret_entries pc svc TargetClusterCopy) rr2 v2 \<and>
         release_current L r c expected rr2 v2"
    from first obtain a where a: "rr_access rr1 = Some a"
      "v1 (OnTarget a, RNamespace, \<lparr>nn_namespace = [], nn_name = target_cluster_namespace\<rparr>) \<noteq> None"
      by (auto simp: namespace_present_def)
    have "v2 (OnTarget a, RNamespace, \<lparr>nn_namespace = [], nn_name = target_cluster_namespace\<rparr>) =
        v1 (OnTarget a, RNamespace, \<lparr>nn_namespace = [], nn_name = target_cluster_namespace\<rparr>)"
      by (rule same_offD [OF off]) simp
    with a first later have "namespace_present target_cluster_namespace rr' v2"
      by (auto simp: namespace_present_def same_inputs_def)
    moreover from later have "secrets_synced L r expected TargetClusterCopy target_cluster_namespace
         (secret_entries pc svc TargetClusterCopy) rr' v2" "release_current L r c expected rr' v2"
      by (simp_all add: secrets_synced_inputs [of rr2 rr'] release_current_inputs [of rr2 rr'])
    moreover have "same_inputs rr1 rr'" using first later by (simp add: same_inputs_def)
    ultimately show "same_inputs rr1 rr' \<and> namespace_present target_cluster_namespace rr' v2 \<and>
       secrets_synced L r expected TargetClusterCopy target_cluster_namespace
         (secret_entries pc svc TargetClusterCopy) rr' v2 \<and>
       release_current L r c expected rr' v2" by blast
  qed simp
next
  fix rr1 rr' v v1 v2
  let ?late = "namespace_region \<union>
      (copy_region TargetClusterCopy target_cluster_namespace \<union> release_region (meta_namespace c))"
  assume first: "\<exists>k. source_current L c expected pc k v1 \<and> same_inputs (rr\<lparr>rr_source_kind := Some k\<rparr>) rr1"
    and off: "same_off ?late v1 v2"
    and later: "same_inputs rr1 rr' \<and> namespace_present target_cluster_namespace rr' v2 \<and>
       secrets_synced L r expected TargetClusterCopy target_cluster_namespace
         (secret_entries pc svc TargetClusterCopy) rr' v2 \<and>
       release_current L r c expected rr' v2"
  from first obtain k where k: "source_current L c expected pc k v1"
    "same_inputs (rr\<lparr>rr_source_kind := Some k\<rparr>) rr1" by blast
  have "source_current L c expected pc k v2"
    by (rule source_current_cong [OF k(1)]) (rule same_offD [OF off], simp)
  moreover have "same_inputs (rr\<lparr>rr_source_kind := Some k\<rparr>) rr'"
    using k(2) later by (simp add: same_inputs_def)
  ultimately show "\<exists>k. same_inputs (rr\<lparr>rr_source_kind := Some k\<rparr>) rr' \<and> source_current L c expected pc k v2 \<and>
       namespace_present target_cluster_namespace rr' v2 \<and>
       secrets_synced L r expected TargetClusterCopy target_cluster_namespace
         (secret_entries pc svc TargetClusterCopy) rr' v2 \<and>
       release_current L r c expected rr' v2"
    using later by blast
qed simp

lemma achieves_deploy_phases:
  assumes laws: "deploy_laws V L r expected" and apart: "meta_namespace c \<noteq> provider_namespace r"
    and loaded: "rr_provider_config rr = Some pc" "rr_platform_service rr = Some svc"
  shows "achieves V (deploy_region c) (deploy_phases L r c expected rr)
    (\<lambda>rr' v v'. deployed L r c expected pc svc rr' v' \<and>
       rr_access rr' = rr_access rr \<and> rr_access_request rr' = rr_access_request rr)"
  unfolding deploy_phases_def deploy_region_def
proof (rule achieves_conseq [OF achieves_sync])
  show "server_law V L r" "merge_law L" "range_law L" "distinct (map fst expected)"
    "fst ` set expected \<subseteq> managed_labels L"
    using laws by (simp_all add: deploy_laws_def)
  show "achieves V (source_region (meta_namespace c) \<union> (namespace_region \<union>
      (copy_region TargetClusterCopy target_cluster_namespace \<union> release_region (meta_namespace c))))
    (chain (deploy_helm_chart_source L r c expected rr1) (\<lambda>rr.
     chain (ensure_target_cluster_namespace L target_cluster_namespace rr) (\<lambda>rr.
     bind_st (copy_secrets L r target_cluster_namespace expected rr TargetClusterCopy) (\<lambda>(rr, copied).
     if stopped rr then return_st rr else
     chain (remove_secrets L r target_cluster_namespace expected rr TargetClusterCopy copied) (\<lambda>rr.
     chain (deploy_helm_release L r c expected rr) (\<lambda>rr.
     return_st (rr\<lparr>rr_message := DeployTriggered\<rparr>)))))))
    (\<lambda>rr' v v'. \<exists>k. same_inputs (rr1\<lparr>rr_source_kind := Some k\<rparr>) rr' \<and> source_current L c expected pc k v' \<and>
       namespace_present target_cluster_namespace rr' v' \<and>
       secrets_synced L r expected TargetClusterCopy target_cluster_namespace
         (secret_entries pc svc TargetClusterCopy) rr' v' \<and>
       release_current L r c expected rr' v')" if "same_inputs rr rr1" for rr1
    using that loaded by (intro achieves_source_phases [OF laws]) (auto simp: same_inputs_def)
next
  fix rr' v v'
  let ?late = "source_region (meta_namespace c) \<union> (namespace_region \<union>
      (copy_region TargetClusterCopy target_cluster_namespace \<union> release_region (meta_namespace c)))"
  let ?synced = "secrets_synced L r expected PlatformClusterCopy (meta_namespace c)
       (secret_entries pc svc PlatformClusterCopy)"
  assume "\<exists>rr1 v1. same_inputs rr rr1 \<and> ?synced rr v1 \<and>
     (\<exists>k. same_inputs (rr1\<lparr>rr_source_kind := Some k\<rparr>) rr' \<and> source_current L c expected pc k v' \<and>
       namespace_present target_cluster_namespace rr' v' \<and>
       secrets_synced L r expected TargetClusterCopy target_cluster_namespace
         (secret_entries pc svc TargetClusterCopy) rr' v' \<and>
       release_current L r c expected rr' v') \<and> same_off ?late v1 v'"
  then obtain rr1 v1 k where inputs: "same_inputs rr rr1" and synced: "?synced rr v1" "same_off ?late v1 v'"
    and tail: "same_inputs (rr1\<lparr>rr_source_kind := Some k\<rparr>) rr'" "source_current L c expected pc k v'"
       "namespace_present target_cluster_namespace rr' v'"
       "secrets_synced L r expected TargetClusterCopy target_cluster_namespace
         (secret_entries pc svc TargetClusterCopy) rr' v'"
       "release_current L r c expected rr' v'" by blast
  have "?synced rr v'" by (rule secrets_synced_off [OF synced]) auto
  then have "?synced rr' v'" by (simp add: secrets_synced_def side_for_def)
  moreover have "rr_source_kind rr' = Some k" using tail(1) by (simp add: same_inputs_def)
  moreover have "rr_access rr' = rr_access rr \<and> rr_access_request rr' = rr_access_request rr"
    using tail(1) inputs by (simp add: same_inputs_def)
  ultimately show "deployed L r c expected pc svc rr' v' \<and>
      rr_access rr' = rr_access rr \<and> rr_access_request rr' = rr_access_request rr"
    using tail by (simp add: deployed_def)
qed (use apart loaded in auto)

text \<open>Obtaining access changes no object of the view, and an error recorded on the way is not lost.\<close>

definition accessed :: "'w reconciler \<Rightarrow> namespaced_name \<Rightarrow> reconcile_result \<Rightarrow> bool" where
  "accessed r req rr \<longleftrightarrow>
     (\<exists>w. fst (access_cluster (access_reconciler r) req w) = (rr_access rr, None)) \<and>
     (\<exists>w. fst (access_request_of (access_reconciler r) req w) = (rr_access_request rr, None))"

lemma deploy_with_access_achieves:
  assumes laws: "deploy_laws V L r expected" and apart: "meta_namespace c \<noteq> provider_namespace r"
    and loaded: "rr_provider_config rr = Some pc" "rr_platform_service rr = Some svc"
    and run: "deploy_with_access L r c expected rr w = (Returned rr', w')" and "\<not> stopped rr'"
  shows "deployed L r c expected pc svc rr' (V w')" and "same_off (deploy_region c) (V w) (V w')"
    and "accessed r (object_key c) rr'"
proof -
  let ?acc = "access_reconciler r" and ?req = "object_key c"
  have acc: "V (snd (access_reconcile ?acc k w)) = V w" "V (snd (access_request_of ?acc k w)) = V w"
    "V (snd (access_cluster ?acc k w)) = V w" for k w
    using laws by (auto simp: deploy_laws_def server_law_def access_honest_def)
  obtain res e1 w1 where 1: "access_reconcile ?acc ?req w = ((res, e1), w1)"
    by (metis prod.collapse)
  obtain ar e2 w2 where 2: "access_request_of ?acc ?req w1 = ((ar, e2), w2)"
    by (metis prod.collapse)
  obtain cl e3 w3 where 3: "access_cluster ?acc ?req w2 = ((cl, e3), w3)"
    by (metis prod.collapse)
  have view: "V w3 = V w" using acc [of ?req] 1 2 3 by (metis snd_conv)
  let ?rr = "(case e2 of None \<Rightarrow> rr | Some e \<Rightarrow> fail rr (AccessRequestFailed e) InternalError)
      \<lparr>rr_access_request := ar, rr_access := cl\<rparr>"
  have e1: "e1 = None" using run 1 \<open>\<not> stopped rr'\<close> by (cases e1) (auto simp: deploy_with_access_def Let_def)
  have going: "\<not> requeue_after res > 0"
    using run 1 \<open>\<not> stopped rr'\<close> e1 by (auto simp: deploy_with_access_def stopped_def split: if_splits)
  have e3: "e3 = None"
    using run 1 2 3 \<open>\<not> stopped rr'\<close> e1 going by (cases e3) (auto simp: deploy_with_access_def Let_def)
  have phases: "deploy_phases L r c expected ?rr w3 = (Returned rr', w')"
    using run 1 2 3 e1 e3 going by (simp add: deploy_with_access_def Let_def)
  have "rr_provider_config ?rr = Some pc" "rr_platform_service ?rr = Some svc"
    using loaded by (simp_all add: fail_def split: option.split)
  note post = effectD [OF achieves_deploy_phases [OF laws apart this, unfolded achieves_def] phases]
  from post \<open>\<not> stopped rr'\<close> show "deployed L r c expected pc svc rr' (V w')"
    and "same_off (deploy_region c) (V w) (V w')" by (simp_all add: view)
  have "rr_error ?rr = None"
  proof (rule ccontr)
    assume "rr_error ?rr \<noteq> None"
    from deploying.keeps_error [OF phases this] \<open>\<not> stopped rr'\<close> show False by blast
  qed
  then have "e2 = None" by (auto simp: fail_def split: option.splits)
  moreover have "rr_access rr' = cl \<and> rr_access_request rr' = ar"
    using post(2) [OF refl] \<open>\<not> stopped rr'\<close> by simp
  ultimately show "accessed r (object_key c) rr'"
    unfolding accessed_def using e3 2 3 by (intro conjI exI [of _ w2] exI [of _ w1]) simp_all
qed

end
