(* ===== verification/Outcomes.thy ===== *)
theory Outcomes
  imports Reconcile_Effects
begin

section \<open>The state a reconciliation leaves behind\<close>

text \<open>
  From the objects at the start to the objects at the end, for the whole of \<open>Reconcile\<close>: what a
  Cluster that a configuration matches looks like after a run without error and requeue, and what is
  left of one that is deleted or no longer matched.
\<close>

definition service_key :: "'w reconciler \<Rightarrow> namespaced_name" where
  "service_key r = \<lparr>nn_namespace = [], nn_name = provider_name r\<rparr>"

text \<open>What is known about a Cluster and the service at the start of a run.\<close>

definition asked_for ::
  "'w reconciler \<Rightarrow> objects \<Rightarrow> namespaced_name \<Rightarrow> cluster \<Rightarrow> service_config \<Rightarrow> platform_service \<Rightarrow> bool" where
  "asked_for r v req c config svc \<longleftrightarrow>
     v (OnPlatform, RCluster, req) = Some (ACluster c) \<and>
     v (OnPlatform, RConfig, service_key r) = Some (AConfig config) \<and>
     v (OnPlatform, RService, service_key r) = Some (AService svc)"

definition wanted_cluster :: "cluster \<Rightarrow> service_config \<Rightarrow> bool" where
  "wanted_cluster c config \<longleftrightarrow> \<not> meta_deleting c \<and>
     select_config (spec_purposes (service_spec config)) (cluster_purposes c) \<noteq> None"

definition cluster_deployed ::
  "'w lib \<Rightarrow> 'w reconciler \<Rightarrow> namespaced_name \<Rightarrow> service_config \<Rightarrow> platform_service \<Rightarrow> objects \<Rightarrow>
   registry \<Rightarrow> bool" where
  "cluster_deployed L r req config svc v known \<longleftrightarrow>
     req \<in> set known \<and>
     (\<exists>c rr. asked_for r v req c config svc \<and> object_key c = req \<and> cluster_finalizer L \<in> set (meta_finalizers c) \<and>
        rr_config rr = select_config (spec_purposes (service_spec config)) (cluster_purposes c) \<and>
        rr_provider_config rr = Some config \<and> accessed r req rr \<and>
        deployed L r c (expected_labels L r (nn_name req)) config svc rr v)"

definition outcome_laws :: "('w \<Rightarrow> objects) \<Rightarrow> 'w lib \<Rightarrow> 'w reconciler \<Rightarrow> bool" where
  "outcome_laws V L r \<longleftrightarrow>
     server_law V L r \<and> merge_law L \<and> owner_law L \<and> project_law L \<and> range_law L \<and> finalizer_law L \<and>
     lib_managed_by_label L \<noteq> lib_managed_purpose_label L"

lemma outcome_laws_deploy: "outcome_laws V L r \<Longrightarrow> deploy_laws V L r (expected_labels L r name)"
  by (auto simp: outcome_laws_def deploy_laws_def expected_labels_def managed_labels_def)

lemma server_law_clusters:
  "server_law V L r \<Longrightarrow> kind_honest (managed_labels L) V OnPlatform RCluster ACluster (clusters_api (platform r))"
  by (simp add: server_law_def client_honest_def)

lemma fetched:
  assumes "kind_honest K V sd res wrap api" and "api_get api k w = (ans, w')"
    and "V w (sd, res, k) = Some (wrap obj)" and "inj wrap"
  shows "V w' = V w \<and> (ans = Inr obj \<or> (\<exists>e. ans = Inl e \<and> e \<noteq> NotFound))"
proof (cases ans)
  case (Inl e)
  with honest_get(1,3) [OF assms(1,2)] assms(3) show ?thesis by auto
next
  case (Inr obj')
  with honest_get(1,2) [OF assms(1,2)] assms(3,4) show ?thesis by (auto dest: injD)
qed

lemma deploy_region_finalizers [simp]: "deploy_region (c\<lparr>meta_finalizers := fins\<rparr>) = deploy_region c"
  by (simp add: deploy_region_def)

lemma cluster_not_in_deploy_region [simp]:
  "(sd, RCluster, nn) \<notin> deploy_region c" "(sd, RConfig, nn) \<notin> deploy_region c"
  "(sd, RService, nn) \<notin> deploy_region c"
  by (auto simp: deploy_region_def)

subsection \<open>A Cluster that is wanted\<close>

lemma create_after_finalizer_achieves:
  assumes laws: "deploy_laws V L r expected" and apart: "meta_namespace c \<noteq> provider_namespace r"
    and loaded: "rr_provider_config rr = Some config" "rr_platform_service rr = Some svc"
    and run: "create_after_finalizer L r c expected rr s = (Returned rr', s')" and going: "\<not> stopped rr'"
  shows "deployed L r c expected config svc rr' (V (world s'))"
    and "same_off (deploy_region c) (V (world s)) (V (world s'))"
    and "accessed r (object_key c) rr'" and "object_key c \<in> set (known_clusters s')"
proof -
  obtain w' where "deploy_with_access L r c expected rr (world s) = (Returned rr', w')"
    and s': "world s' = w'" "known_clusters s' = add_known_cluster c (known_clusters s)"
    using run by (auto simp: create_after_finalizer_def on_world_def split: prod.splits)
  from deploy_with_access_achieves [OF laws apart loaded this(1) going] s'
  show "deployed L r c expected config svc rr' (V (world s'))"
    and "same_off (deploy_region c) (V (world s)) (V (world s'))"
    and "accessed r (object_key c) rr'" and "object_key c \<in> set (known_clusters s')" by (simp_all add: add_known_cluster_def)
qed

lemma handle_create_achieves:
  assumes laws: "deploy_laws V L r expected" "finalizer_law L"
    and apart: "meta_namespace c \<noteq> provider_namespace r"
    and loaded: "rr_provider_config rr = Some config" "rr_platform_service rr = Some svc"
    and stored: "asked_for r (V (world s)) (object_key c) c config svc"
    and run: "handle_create_or_update L r c expected rr s = (Returned rr', s')" and going: "\<not> stopped rr'"
  shows "\<exists>c'. cluster_purposes c' = cluster_purposes c \<and> object_key c' = object_key c \<and> cluster_finalizer L \<in> set (meta_finalizers c') \<and>
    asked_for r (V (world s')) (object_key c) c' config svc \<and>
    deployed L r c' expected config svc rr' (V (world s')) \<and> accessed r (object_key c) rr' \<and>
    object_key c \<in> set (known_clusters s')"
proof -
  obtain changed fins where fin: "lib_add_finalizer L (cluster_finalizer L) (meta_finalizers c) = (changed, fins)"
    by (cases "lib_add_finalizer L (cluster_finalizer L) (meta_finalizers c)")
  with laws(2) have added: "cluster_finalizer L \<in> set fins" "\<not> changed \<longrightarrow> fins = meta_finalizers c"
    by (auto simp: finalizer_law_def split: if_splits)
  let ?c = "c\<lparr>meta_finalizers := fins\<rparr>"
  have server: "server_law V L r" using laws(1) by (simp add: deploy_laws_def)
  have "\<exists>s1. create_after_finalizer L r ?c expected rr s1 = (Returned rr', s') \<and>
      asked_for r (V (world s1)) (object_key c) ?c config svc"
  proof (cases changed)
    case False
    then have "?c = c" using added(2) by simp
    with False run fin stored show ?thesis
      by (auto simp: handle_create_or_update_def)
  next
    case True
    obtain ans w1 where patch: "api_patch (clusters_api (platform r)) c ?c (world s) = (ans, w1)"
      by (cases "api_patch (clusters_api (platform r)) c ?c (world s)")
    from run fin True patch going obtain c2 where ans: "ans = Inr c2"
      and rest: "create_after_finalizer L r c2 expected rr (s\<lparr>world := w1\<rparr>) = (Returned rr', s')"
      by (auto simp: handle_create_or_update_def split: sum.splits)
    from honest_patch(2) [OF server_law_clusters [OF server] patch ans] stored
    have c2: "c2 = ?c" and "\<exists>left. V w1 = (V (world s))((OnPlatform, RCluster, object_key c) := left) \<and>
        (left = Some (ACluster ?c) \<or> left = None \<and> fins = [])"
      by (auto simp: asked_for_def)
    with added(1) stored have "asked_for r (V w1) (object_key c) ?c config svc"
      by (auto simp: asked_for_def)
    with rest c2 show ?thesis by (intro exI [of _ "s\<lparr>world := w1\<rparr>"]) simp
  qed
  then obtain s1 where rest: "create_after_finalizer L r ?c expected rr s1 = (Returned rr', s')"
    and before: "asked_for r (V (world s1)) (object_key c) ?c config svc" by blast
  have "meta_namespace ?c \<noteq> provider_namespace r" using apart by simp
  note post = create_after_finalizer_achieves [OF laws(1) this loaded rest going]
  have "asked_for r (V (world s')) (object_key c) ?c config svc"
    using before by (simp add: asked_for_def same_offD [OF post(2)])
  with post added(1) show ?thesis by (intro exI [of _ ?c]) (simp add: object_key_def)
qed

text \<open>The world after the reads at the start of a run, for a Cluster that is stored as \<open>c\<close>.\<close>

definition fetched_world :: "'w reconciler \<Rightarrow> 'w \<Rightarrow> 'w" where
  "fetched_world r w =
     snd (api_get (services_api (platform r)) (service_key r) (snd (api_get (configs_api (platform r)) (service_key r) w)))"

definition loaded_world :: "'w lib \<Rightarrow> 'w reconciler \<Rightarrow> cluster \<Rightarrow> 'w \<Rightarrow> 'w" where
  "loaded_world L r c w =
     (let w1 = snd (api_get (clusters_api (platform r)) (object_key c) w);
          w2 = (if requested_operation L c = Some (lib_operation_reconcile L)
                then snd (lib_remove_annotation L (lib_operation_annotation L) c w1) else w1) in
      fetched_world r w2)"

lemma reconcile_loaded_fetches:
  assumes server: "server_law V L r" and stored: "asked_for r (V (world s)) req c config svc"
    and run: "reconcile_loaded L r c s = (Returned rr', s')" and going: "\<not> stopped rr'"
  shows "\<exists>s1. asked_for r (V (world s1)) req c config svc \<and> known_clusters s1 = known_clusters s \<and>
    V (world s1) = V (world s) \<and> world s1 = fetched_world r (world s) \<and>
    reconcile_configured L r c (expected_labels L r (meta_name c))
      (empty_result\<lparr>rr_provider_config := Some config, rr_platform_service := Some svc\<rparr>) config s1 =
        (Returned rr', s')"
proof -
  have kinds: "kind_honest (managed_labels L) V OnPlatform RConfig AConfig (configs_api (platform r))"
    "kind_honest (managed_labels L) V OnPlatform RService AService (services_api (platform r))"
    using server by (simp_all add: server_law_def client_honest_def)
  obtain a1 w1 where 1: "api_get (configs_api (platform r)) (service_key r) (world s) = (a1, w1)"
    by (cases "api_get (configs_api (platform r)) (service_key r) (world s)")
  obtain a2 w2 where 2: "api_get (services_api (platform r)) (service_key r) w1 = (a2, w2)"
    by (cases "api_get (services_api (platform r)) (service_key r) w1")
  from stored have objs: "V (world s) (OnPlatform, RConfig, service_key r) = Some (AConfig config)"
    "V (world s) (OnPlatform, RService, service_key r) = Some (AService svc)"
    by (simp_all add: asked_for_def)
  have a1: "V w1 = V (world s) \<and> (a1 = Inr config \<or> (\<exists>e. a1 = Inl e \<and> e \<noteq> NotFound))"
    using fetched [OF kinds(1) 1 objs(1)] by (simp add: inj_def)
  have a2: "V w2 = V w1 \<and> (a2 = Inr svc \<or> (\<exists>e. a2 = Inl e \<and> e \<noteq> NotFound))"
    using fetched [OF kinds(2) 2, of svc] a1 objs(2) by (simp add: inj_def)
  have "a1 = Inr config" using run 1 a1 going
    by (auto simp: reconcile_loaded_def Let_def service_key_def)
  moreover have "a2 = Inr svc" using run 1 2 a2 going calculation
    by (auto simp: reconcile_loaded_def Let_def service_key_def)
  ultimately show ?thesis using run 1 2 a1 a2 stored
    by (intro exI [of _ "s\<lparr>world := w2\<rparr>"]) (simp add: reconcile_loaded_def Let_def service_key_def fetched_world_def)
qed

lemma reconcile_cluster_loads:
  assumes server: "server_law V L r" and stored: "asked_for r (V (world s)) (object_key c) c config svc"
    and op: "requested_operation L c \<noteq> Some (lib_operation_ignore L)"
    and run: "reconcile_cluster L r c s = (Returned rr', s')" and going: "\<not> stopped rr'"
  shows "\<exists>anns s1. asked_for r (V (world s1)) (object_key c) (c\<lparr>meta_annotations := anns\<rparr>) config svc \<and>
    reconcile_loaded L r (c\<lparr>meta_annotations := anns\<rparr>) s1 = (Returned rr', s') \<and>
    world s1 = (if requested_operation L c = Some (lib_operation_reconcile L)
      then snd (lib_remove_annotation L (lib_operation_annotation L) c (world s)) else world s)"
proof (cases "requested_operation L c = Some (lib_operation_reconcile L)")
  case False
  with run op stored show ?thesis
    by (intro exI [of _ "meta_annotations c"] exI [of _ s]) (simp add: reconcile_cluster_def)
next
  case True
  obtain ans w1 where call: "lib_remove_annotation L (lib_operation_annotation L) c (world s) = (ans, w1)"
    by (cases "lib_remove_annotation L (lib_operation_annotation L) c (world s)")
  from run op True call going obtain c' where ans: "ans = Inr c'"
    and rest: "reconcile_loaded L r c' (s\<lparr>world := w1\<rparr>) = (Returned rr', s')"
    by (auto simp: reconcile_cluster_def split: sum.splits)
  have "case ans of
      Inl e \<Rightarrow> V w1 = V (world s)
    | Inr c' \<Rightarrow> \<exists>anns. c' = c\<lparr>meta_annotations := anns\<rparr> \<and>
        V w1 = (V (world s))((OnPlatform, RCluster, object_key c) \<mapsto> ACluster c')"
    using server call unfolding server_law_def annotation_honest_def by blast
  with ans obtain anns where c': "c' = c\<lparr>meta_annotations := anns\<rparr>"
    and view: "V w1 = (V (world s))((OnPlatform, RCluster, object_key c) \<mapsto> ACluster c')" by auto
  from stored have "asked_for r (V w1) (object_key c) c' config svc"
    by (simp add: asked_for_def view)
  with rest c' True call show ?thesis by (intro exI [of _ anns] exI [of _ "s\<lparr>world := w1\<rparr>"]) simp
qed

text \<open>From \<open>Reconcile\<close> to the run with its configuration.\<close>

lemma Reconcile_configures:
  assumes server: "server_law V L r" and stored: "asked_for r (V (world s)) req c config svc"
    and op: "requested_operation L c \<noteq> Some (lib_operation_ignore L)"
    and run: "Reconcile L r req s = (Returned (res, None), s')" and "requeue_after res \<le> 0"
  shows "object_key c = req \<and> (\<exists>anns s1 s2 rr. \<not> stopped rr \<and>
    asked_for r (V (world s1)) req (c\<lparr>meta_annotations := anns\<rparr>) config svc \<and>
    reconcile_configured L r (c\<lparr>meta_annotations := anns\<rparr>) (expected_labels L r (meta_name c))
      (empty_result\<lparr>rr_provider_config := Some config, rr_platform_service := Some svc\<rparr>) config s1 =
        (Returned rr, s2) \<and>
    V (world s') = V (world s2) \<and> known_clusters s' = known_clusters s2 \<and>
    world s1 = loaded_world L r c (world s))"
proof -
  note honest = server_law_clusters [OF server]
  obtain ans w1 where get: "api_get (clusters_api (platform r)) req (world s) = (ans, w1)"
    by (cases "api_get (clusters_api (platform r)) req (world s)")
  have cluster: "V (world s) (OnPlatform, RCluster, req) = Some (ACluster c)"
    using stored by (simp add: asked_for_def)
  have "V w1 = V (world s) \<and> (ans = Inr c \<or> (\<exists>e. ans = Inl e \<and> e \<noteq> NotFound))"
    using fetched [OF honest get cluster] by (simp add: inj_def)
  with run get have ans: "ans = Inr c" and w1: "V w1 = V (world s)"
    by (auto simp: Reconcile_def)
  have key: "object_key c = req" using honest_get(2) [OF honest get ans] by simp
  from run get ans have "bind_st (reconcile_cluster L r c)
      (\<lambda>rr s'. (Returned (rr_result rr, map_option error_failure (rr_error rr)),
                s'\<lparr>world := send_event r (result_event c rr) (world s')\<rparr>)) (s\<lparr>world := w1\<rparr>) =
      (Returned (res, None), s')"
    by (simp add: Reconcile_def)
  then obtain rr s2 where loop: "reconcile_cluster L r c (s\<lparr>world := w1\<rparr>) = (Returned rr, s2)"
    and rr: "rr_error rr = None" "rr_result rr = res"
    and s': "s' = s2\<lparr>world := send_event r (result_event c rr) (world s2)\<rparr>"
    by (auto elim!: bind_st_ReturnedE)
  have going: "\<not> stopped rr" using rr assms(5) by (simp add: stopped_def)
  have "V (world s') = V (world s2)"
    using server by (auto simp: s' send_event_def server_law_def event_honest_def split: option.split)
  moreover have "asked_for r (V (world (s\<lparr>world := w1\<rparr>))) (object_key c) c config svc"
    using stored by (simp add: w1 key)
  from reconcile_cluster_loads [OF server this op loop going] obtain anns s1 where
    1: "asked_for r (V (world s1)) (object_key c) (c\<lparr>meta_annotations := anns\<rparr>) config svc"
      "reconcile_loaded L r (c\<lparr>meta_annotations := anns\<rparr>) s1 = (Returned rr, s2)"
    and s1: "world s1 = (if requested_operation L c = Some (lib_operation_reconcile L)
      then snd (lib_remove_annotation L (lib_operation_annotation L) c (world (s\<lparr>world := w1\<rparr>)))
      else world (s\<lparr>world := w1\<rparr>))" by blast
  from reconcile_loaded_fetches [OF server 1 going] obtain s3 where
    "asked_for r (V (world s3)) (object_key c) (c\<lparr>meta_annotations := anns\<rparr>) config svc"
      "reconcile_configured L r (c\<lparr>meta_annotations := anns\<rparr>) (expected_labels L r (meta_name c))
      (empty_result\<lparr>rr_provider_config := Some config, rr_platform_service := Some svc\<rparr>) config s3 =
        (Returned rr, s2)"
    and s3: "world s3 = fetched_world r (world s1)" by auto
  moreover have "world s3 = loaded_world L r c (world s)"
    using get by (simp add: s3 s1 loaded_world_def key Let_def cong: if_cong)
  moreover have "known_clusters s' = known_clusters s2" by (simp add: s')
  ultimately show ?thesis using going key by blast
qed

lemma cluster_purposes_update [simp]:
  "cluster_purposes (c\<lparr>meta_annotations := anns\<rparr>) = cluster_purposes c"
  "cluster_purposes (c\<lparr>meta_finalizers := fins\<rparr>) = cluster_purposes c"
  by simp_all

lemma run_deploys:
  assumes laws: "outcome_laws V L r" and stored: "asked_for r (V (world s)) req c config svc"
    and wanted: "wanted_cluster c config"
    and op: "requested_operation L c \<noteq> Some (lib_operation_ignore L)"
    and apart: "nn_namespace req \<noteq> provider_namespace r"
    and run: "Reconcile L r req s = (Returned (res, None), s')" and "requeue_after res \<le> 0"
  shows "cluster_deployed L r req config svc (V (world s')) (known_clusters s')"
proof -
  have server: "server_law V L r" using laws by (simp add: outcome_laws_def)
  let ?expected = "expected_labels L r (meta_name c)"
  let ?rr = "empty_result\<lparr>rr_provider_config := Some config, rr_platform_service := Some svc,
      rr_config := select_config (spec_purposes (service_spec config)) (cluster_purposes c)\<rparr>"
  from Reconcile_configures [OF server stored op run assms(7)] obtain anns s1 s2 rr where
    key: "object_key c = req" and going: "\<not> stopped rr"
    and before: "asked_for r (V (world s1)) req (c\<lparr>meta_annotations := anns\<rparr>) config svc"
    and configured: "reconcile_configured L r (c\<lparr>meta_annotations := anns\<rparr>) ?expected
      (empty_result\<lparr>rr_provider_config := Some config, rr_platform_service := Some svc\<rparr>) config s1 =
        (Returned rr, s2)"
    and after: "V (world s') = V (world s2)" "known_clusters s' = known_clusters s2" by blast
  let ?c = "c\<lparr>meta_annotations := anns\<rparr>"
  have keys: "object_key ?c = req" "meta_namespace ?c \<noteq> provider_namespace r" "meta_name c = nn_name req"
    using key apart by auto
  from configured wanted have create: "handle_create_or_update L r ?c ?expected ?rr s1 = (Returned rr, s2)"
    by (simp add: reconcile_configured_def Let_def wanted_cluster_def empty_result_def)
  have loaded: "rr_provider_config ?rr = Some config" "rr_platform_service ?rr = Some svc" by simp_all
  have fin: "finalizer_law L" using laws by (simp add: outcome_laws_def)
  from before keys(1) have "asked_for r (V (world s1)) (object_key ?c) ?c config svc" by simp
  from handle_create_achieves [OF outcome_laws_deploy [OF laws] fin keys(2) loaded this create going]
  obtain c' where c': "cluster_purposes c' = cluster_purposes c" "object_key c' = req"
    "cluster_finalizer L \<in> set (meta_finalizers c')"
    "asked_for r (V (world s2)) req c' config svc"
    "deployed L r c' ?expected config svc rr (V (world s2))" "accessed r req rr" "req \<in> set (known_clusters s2)"
    using keys(1) by auto
  have "rr_config rr = rr_config ?rr \<and> rr_provider_config rr = rr_provider_config ?rr"
    using creating_or_updating.contract [OF create] by (simp add: carries_on_def)
  with c' after show ?thesis
    unfolding cluster_deployed_def keys(3) [symmetric]
    by (intro conjI exI [of _ c'] exI [of _ rr]) simp_all
qed

text \<open>
  C1. With an honest server, a run that ends without error and without a request to come back leaves a
  wanted Cluster deployed, if it has no effective ignore annotation (an ignored one is left as it is) and
  does not live in the provider's namespace (where copies and their sources may coincide): it carries the
  finalizer and is known; the configured secrets are copied to the platform cluster and to the Cluster and
  no other labelled secrets stay there; the configured source is stored and no other labelled source stays;
  the namespace exists; and the HelmRelease is one that filling it again with these inputs leaves as it is.
\<close>

theorem successful_run_deploys:
  assumes laws: "outcome_laws V L r" and stored: "asked_for r (V (world s)) req c config svc"
    and wanted: "wanted_cluster c config"
    and op: "requested_operation L c \<noteq> Some (lib_operation_ignore L)"
    and apart: "nn_namespace req \<noteq> provider_namespace r"
    and run: "Reconcile L r req s = (Returned (res, None), s')" and "requeue_after res \<le> 0"
  shows "cluster_deployed L r req config svc (V (world s')) (known_clusters s')"
  using assms by (rule run_deploys)

subsection \<open>A Cluster that is not wanted\<close>

text \<open>
  What is left on the platform cluster: no HelmRelease, and no labelled source and secret that is not
  going.
\<close>

definition nothing_left ::
  "'w lib \<Rightarrow> cluster \<Rightarrow> (string \<times> string) list \<Rightarrow> objects \<Rightarrow> bool" where
  "nothing_left L c expected v \<longleftrightarrow>
     (\<exists>name. cluster_based_resource_name L (meta_name c) = Returned name \<and>
        v (OnPlatform, RRelease, \<lparr>nn_namespace = meta_namespace c, nn_name = name\<rparr>) = None) \<and>
     (\<forall>k. tidy expected OnPlatform (RSource k) (meta_namespace c) (\<lambda>nn. False) v) \<and>
     tidy expected OnPlatform RSecret (meta_namespace c) (\<lambda>nn. False) v"

text \<open>
  What is left on the Cluster itself. Its secrets can be removed only while access is granted: the
  AccessRequest, asked for in the world \<open>w\<close>, was read or is gone, and if it is granted and not being
  deleted, access is obtained next and no labelled secret that is not going is left in the namespace of
  external-dns.
\<close>

definition target_cleared :: "'w reconciler \<Rightarrow> cluster \<Rightarrow> (string \<times> string) list \<Rightarrow> 'w \<Rightarrow> objects \<Rightarrow> bool" where
  "target_cleared r c expected w v \<longleftrightarrow>
     (case access_request_of (access_reconciler r) (object_key c) w of
        ((ar, err), w1) \<Rightarrow>
          err \<in> {None, Some NotFound} \<and>
          (\<forall>a. ar = Some a \<and> \<not> meta_deleting a \<and> request_granted a \<longrightarrow>
             (\<exists>t. fst (access_cluster (access_reconciler r) (object_key c) w1) = (Some t, None) \<and>
                tidy expected (OnTarget t) RSecret target_cluster_namespace (\<lambda>nn. False) v)))"

lemma target_cleared_cong:
  assumes "target_cleared r c expected w v" and "object_key c' = object_key c"
    and "\<And>t nn. v' (OnTarget t, RSecret, nn) = v (OnTarget t, RSecret, nn)"
  shows "target_cleared r c' expected w v'"
  using assms(1) unfolding target_cleared_def tidy_def assms(2,3) .

text \<open>
  The world in which a clean-up that gets there asks for the AccessRequest: after the reads at the start,
  the read of the HelmRelease that is gone, and the reconciliation of the access.
\<close>

definition released_world :: "'w lib \<Rightarrow> 'w reconciler \<Rightarrow> cluster \<Rightarrow> 'w \<Rightarrow> 'w" where
  "released_world L r c w =
     (case cluster_based_resource_name L (meta_name c) of
        Returned name \<Rightarrow>
          snd (access_reconcile (access_reconciler r) (object_key c)
            (snd (api_get (releases_api (platform r)) \<lparr>nn_namespace = meta_namespace c, nn_name = name\<rparr> w)))
      | Panicked p \<Rightarrow> w)"

definition cleanup_world :: "'w lib \<Rightarrow> 'w reconciler \<Rightarrow> cluster \<Rightarrow> 'w \<Rightarrow> 'w" where
  "cleanup_world L r c w = released_world L r c (loaded_world L r c w)"

lemma released_world_update [simp]: "released_world L r (c\<lparr>meta_annotations := anns\<rparr>) w = released_world L r c w"
  by (simp add: released_world_def object_key_def split: outcome.split)

definition cluster_removed ::
  "'w lib \<Rightarrow> 'w reconciler \<Rightarrow> cluster \<Rightarrow> objects \<Rightarrow> registry \<Rightarrow> bool" where
  "cluster_removed L r c v known \<longleftrightarrow>
     object_key c \<notin> set known \<and>
     (\<forall>c'. v (OnPlatform, RCluster, object_key c) = Some (ACluster c') \<longrightarrow>
        cluster_finalizer L \<notin> set (meta_finalizers c')) \<and>
     nothing_left L c (expected_labels L r (meta_name c)) v"

lemma achieves_remove_target_secrets:
  assumes server: "server_law V L r" and labels: "fst ` set expected \<subseteq> managed_labels L"
  shows "achieves V (copy_region TargetClusterCopy target_cluster_namespace)
    (remove_target_secrets L r c expected ar rr) (\<lambda>rr' v v'. True)"
  unfolding achieves_def
proof (rule effectI)
  fix w x w'
  assume run: "remove_target_secrets L r c expected ar rr w = (x, w')"
  obtain cl e w1 where access: "access_cluster (access_reconciler r) (object_key c) w = ((cl, e), w1)"
    by (metis prod.collapse)
  have same: "V w1 = V w"
    using server access unfolding server_law_def access_honest_def by (metis snd_conv)
  note removed = effectD(1) [OF achieves_remove_secrets [OF server labels, unfolded achieves_def]]
  have "same_off (copy_region TargetClusterCopy target_cluster_namespace) (V w1) (V w')"
    if "remove_secrets L r target_cluster_namespace expected (rr\<lparr>rr_access := cl\<rparr>) TargetClusterCopy {} w1 = (x, w')"
    using that by (rule removed)
  with run access same show "same_off (copy_region TargetClusterCopy target_cluster_namespace) (V w) (V w') \<and>
      (\<forall>rr'. x = Returned rr' \<longrightarrow> \<not> stopped rr' \<longrightarrow> True)"
    by (cases e) (auto simp: remove_target_secrets_def split: option.splits if_splits)
qed

lemma chain_going:
  assumes "chain m f s = (Returned rr', s')" and "\<not> stopped rr'"
  obtains rr s1 where "m s = (Returned rr, s1)" "\<not> stopped rr" "f rr s1 = (Returned rr', s')"
  using assms unfolding chain_def
  by (elim bind_st_ReturnedE) (auto simp: return_st_def split: if_splits)

lemma remove_target_secrets_clears:
  assumes server: "server_law V L r" and labels: "fst ` set expected \<subseteq> managed_labels L"
    and run: "remove_target_secrets L r c expected (Some a) rr w = (Returned rr', w')" and going: "\<not> stopped rr'"
    and granted: "\<not> meta_deleting a" "request_granted a"
  shows "\<exists>t. fst (access_cluster (access_reconciler r) (object_key c) w) = (Some t, None) \<and>
    tidy expected (OnTarget t) RSecret target_cluster_namespace (\<lambda>nn. False) (V w')"
proof -
  obtain cl e w1 where access: "access_cluster (access_reconciler r) (object_key c) w = ((cl, e), w1)"
    by (metis prod.collapse)
  with run granted going have e: "e = None" by (cases e) (auto simp: remove_target_secrets_def)
  with run granted access have
    "remove_secrets L r target_cluster_namespace expected (rr\<lparr>rr_access := cl\<rparr>) TargetClusterCopy {} w1 = (Returned rr', w')"
    by (simp add: remove_target_secrets_def)
  from effectD(2) [OF achieves_remove_secrets [OF server labels, unfolded achieves_def] this refl] going access e
  show ?thesis by (auto simp: removed_others_def side_for_def)
qed

lemma achieves_delete_access:
  assumes server: "server_law V L r"
  shows "achieves V {} (delete_access r c rr) (\<lambda>rr' v v'. True)"
  unfolding achieves_def
proof (rule effectI)
  fix w x w'
  assume run: "delete_access r c rr w = (x, w')"
  obtain res e w1 where access: "access_reconcile_delete (access_reconciler r) (object_key c) w = ((res, e), w1)"
    by (metis prod.collapse)
  have "V w1 = V w"
    using server access unfolding server_law_def access_honest_def by (metis snd_conv)
  with run access show "same_off {} (V w) (V w') \<and> (\<forall>rr'. x = Returned rr' \<longrightarrow> \<not> stopped rr' \<longrightarrow> True)"
    by (auto simp: delete_access_def split: option.splits if_splits)
qed

definition cleanup_region :: "cluster \<Rightarrow> place set" where
  "cleanup_region c =
     copy_region TargetClusterCopy target_cluster_namespace \<union> (source_region (meta_namespace c) \<union>
     copy_region PlatformClusterCopy (meta_namespace c))"

lemma achieves_cleanup_platform:
  assumes server: "server_law V L r" and "project_law L" and labels: "fst ` set expected \<subseteq> managed_labels L"
  shows "achieves V (source_region (meta_namespace c) \<union> copy_region PlatformClusterCopy (meta_namespace c))
     (chain (undeploy_helm_chart_source L r c expected rr1) (\<lambda>rr.
      chain (remove_secrets L r (meta_namespace c) expected rr PlatformClusterCopy {}) (\<lambda>rr. delete_access r c rr)))
    (\<lambda>rr' v v'. (\<forall>k. tidy expected OnPlatform (RSource k) (meta_namespace c) (\<lambda>nn. False) v') \<and>
       tidy expected OnPlatform RSecret (meta_namespace c) (\<lambda>nn. False) v')"
proof (rule achieves_chain [OF achieves_undeploy_source [OF assms]])
  let ?ns = "meta_namespace c"
  show "achieves V (copy_region PlatformClusterCopy ?ns)
     (chain (remove_secrets L r ?ns expected rr2 PlatformClusterCopy {}) (\<lambda>rr. delete_access r c rr))
     (\<lambda>rr' v v'. tidy expected OnPlatform RSecret ?ns (\<lambda>nn. False) v')" for rr2
  proof (rule achieves_chain [OF achieves_remove_secrets [OF server labels] achieves_delete_access [OF server]])
    show "tidy expected OnPlatform RSecret ?ns (\<lambda>nn. False) v2"
      if "removed_others expected PlatformClusterCopy ?ns {} rr2 rr3 v v1" "same_off {} v1 v2"
      for rr3 v v1 v2
    proof -
      have "v2 = v1" using that(2) by (simp add: same_off_def fun_eq_iff)
      with that(1) show ?thesis by (auto simp: removed_others_def side_for_def)
    qed
  qed simp
next
  let ?ns = "meta_namespace c"
  fix rr2 rr' v v1 v2
  assume tidy: "same_inputs rr1 rr2 \<and> (\<forall>k. tidy expected OnPlatform (RSource k) ?ns (\<lambda>nn. False) v1)"
    and off: "same_off (copy_region PlatformClusterCopy ?ns) v1 v2"
    and later: "tidy expected OnPlatform RSecret ?ns (\<lambda>nn. False) v2"
  have "tidy expected OnPlatform (RSource k) ?ns (\<lambda>nn. False) v2" for k
    by (rule tidy_cong [where v = v1]) (use tidy in \<open>auto intro: same_offD [OF off]\<close>)
  with later show "(\<forall>k. tidy expected OnPlatform (RSource k) ?ns (\<lambda>nn. False) v2) \<and>
     tidy expected OnPlatform RSecret ?ns (\<lambda>nn. False) v2" by blast
qed simp

lemma achieves_cleanup_phases:
  assumes server: "server_law V L r" and "project_law L" and labels: "fst ` set expected \<subseteq> managed_labels L"
  shows "achieves V (cleanup_region c) (cleanup_phases L r c expected ar rr)
    (\<lambda>rr' v v'. (\<forall>k. tidy expected OnPlatform (RSource k) (meta_namespace c) (\<lambda>nn. False) v') \<and>
       tidy expected OnPlatform RSecret (meta_namespace c) (\<lambda>nn. False) v')"
  unfolding cleanup_phases_def cleanup_region_def
  by (rule achieves_chain [OF achieves_remove_target_secrets [OF server labels] achieves_cleanup_platform [OF assms]])
     auto

text \<open>The secrets on the Cluster are gone when the rest of the cleanup begins, and stay so.\<close>

lemma cleanup_phases_clear_target:
  assumes server: "server_law V L r" and "project_law L" and labels: "fst ` set expected \<subseteq> managed_labels L"
    and run: "cleanup_phases L r c expected (Some a) rr w = (Returned rr', w')" and going: "\<not> stopped rr'"
    and granted: "\<not> meta_deleting a" "request_granted a"
  shows "\<exists>t. fst (access_cluster (access_reconciler r) (object_key c) w) = (Some t, None) \<and>
    tidy expected (OnTarget t) RSecret target_cluster_namespace (\<lambda>nn. False) (V w')"
  using run unfolding cleanup_phases_def
proof (rule chain_going [OF _ going])
  fix rr1 w1
  assume first: "remove_target_secrets L r c expected (Some a) rr w = (Returned rr1, w1)" "\<not> stopped rr1"
    and rest: "chain (undeploy_helm_chart_source L r c expected rr1) (\<lambda>rr.
      chain (remove_secrets L r (meta_namespace c) expected rr PlatformClusterCopy {}) (\<lambda>rr. delete_access r c rr)) w1 =
        (Returned rr', w')"
  from remove_target_secrets_clears [OF server labels first granted] obtain t where
    t: "fst (access_cluster (access_reconciler r) (object_key c) w) = (Some t, None)"
    "tidy expected (OnTarget t) RSecret target_cluster_namespace (\<lambda>nn. False) (V w1)" by blast
  from effectD(1) [OF achieves_cleanup_platform [OF assms(1-3), unfolded achieves_def] rest]
  have "V w' (OnTarget t, RSecret, nn) = V w1 (OnTarget t, RSecret, nn)" for nn
    by (rule same_offD) (simp add: source_region_def)
  with t(2) have "tidy expected (OnTarget t) RSecret target_cluster_namespace (\<lambda>nn. False) (V w')"
    by (auto intro: tidy_cong)
  with t(1) show ?thesis by blast
qed

lemma cleanup_with_access_achieves:
  assumes server: "server_law V L r" and "project_law L" and labels: "fst ` set expected \<subseteq> managed_labels L"
    and run: "cleanup_with_access L r c expected rr w = (Returned rr', w')" and going: "\<not> stopped rr'"
  shows "same_off (cleanup_region c) (V w) (V w')"
    and "(\<forall>k. tidy expected OnPlatform (RSource k) (meta_namespace c) (\<lambda>nn. False) (V w')) \<and>
       tidy expected OnPlatform RSecret (meta_namespace c) (\<lambda>nn. False) (V w')"
    and "target_cleared r c expected (snd (access_reconcile (access_reconciler r) (object_key c) w)) (V w')"
proof -
  let ?acc = "access_reconciler r" and ?req = "object_key c"
  have acc: "V (snd (access_reconcile ?acc k w)) = V w" "V (snd (access_request_of ?acc k w)) = V w" for k w
    using server by (auto simp: server_law_def access_honest_def)
  obtain res e1 w1 where 1: "access_reconcile ?acc ?req w = ((res, e1), w1)"
    by (metis prod.collapse)
  obtain ar e2 w2 where 2: "access_request_of ?acc ?req w1 = ((ar, e2), w2)"
    by (metis prod.collapse)
  have view: "V w2 = V w" using acc [of ?req] 1 2 by (metis snd_conv)
  have e1: "e1 = None" using run 1 going by (cases e1) (auto simp: cleanup_with_access_def Let_def)
  have res: "\<not> requeue_after res > 0"
    using run 1 going e1 by (auto simp: cleanup_with_access_def stopped_def split: if_splits)
  have cleanup: "cleanup_phases L r c expected ar rr w2 = (Returned rr', w')" and e2: "ignore_not_found e2 = None"
    using run 1 2 e1 res going
    by (auto simp: cleanup_with_access_def Let_def split: option.splits)
  have "e2 \<in> {None, Some NotFound}" using e2 by (auto simp: ignore_not_found_def split: if_splits option.splits)
  with 1 2 cleanup cleanup_phases_clear_target [OF assms(1-3) _ going]
  show "target_cleared r c expected (snd (access_reconcile ?acc ?req w)) (V w')"
    by (auto simp: target_cleared_def)
  note post = effectD [OF achieves_cleanup_phases [OF assms(1-3), unfolded achieves_def] cleanup, unfolded view]
  from post(1) show "same_off (cleanup_region c) (V w) (V w')" .
  from post(2) [OF refl] going
  show "(\<forall>k. tidy expected OnPlatform (RSource k) (meta_namespace c) (\<lambda>nn. False) (V w')) \<and>
       tidy expected OnPlatform RSecret (meta_namespace c) (\<lambda>nn. False) (V w')" by simp
qed

lemma on_world_Returned:
  "on_world m s = (Returned a, s') \<longleftrightarrow>
     known_clusters s' = known_clusters s \<and> m (world s) = (Returned a, world s') \<and>
     s' = s\<lparr>world := world s'\<rparr>"
  by (cases "m (world s)") (auto simp: on_world_def)

lemma release_cluster_achieves:
  assumes server: "server_law V L r" and "finalizer_law L"
    and "cluster_finalizer L \<in> set (meta_finalizers c)"
    and run: "release_cluster L r c rr s = (Returned rr', s')" and going: "\<not> stopped rr'"
  shows "object_key c \<notin> set (known_clusters s')"
    and "same_off {(OnPlatform, RCluster, object_key c)} (V (world s)) (V (world s'))"
    and "V (world s') (OnPlatform, RCluster, object_key c) = Some (ACluster c') \<Longrightarrow>
      cluster_finalizer L \<notin> set (meta_finalizers c')"
proof -
  let ?fins = "filter (\<lambda>g. g \<noteq> cluster_finalizer L) (meta_finalizers c)"
  let ?c = "c\<lparr>meta_finalizers := ?fins\<rparr>"
  have fin: "lib_remove_finalizer L (cluster_finalizer L) (meta_finalizers c) = (True, ?fins)"
    using assms(2,3) by (simp add: finalizer_law_def)
  obtain ans w1 where patch: "api_patch (clusters_api (platform r)) c ?c (world s) = (ans, w1)"
    by (cases "api_patch (clusters_api (platform r)) c ?c (world s)")
  from run fin patch going obtain c2 where ans: "ans = Inr c2"
    and s': "world s' = w1" "known_clusters s' = remove_known_cluster c2 (known_clusters s)"
    by (auto simp: release_cluster_def Let_def split: sum.splits)
  from honest_patch(2) [OF server_law_clusters [OF server] patch ans] obtain left where
    c2: "object_key c2 = object_key c" "meta_finalizers c2 = ?fins"
    and left: "V w1 = (V (world s))((OnPlatform, RCluster, object_key c) := left)"
      "left = Some (ACluster c2) \<or> left = None"
    by auto
  show "object_key c \<notin> set (known_clusters s')"
    using c2(1) by (simp add: s' remove_known_cluster_def remove_known_cluster_raw_def object_key_def)
  show "same_off {(OnPlatform, RCluster, object_key c)} (V (world s)) (V (world s'))"
    by (simp add: s' left(1))
  show "cluster_finalizer L \<notin> set (meta_finalizers c')"
    if "V (world s') (OnPlatform, RCluster, object_key c) = Some (ACluster c')"
    using that left c2(2) by (auto simp: s')
qed

lemma undeploy_returns_gone:
  assumes "undeploy_helm_release L r c expected rr w = (Returned rr', w')" and "\<not> stopped rr'"
  shows "\<exists>name. cluster_based_resource_name L (meta_name c) = Returned name \<and>
    api_get (releases_api (platform r)) \<lparr>nn_namespace = meta_namespace c, nn_name = name\<rparr> w = (Inl NotFound, w')"
proof -
  have "stopped (await_release_deletion rr)" for rr
    by (simp add: await_release_deletion_def stopped_def default_requeue_after_def)
  with assms show ?thesis
    by (auto simp: undeploy_helm_release_def of_outcome_def Let_def
        elim!: bind_st_ReturnedE split: sum.splits option.splits prod.splits if_splits)
qed

lemma handle_delete_achieves:
  assumes server: "server_law V L r" and laws: "project_law L" "finalizer_law L" and labels: "fst ` set expected \<subseteq> managed_labels L"
    and fin: "cluster_finalizer L \<in> set (meta_finalizers c)"
    and run: "handle_delete L r c expected rr s = (Returned rr', s')" and going: "\<not> stopped rr'"
  shows "object_key c \<notin> set (known_clusters s') \<and>
    (\<forall>c'. V (world s') (OnPlatform, RCluster, object_key c) = Some (ACluster c') \<longrightarrow>
       cluster_finalizer L \<notin> set (meta_finalizers c')) \<and>
    nothing_left L c expected (V (world s')) \<and>
    target_cleared r c expected (released_world L r c (world s)) (V (world s'))"
proof -
  from run fin have "chain (on_world (undeploy_helm_release L r c expected rr)) (\<lambda>rr.
        chain (on_world (cleanup_with_access L r c expected rr)) (\<lambda>rr.
        release_cluster L r c rr)) s = (Returned rr', s')"
    by (simp add: handle_delete_def)
  then show ?thesis
  proof (rule chain_going [OF _ going])
    fix rr1 s1
    assume 1: "on_world (undeploy_helm_release L r c expected rr) s = (Returned rr1, s1)" "\<not> stopped rr1"
    assume "chain (on_world (cleanup_with_access L r c expected rr1)) (\<lambda>rr.
        release_cluster L r c rr) s1 = (Returned rr', s')"
    then show ?thesis
    proof (rule chain_going [OF _ going])
      fix rr2 s2
      assume 2: "on_world (cleanup_with_access L r c expected rr1) s1 = (Returned rr2, s2)" "\<not> stopped rr2"
        and 3: "release_cluster L r c rr2 s2 = (Returned rr', s')"
      from 1 have run1: "undeploy_helm_release L r c expected rr (world s) = (Returned rr1, world s1)"
        by (simp add: on_world_Returned)
      from effectD(2) [OF achieves_undeploy_release [OF server, unfolded achieves_def] run1 refl] 1(2)
      obtain name where name: "cluster_based_resource_name L (meta_name c) = Returned name"
        "V (world s1) (OnPlatform, RRelease, \<lparr>nn_namespace = meta_namespace c, nn_name = name\<rparr>) = None"
        by auto
      from 2 have run2: "cleanup_with_access L r c expected rr1 (world s1) = (Returned rr2, world s2)"
        by (simp add: on_world_Returned)
      note cleanup = cleanup_with_access_achieves [OF server laws(1) labels run2 2(2)]
      note release = release_cluster_achieves [OF server laws(2) fin 3 going]
      have same: "V (world s') (sd, res, nn) = V (world s2) (sd, res, nn)" if "res \<noteq> RCluster" for sd res nn
        using that by (intro same_offD [OF release(2)]) simp
      have "V (world s') (OnPlatform, RRelease, \<lparr>nn_namespace = meta_namespace c, nn_name = name\<rparr>) = None"
        using name(2) same_offD [OF cleanup(1)] by (simp add: same cleanup_region_def)
      moreover have "tidy expected OnPlatform (RSource k) (meta_namespace c) (\<lambda>nn. False) (V (world s'))" for k
        by (rule tidy_cong [OF spec [OF conjunct1 [OF cleanup(2)]]]) (simp add: same)
      moreover have "tidy expected OnPlatform RSecret (meta_namespace c) (\<lambda>nn. False) (V (world s'))"
        by (rule tidy_cong [OF conjunct2 [OF cleanup(2)]]) (simp add: same)
      moreover have released: "released_world L r c (world s) =
          snd (access_reconcile (access_reconciler r) (object_key c) (world s1))"
        using undeploy_returns_gone [OF run1 1(2)] by (auto simp: released_world_def)
      have "target_cleared r c expected (released_world L r c (world s)) (V (world s'))"
        unfolding released by (rule target_cleared_cong [OF cleanup(3) refl]) (simp add: same)
      ultimately show ?thesis using release(1,3) name(1) by (auto simp: nothing_left_def)
    qed
  qed
qed

lemma run_cleans_up:
  assumes laws: "outcome_laws V L r" and stored: "asked_for r (V (world s)) req c config svc"
    and unwanted: "\<not> wanted_cluster c config" and fin: "cluster_finalizer L \<in> set (meta_finalizers c)"
    and op: "requested_operation L c \<noteq> Some (lib_operation_ignore L)"
    and run: "Reconcile L r req s = (Returned (res, None), s')" and "requeue_after res \<le> 0"
  shows "cluster_removed L r c (V (world s')) (known_clusters s') \<and>
    target_cleared r c (expected_labels L r (meta_name c)) (cleanup_world L r c (world s)) (V (world s'))"
proof -
  have server: "server_law V L r" using laws by (simp add: outcome_laws_def)
  have rest: "project_law L" "finalizer_law L" using laws by (simp_all add: outcome_laws_def)
  from Reconcile_configures [OF server stored op run assms(7)] obtain anns s1 s2 rr where
    going: "\<not> stopped rr"
    and configured: "reconcile_configured L r (c\<lparr>meta_annotations := anns\<rparr>) (expected_labels L r (meta_name c))
      (empty_result\<lparr>rr_provider_config := Some config, rr_platform_service := Some svc\<rparr>) config s1 =
        (Returned rr, s2)"
    and after: "V (world s') = V (world s2)" "known_clusters s' = known_clusters s2"
    and s1: "world s1 = loaded_world L r c (world s)" by blast
  let ?c = "c\<lparr>meta_annotations := anns\<rparr>"
  from configured unwanted have "\<exists>rr0. handle_delete L r ?c (expected_labels L r (meta_name c)) rr0 s1 = (Returned rr, s2)"
    by (auto simp: reconcile_configured_def Let_def wanted_cluster_def)
  then obtain rr0 where "handle_delete L r ?c (expected_labels L r (meta_name c)) rr0 s1 = (Returned rr, s2)" ..
  moreover have "cluster_finalizer L \<in> set (meta_finalizers ?c)" using fin by simp
  ultimately have "object_key ?c \<notin> set (known_clusters s2) \<and>
    (\<forall>c'. V (world s2) (OnPlatform, RCluster, object_key ?c) = Some (ACluster c') \<longrightarrow>
       cluster_finalizer L \<notin> set (meta_finalizers c')) \<and>
    nothing_left L ?c (expected_labels L r (meta_name c)) (V (world s2)) \<and>
    target_cleared r ?c (expected_labels L r (meta_name c)) (released_world L r ?c (world s1)) (V (world s2))"
    using going outcome_laws_deploy [OF laws, of "meta_name c"]
    by (intro handle_delete_achieves [OF server rest]) (simp_all add: deploy_laws_def)
  moreover have "object_key ?c = object_key c" by (simp add: object_key_def)
  ultimately show ?thesis
    by (simp add: cluster_removed_def nothing_left_def target_cleared_def cleanup_world_def s1 after)
qed

text \<open>
  C2. With an honest server, a run that ends without error and without a request to come back cleans up
  after a Cluster that is deleted or no longer matched, carries the finalizer and has no effective ignore
  annotation. On the platform cluster, the finalizer is off, the Cluster is forgotten, there is no
  HelmRelease, and every labelled source and every labelled secret in the Cluster's namespace is gone or
  being deleted. On the Cluster itself, so is every labelled secret in the namespace of external-dns,
  unless the run found the AccessRequest to be absent, not granted or being deleted.
\<close>

theorem successful_run_cleans_up:
  assumes laws: "outcome_laws V L r" and stored: "asked_for r (V (world s)) req c config svc"
    and unwanted: "\<not> wanted_cluster c config" and fin: "cluster_finalizer L \<in> set (meta_finalizers c)"
    and op: "requested_operation L c \<noteq> Some (lib_operation_ignore L)"
    and run: "Reconcile L r req s = (Returned (res, None), s')" and "requeue_after res \<le> 0"
  shows "cluster_removed L r c (V (world s')) (known_clusters s') \<and>
    target_cleared r c (expected_labels L r (meta_name c)) (cleanup_world L r c (world s)) (V (world s'))"
  using assms by (rule run_cleans_up)

end
