(* ===== verification/Isolation.thy ===== *)
theory Isolation
  imports Outcomes Registry_Runs
begin

section \<open>What a run does to the objects of others\<close>

text \<open>
  Several Clusters share namespaces, the platform cluster and the provider's secrets. Every change that a
  run makes is at a place of its own Cluster, or to an object that carries the Cluster's labels, or to a
  free place; and the secrets and sources that it leaves where it made a change carry the labels, or are
  about to go. This holds for every step of every run with an honest server, failing calls and panics
  included, and it is closed under sequencing.
\<close>

subsection \<open>Steps on the view\<close>

locale step_relation =
  fixes S :: "'v \<Rightarrow> 'v \<Rightarrow> bool"
  assumes stay [simp]: "S v v"
    and further: "S v v1 \<Longrightarrow> S v1 v2 \<Longrightarrow> S v v2"
begin

definition minds :: "('w \<Rightarrow> 'v) \<Rightarrow> ('w, 'a) comp \<Rightarrow> bool" where
  "minds V m \<longleftrightarrow> (\<forall>w x w'. m w = (x, w') \<longrightarrow> S (V w) (V w'))"

lemma mindsI: "(\<And>w x w'. m w = (x, w') \<Longrightarrow> S (V w) (V w')) \<Longrightarrow> minds V m"
  unfolding minds_def by blast

lemma mindsD: "minds V m \<Longrightarrow> m w = (x, w') \<Longrightarrow> S (V w) (V w')"
  unfolding minds_def by blast

lemma minds_return [simp]: "minds V (return_st a)"
  by (simp add: minds_def return_st_def)

lemma minds_bind:
  assumes "minds V m" and "\<And>a. minds V (f a)"
  shows "minds V (bind_st m f)"
proof (rule mindsI)
  fix w x w'
  assume run: "bind_st m f w = (x, w')"
  obtain y w1 where first: "m w = (y, w1)" by (cases "m w")
  show "S (V w) (V w')"
  proof (cases y)
    case (Returned a)
    with run first have "f a w1 = (x, w')" by (simp add: bind_st_def)
    with first show ?thesis by (intro further [OF mindsD [OF assms(1)] mindsD [OF assms(2)]])
  next
    case (Panicked p)
    with run first assms(1) show ?thesis by (auto simp: bind_st_def dest: mindsD)
  qed
qed

lemma minds_chain: "minds V m \<Longrightarrow> (\<And>rr. minds V (f rr)) \<Longrightarrow> minds V (chain m f)"
  unfolding chain_def by (rule minds_bind) simp_all

lemma minds_deref: "(\<And>a. p = Some a \<Longrightarrow> minds V (f a)) \<Longrightarrow> minds V (deref p f)"
  by (cases p) (auto simp: minds_def deref_def)

lemma minds_of_outcome: "minds V (of_outcome x)"
  by (simp add: minds_def of_outcome_def)

lemma minds_on_world: "minds V m \<Longrightarrow> minds (\<lambda>s. V (world s)) (on_world m)"
  unfolding minds_def on_world_def by (auto split: prod.splits)

end

text \<open>
  Objects that carry the labels, and what is left of one. Of Clusters, namespaces and HelmReleases
  it is not asked what they are afterwards.
\<close>

definition ours :: "(string \<times> string) list \<Rightarrow> any_object option \<Rightarrow> bool" where
  "ours expected obj \<longleftrightarrow> pred_option (\<lambda>obj. map_of expected \<subseteq>\<^sub>m meta_labels (any_meta obj)) obj"

definition left_ours :: "(string \<times> string) list \<Rightarrow> any_object option \<Rightarrow> bool" where
  "left_ours expected obj \<longleftrightarrow>
     pred_option (\<lambda>obj. map_of expected \<subseteq>\<^sub>m meta_labels (any_meta obj) \<or> meta_deleting (any_meta obj)) obj"

text \<open>
  What a run may change: a free place, or a secret or source with the labels, on the platform cluster
  only in the namespace of the Cluster.
\<close>

definition claimable :: "(string \<times> string) list \<Rightarrow> string \<Rightarrow> place \<Rightarrow> any_object option \<Rightarrow> bool" where
  "claimable expected at_home pl obj \<longleftrightarrow>
     (fst pl = OnPlatform \<longrightarrow> nn_namespace (snd (snd pl)) = at_home) \<and>
     (obj = None \<or> (fst (snd pl) = RSecret \<or> (\<exists>k. fst (snd pl) = RSource k)) \<and> ours expected obj)"

definition own_step :: "(string \<times> string) list \<Rightarrow> string \<Rightarrow> place set \<Rightarrow> objects \<Rightarrow> objects \<Rightarrow> bool" where
  "own_step expected at_home own v v' \<longleftrightarrow>
     (\<forall>pl. v' pl = v pl \<or>
        (pl \<in> own \<or> claimable expected at_home pl (v pl)) \<and>
        (left_ours expected (v' pl) \<or> fst (snd pl) \<in> {RCluster, RNamespace, RRelease}))"

lemma claimable_iff [simp]:
  "claimable expected at_home (sd, res, nn) obj \<longleftrightarrow>
     (sd = OnPlatform \<longrightarrow> nn_namespace nn = at_home) \<and>
     (obj = None \<or> (res = RSecret \<or> (\<exists>k. res = RSource k)) \<and> ours expected obj)"
  by (simp add: claimable_def)

interpretation own_steps: step_relation "own_step expected at_home own" for expected at_home own
proof
  show "own_step expected at_home own v v" for v by (simp add: own_step_def)
  show "own_step expected at_home own v v2" if "own_step expected at_home own v v1" "own_step expected at_home own v1 v2" for v v1 v2
    using that unfolding own_step_def by metis
qed

lemma ours_simps [simp]: "ours expected None" "left_ours expected None"
  "ours expected obj \<Longrightarrow> left_ours expected obj"
  by (auto simp: ours_def left_ours_def option.pred_set)

lemma own_step_update:
  assumes "pl \<in> own \<or> claimable expected at_home pl (v pl)"
    and "left_ours expected obj \<or> fst (snd pl) \<in> {RCluster, RNamespace, RRelease}"
  shows "own_step expected at_home own v (v(pl := obj))"
  using assms by (cases pl) (auto simp: own_step_def)

lemma own_step_fading:
  assumes "same_off R v v'" and "same_or_fading v v'" and "\<And>pl. pl \<in> R \<Longrightarrow> pl \<in> own \<or> claimable expected at_home pl (v pl)"
  shows "own_step expected at_home own v v'"
  unfolding own_step_def
proof
  fix pl
  have "left_ours expected (v' pl)" if "fading v' pl"
    using that by (cases "v' pl") (auto simp: left_ours_def fading_def)
  then show "v' pl = v pl \<or> (pl \<in> own \<or> claimable expected at_home pl (v pl)) \<and>
      (left_ours expected (v' pl) \<or> fst (snd pl) \<in> {RCluster, RNamespace, RRelease})"
    using same_offD [OF assms(1), of pl] assms(2,3) unfolding same_or_fading_def by blast
qed

text \<open>An object that a list call has named carries the labels.\<close>

lemma listed_ours:
  assumes honest: "kind_honest K V sd res wrap api" and "api_list api ns (map_of expected) w = (Inr objs, w1)"
    and keys: "fst ` set expected \<subseteq> K"
    and wrapped: "\<And>obj. meta_labels (any_meta (wrap obj)) = meta_labels obj" and "obj \<in> set objs"
    and "res = RSecret \<or> (\<exists>k. res = RSource k)" and "sd = OnPlatform \<longrightarrow> ns = at_home"
  shows "claimable expected at_home (sd, res, object_key obj) (V w (sd, res, object_key obj))"
  using honest_list(2) [OF honest assms(2) refl, of "object_key obj" obj] keys assms(5-7) wrapped
  by (simp add: dom_map_of_conv_image_fst ours_def)

lemma has_labels_submap: "has_labels expected ls \<Longrightarrow> map_of expected \<subseteq>\<^sub>m ls"
  by (fastforce simp: has_labels_iff map_le_def dom_def simp del: dom_map_of_conv_image_fst dest: map_of_SomeD)

lemmas own_bind = own_steps.minds_bind own_steps.minds_chain own_steps.minds_deref own_steps.minds_of_outcome
  own_steps.minds_return

subsection \<open>Secrets\<close>

lemma own_copy_secret:
  assumes platform: "kind_honest K V OnPlatform RSecret ASecret (secrets_api (platform r))"
    and target: "kind_honest K V sd RSecret ASecret (secrets_api access)"
    and laws: "merge_law L" "distinct (map fst expected)" and at_home: "sd = OnPlatform \<longrightarrow> ns = at_home"
  shows "own_steps.minds expected at_home own V (copy_secret L r ct access why ns expected s t names)"
proof (rule own_steps.mindsI)
  let ?skey = "\<lparr>nn_namespace = provider_namespace r, nn_name = s\<rparr>"
  let ?tkey = "\<lparr>nn_namespace = ns, nn_name = t\<rparr>"
  fix w x w'
  assume run: "copy_secret L r ct access why ns expected s t names w = (x, w')"
  obtain src w1 where src: "api_get (secrets_api (platform r)) ?skey w = (src, w1)"
    by (cases "api_get (secrets_api (platform r)) ?skey w")
  obtain tgt w2 where tgt: "api_get (secrets_api access) ?tkey w1 = (tgt, w2)"
    by (cases "api_get (secrets_api access) ?tkey w1")
  note V1 = honest_get(1) [OF platform src] and V2 = honest_get(1) [OF target tgt]
  have written: "own_step expected at_home own (V w2) (V w')"
    if key: "object_key obj = ?tkey" and before: "claimable expected at_home (sd, RSecret, ?tkey) (V w2 (sd, RSecret, ?tkey))"
      and run: "write_secret L access why expected source names obj w2 = (x, w')" for obj source
  proof -
    obtain ans w3 where call: "api_upsert (secrets_api access) obj (secret_mutation L expected source) w2 = (ans, w3)"
      by (cases "api_upsert (secrets_api access) obj (secret_mutation L expected source) w2")
    from run call have w3: "w' = w3" by (auto simp: write_secret_def split: outcome.splits sum.splits)
    from honest_upsert [OF target call] show ?thesis
    proof (elim disjE exE conjE)
      fix new base
      assume "secret_mutation L expected source base = Mutated new"
        and view: "V w3 = (V w2)((sd, RSecret, object_key obj) \<mapsto> ASecret new)"
      with secret_mutation_fields [OF laws, of source base new] has_labels_submap
      have "ours expected (Some (ASecret new))" by (auto simp: ours_def)
      then show ?thesis
        using before at_home unfolding w3 view key by (intro own_step_update) simp_all
    qed (simp add: w3)
  qed
  have "claimable expected at_home (sd, RSecret, ?tkey) (V w2 (sd, RSecret, ?tkey))" if "tgt = Inl NotFound"
    using honest_get(3) [OF target tgt that] V2 at_home by simp
  moreover have "claimable expected at_home (sd, RSecret, ?tkey) (V w2 (sd, RSecret, ?tkey)) \<and> object_key obj = ?tkey"
    if "tgt = Inr obj" "has_labels expected (meta_labels obj)" for obj
    using honest_get(2) [OF target tgt that(1)] V2 has_labels_submap [OF that(2)] at_home by (simp add: ours_def)
  ultimately have "w' = w1 \<or> w' = w2 \<or> own_step expected at_home own (V w2) (V w')"
    using run src tgt written [of "new_secret ns t"] written
    by (auto simp: copy_secret_def Let_def split: sum.splits if_splits)
  then show "own_step expected at_home own (V w) (V w')" using V1 V2 by auto
qed

lemma own_copy_secrets:
  assumes server: "server_law V L r" and laws: "merge_law L" "distinct (map fst expected)"
    and at_home: "ct = PlatformClusterCopy \<longrightarrow> ns = at_home"
  shows "own_steps.minds expected at_home own V (copy_secrets L r ns expected rr ct)"
proof -
  note platform = server_law_secrets(1) [OF server]
  have loop: "own_steps.minds expected at_home own V (copy_loop L r ct access why ns expected entries names)"
    if "kind_honest (managed_labels L) V sd RSecret ASecret (secrets_api access)" "sd = OnPlatform \<longrightarrow> ns = at_home"
    for access sd why entries names
  proof (induction entries arbitrary: names)
    case (Cons entry entries)
    then show ?case
      by (cases entry) (auto intro!: own_bind own_copy_secret [OF platform that(1) laws that(2)])
  qed simp
  have configured: "own_steps.minds expected at_home own V (copy_configured L r ns expected rr ct target_access why secrets)"
    if "\<And>access. target_access = Some access \<Longrightarrow>
      kind_honest (managed_labels L) V sd RSecret ASecret (secrets_api access)" "sd = OnPlatform \<longrightarrow> ns = at_home"
    for target_access sd why secrets
  proof -
    note target = that(1) and side = that(2)
    have "own_steps.minds expected at_home own V (\<lambda>w. bind_st (copy_loop L r ct access why ns expected (f w) {})
        (\<lambda>(e, names). return_st (g e names)) w)" if "target_access = Some access"
      for access f and g :: "reasonable_error option \<Rightarrow> string set \<Rightarrow> reconcile_result \<times> string set"
    proof (rule own_steps.mindsI)
      fix w x w'
      assume run: "bind_st (copy_loop L r ct access why ns expected (f w) {}) (\<lambda>(e, names). return_st (g e names)) w = (x, w')"
      show "own_step expected at_home own (V w) (V w')"
        by (rule own_steps.mindsD [OF own_steps.minds_bind [OF loop [OF target [OF that] side]] run])
           (simp split: prod.split)
    qed
    then show ?thesis
      by (auto simp: copy_configured_def Let_def intro!: own_bind split: option.split)
  qed
  have "own_steps.minds expected at_home own V (copy_configured L r ns expected rr ct (Some (platform r)) why secrets)"
    if "ct = PlatformClusterCopy" for why secrets
    by (rule configured [where sd = OnPlatform]) (use platform at_home that in simp_all)
  moreover have "own_steps.minds expected at_home own V (copy_configured L r ns expected rr ct (lib_client_of L a) why secrets)" for a why secrets
    by (rule configured [where sd = "OnTarget a"]) (use server_law_secrets(2) [OF server] in simp_all)
  ultimately show ?thesis
    unfolding copy_secrets_def by (auto intro!: own_bind split: option.split copy_to.split)
qed

lemma remove_loop_fades:
  assumes "kind_honest K V sd RSecret ASecret (secrets_api access)"
    and "remove_loop access why keep objs deleted n w = (x, w')"
  shows "same_off ((\<lambda>obj. (sd, RSecret, object_key obj)) ` set objs) (V w) (V w') \<and> same_or_fading (V w) (V w')"
  using assms(2)
proof (induction objs arbitrary: deleted n w)
  case (Cons obj objs)
  let ?places = "\<lambda>objs. (\<lambda>obj. (sd, RSecret, object_key obj)) ` set objs"
  have wider: "same_off (?places objs) v v' \<Longrightarrow> same_off (?places (obj # objs)) v v'" for v v'
    by (erule same_off_mono) auto
  show ?case
  proof (cases "meta_name obj \<in> keep")
    case True
    with Cons have "remove_loop access why keep objs deleted (Suc n) w = (x, w')" by simp
    from Cons.IH [OF this] wider show ?thesis by simp
  next
    case False
    obtain res w1 where del: "api_delete (secrets_api access) (object_key obj) w = (res, w1)"
      by (cases "api_delete (secrets_api access) (object_key obj) w")
    let ?place = "(sd, RSecret, object_key obj)"
    obtain left where left: "V w1 = (V w)(?place := left)"
        "left = V w ?place \<or> (\<forall>obj. left = Some obj \<longrightarrow> meta_deleting (any_meta obj))"
      using honest_delete(1) [OF assms(1) del] by blast
    have first: "same_off (?places (obj # objs)) (V w) (V w1)" "same_or_fading (V w) (V w1)"
      using deletion_same_or_fading [OF left] by (simp_all add: left(1))
    show ?thesis
    proof (cases "ignore_not_found res")
      case (Some e)
      with Cons.prems False del first show ?thesis by auto
    next
      case None
      with Cons.prems False del have "remove_loop access why keep objs (Suc deleted) n w1 = (x, w')" by simp
      from Cons.IH [OF this] wider first show ?thesis
        by (auto intro: same_or_fading_trans same_off_trans [OF _ _ Un_absorb [THEN equalityD1]])
    qed
  qed
qed simp

lemma own_remove_secrets:
  assumes server: "server_law V L r" and keys: "fst ` set expected \<subseteq> managed_labels L"
    and at_home: "ct = PlatformClusterCopy \<longrightarrow> ns = at_home"
  shows "own_steps.minds expected at_home own V (remove_secrets L r ns expected rr ct keep)"
proof -
  have from_access: "own_steps.minds expected at_home own V (remove_from ns expected rr ct keep target_access why)"
    if target: "\<And>access. target_access = Some access \<Longrightarrow>
      kind_honest (managed_labels L) V sd RSecret ASecret (secrets_api access)" and side: "sd = OnPlatform \<longrightarrow> ns = at_home"
    for target_access sd why
  proof (rule own_steps.mindsI)
    fix w x w'
    assume run: "remove_from ns expected rr ct keep target_access why w = (x, w')"
    show "own_step expected at_home own (V w) (V w')"
    proof (cases target_access)
      case None
      with run show ?thesis by (simp add: remove_from_def return_st_def)
    next
      case (Some access)
      note honest = target [OF Some]
      obtain res w1 where listed: "api_list (secrets_api access) ns (map_of expected) w = (res, w1)"
        by (cases "api_list (secrets_api access) ns (map_of expected) w")
      note same = honest_list(1) [OF honest listed]
      show ?thesis
      proof (cases res)
        case (Inl e)
        with run listed same Some show ?thesis by (auto simp: remove_from_def)
      next
        case (Inr objs)
        obtain y w2 where loop: "remove_loop access why keep objs 0 0 w1 = (y, w2)"
          by (cases "remove_loop access why keep objs 0 0 w1")
        have "own_step expected at_home own (V w1) (V w2)"
          using remove_loop_fades [OF honest loop] listed_ours [OF honest listed [unfolded Inr] keys _ _ _ side]
          by (intro own_step_fading [where R = "(\<lambda>obj. (sd, RSecret, object_key obj)) ` set objs"])
             (auto simp: same)
        moreover have "w' = w2"
          using run listed Inr Some loop
          by (auto simp: remove_from_def bind_st_def return_st_def split: outcome.splits)
        ultimately show ?thesis by (simp add: same)
      qed
    qed
  qed
  have "own_steps.minds expected at_home own V (remove_from ns expected rr ct keep (Some (platform r)) why)"
    if "ct = PlatformClusterCopy" for why
    by (rule from_access [where sd = OnPlatform]) (use server_law_secrets(1) [OF server] at_home that in simp_all)
  moreover have "own_steps.minds expected at_home own V (remove_from ns expected rr ct keep (lib_client_of L a) why)" for a why
    by (rule from_access [where sd = "OnTarget a"]) (use server_law_secrets(2) [OF server] in simp_all)
  ultimately show ?thesis
    unfolding remove_secrets_def by (auto intro!: own_bind split: copy_to.split)
qed

subsection \<open>Source, namespace and HelmRelease\<close>

text \<open>The places of a Cluster: itself, and its source and HelmRelease by name.\<close>

definition own_places :: "'w lib \<Rightarrow> namespaced_name \<Rightarrow> place set" where
  "own_places L req = insert (OnPlatform, RCluster, req)
     {(OnPlatform, res, \<lparr>nn_namespace = nn_namespace req, nn_name = name\<rparr>) | res name.
        (res = RRelease \<or> (\<exists>k. res = RSource k)) \<and> cluster_based_resource_name L (nn_name req) = Returned name}"

lemma own_place_iff [simp]:
  "(sd, res, nn) \<in> own_places L (object_key c) \<longleftrightarrow> sd = OnPlatform \<and>
     (res = RCluster \<and> nn = object_key c \<or>
      (res = RRelease \<or> (\<exists>k. res = RSource k)) \<and> nn_namespace nn = meta_namespace c \<and>
        cluster_based_resource_name L (meta_name c) = Returned (nn_name nn))"
  by (cases nn) (auto simp: own_places_def)

lemma delete_sources_returns: "\<exists>e. fst (delete_sources access objs w) = Returned e"
proof (induction access objs w rule: delete_sources.induct)
  case (2 access k obj objs w)
  then show ?case by (auto split: prod.split option.split)
qed simp

lemma own_finish_sources:
  assumes server: "server_law V L r" and run: "finish_sources (platform r) objs rr msg w = (x, w')"
    and "\<And>pl. pl \<in> source_places objs \<Longrightarrow> pl \<in> own \<or> claimable expected at_home pl (V w pl)"
  shows "own_step expected at_home own (V w) (V w')"
proof -
  obtain e w1 where del: "delete_sources (platform r) objs w = (Returned e, w1)"
    using delete_sources_returns [of "platform r" objs w] by (cases "delete_sources (platform r) objs w") auto
  from run del have "w' = w1" by (simp add: finish_sources_def bind_st_def return_st_def)
  with effectD [OF effect_delete_sources [OF server] del] assms(3) show ?thesis
    by (intro own_step_fading [where R = "source_places objs"]) simp_all
qed

lemma own_existing_sources:
  assumes server: "server_law V L r" and keys: "fst ` set expected \<subseteq> managed_labels L"
    and run: "with_existing_sources r ns expected rr f w = (x, w')"
    and rest: "\<And>helm git oci w1. f helm git oci w1 = (x, w') \<Longrightarrow>
      (\<And>j obj. obj \<in> set (case j of HelmRepository \<Rightarrow> helm | GitRepository \<Rightarrow> git | OCIRepository \<Rightarrow> oci) \<Longrightarrow>
         claimable expected ns (OnPlatform, RSource j, object_key obj) (V w1 (OnPlatform, RSource j, object_key obj))) \<Longrightarrow> own_step expected ns own (V w1) (V w')"
  shows "own_step expected ns own (V w) (V w')"
  using existing_sources [OF server run]
proof (elim disjE exE conjE)
  fix helm git oci w1
  assume cont: "f helm git oci w1 = (x, w')" and same: "V w1 = V w"
    and listed: "\<forall>k. listed_sources V r ns expected (V w) k
      (case k of HelmRepository \<Rightarrow> helm | GitRepository \<Rightarrow> git | OCIRepository \<Rightarrow> oci)"
  have "own_step expected ns own (V w1) (V w')"
  proof (rule rest [OF cont])
    fix j obj
    assume obj: "obj \<in> set (case j of HelmRepository \<Rightarrow> helm | GitRepository \<Rightarrow> git | OCIRepository \<Rightarrow> oci)"
    from listed obtain w2 w3 where "V w2 = V w" "api_list (sources_api (platform r) j) ns (map_of expected) w2 =
        (Inr (case j of HelmRepository \<Rightarrow> helm | GitRepository \<Rightarrow> git | OCIRepository \<Rightarrow> oci), w3)"
      by (force simp: listed_sources_def)
    from listed_ours [OF server_law_sources [OF server] this(2) keys _ obj, of ns] this(1)
    show "claimable expected ns (OnPlatform, RSource j, object_key obj) (V w1 (OnPlatform, RSource j, object_key obj))" by (simp add: same)
  qed
  then show ?thesis by (simp add: same)
qed simp

lemma own_deploy_source:
  assumes laws: "deploy_laws V L r expected" and pc: "rr_provider_config rr = Some pc"
  shows "own_steps.minds expected (meta_namespace c) (own_places L (object_key c)) V (deploy_helm_chart_source L r c expected rr)"
proof (rule own_steps.mindsI)
  let ?own = "own_places L (object_key c)"
  have server: "server_law V L r" and lib: "merge_law L" "owner_law L" "project_law L"
    and keys: "fst ` set expected \<subseteq> managed_labels L"
    using laws by (simp_all add: deploy_laws_def)
  fix w x w'
  assume run: "deploy_helm_chart_source L r c expected rr w = (x, w')"
  show "own_step expected (meta_namespace c) ?own (V w) (V w')"
  proof (cases "cluster_based_resource_name L (meta_name c)")
    case (Panicked p)
    with run show ?thesis by (auto simp: deploy_helm_chart_source_def bind_st_def of_outcome_def)
  next
    case (Returned name)
    from run Returned have "with_existing_sources r (meta_namespace c) expected rr (\<lambda>helm git oci.
       case configured_source (spec_source (service_spec pc)) of
         None \<Rightarrow> return_st (fail rr NoSourceConfigured ConfigurationProblem)
       | Some (k, spec) \<Rightarrow>
           write_source L r c expected (rr\<lparr>rr_source_kind := Some k\<rparr>) k spec name
             (obsolete_sources L k name helm git oci)) w = (x, w')"
      by (simp add: deploy_helm_chart_source_def bind_st_def of_outcome_def pc)
    then show ?thesis
    proof (rule own_existing_sources [OF server keys])
      fix helm git oci w1
      assume written: "(case configured_source (spec_source (service_spec pc)) of
         None \<Rightarrow> return_st (fail rr NoSourceConfigured ConfigurationProblem)
       | Some (k, spec) \<Rightarrow>
           write_source L r c expected (rr\<lparr>rr_source_kind := Some k\<rparr>) k spec name
             (obsolete_sources L k name helm git oci)) w1 = (x, w')"
        and found: "\<And>j obj. obj \<in> set (case j of HelmRepository \<Rightarrow> helm | GitRepository \<Rightarrow> git | OCIRepository \<Rightarrow> oci) \<Longrightarrow>
          claimable expected (meta_namespace c) (OnPlatform, RSource j, object_key obj) (V w1 (OnPlatform, RSource j, object_key obj))"
      show "own_step expected (meta_namespace c) ?own (V w1) (V w')"
      proof (cases "configured_source (spec_source (service_spec pc))")
        case None
        with written show ?thesis by (simp add: return_st_def)
      next
        case (Some ks)
        obtain k spec where ks: "ks = (k, spec)" by (cases ks)
        let ?obj = "new_source (meta_namespace c) name" and ?obsolete = "obsolete_sources L k name helm git oci"
        obtain ans w2 where call: "api_upsert (sources_api (platform r) k) ?obj (source_mutation L c expected spec) w1 = (ans, w2)"
          by (cases "api_upsert (sources_api (platform r) k) ?obj (source_mutation L c expected spec) w1")
        from written Some ks call have rest: "finish_sources (platform r) ?obsolete (rr\<lparr>rr_source_kind := Some k\<rparr>) (WroteSource k) w2 = (x, w') \<or>
            w' = w2" by (auto simp: write_source_def split: outcome.splits sum.splits)
        have upsert: "own_step expected (meta_namespace c) ?own (V w1) (V w2) \<and>
            (\<forall>pl. pl \<in> ?own \<or> claimable expected (meta_namespace c) pl (V w1 pl) \<longrightarrow> pl \<in> ?own \<or> claimable expected (meta_namespace c) pl (V w2 pl))"
          using honest_upsert [OF server_law_sources [OF server] call]
        proof (elim disjE exE conjE)
          fix new base
          assume "source_mutation L c expected spec base = Mutated new"
            and view: "V w2 = (V w1)((OnPlatform, RSource k, object_key ?obj) \<mapsto> ASource new)"
          with source_mutation_fields [OF lib(1,2), of c expected spec base new]
          have new: "ours expected (Some (ASource new))" by (simp add: ours_def)
          have "(OnPlatform, RSource k, object_key ?obj) \<in> ?own" using Returned by simp
          with new show ?thesis
            unfolding view by (intro conjI own_step_update) (simp_all add: fun_upd_def)
        qed simp
        have "own_step expected (meta_namespace c) ?own (V w2) (V w')"
          using rest
        proof
          assume "finish_sources (platform r) ?obsolete (rr\<lparr>rr_source_kind := Some k\<rparr>) (WroteSource k) w2 = (x, w')"
          then show ?thesis
          proof (rule own_finish_sources [OF server])
            show "pl \<in> ?own \<or> claimable expected (meta_namespace c) pl (V w2 pl)" if "pl \<in> source_places ?obsolete" for pl
            proof -
              from that obtain j obj where pl: "pl = (OnPlatform, RSource j, object_key obj)"
                and "(j, obj) \<in> set ?obsolete" by (auto simp: source_places_def)
              then have "obj \<in> set (case j of HelmRepository \<Rightarrow> helm | GitRepository \<Rightarrow> git | OCIRepository \<Rightarrow> oci)"
                unfolding set_obsolete_sources [OF lib(3)] by simp
              from found [OF this] have "claimable expected (meta_namespace c) pl (V w1 pl)" by (simp add: pl)
              with upsert show ?thesis by blast
            qed
          qed
        qed simp
        with upsert show ?thesis by (blast intro: own_steps.further)
      qed
    qed
  qed
qed

lemma own_undeploy_source:
  assumes server: "server_law V L r" and laws: "project_law L" and keys: "fst ` set expected \<subseteq> managed_labels L"
  shows "own_steps.minds expected (meta_namespace c) own V (undeploy_helm_chart_source L r c expected rr)"
proof (rule own_steps.mindsI)
  fix w x w'
  assume "undeploy_helm_chart_source L r c expected rr w = (x, w')"
  then show "own_step expected (meta_namespace c) own (V w) (V w')"
    unfolding undeploy_helm_chart_source_def
  proof (rule own_existing_sources [OF server keys])
    fix helm git oci w1
    let ?all = "lib_project_sources L (with_type_kind HelmRepository) helm @
          lib_project_sources L (with_type_kind GitRepository) git @
          lib_project_sources L (with_type_kind OCIRepository) oci"
    assume finish: "finish_sources (platform r) ?all rr RemovedSources w1 = (x, w')"
      and found: "\<And>j obj. obj \<in> set (case j of HelmRepository \<Rightarrow> helm | GitRepository \<Rightarrow> git | OCIRepository \<Rightarrow> oci) \<Longrightarrow>
          claimable expected (meta_namespace c) (OnPlatform, RSource j, object_key obj) (V w1 (OnPlatform, RSource j, object_key obj))"
    have project: "lib_project_sources L f xs = map f xs" for f xs
      using laws by (simp add: project_law_def)
    have type_kind: "fst (with_type_kind k obj) = k" "object_key (snd (with_type_kind k obj)) = object_key obj" for k obj
      by (auto simp: with_type_kind_def object_key_def)
    have "claimable expected (meta_namespace c) pl (V w1 pl)" if "pl \<in> source_places ?all" for pl
      using that found [where j = HelmRepository] found [where j = GitRepository] found [where j = OCIRepository]
      by (auto simp: source_places_def project case_prod_unfold type_kind)
    then show "own_step expected (meta_namespace c) own (V w1) (V w')"
      by (intro own_finish_sources [OF server finish]) blast
  qed
qed

lemma own_ensure_namespace:
  assumes server: "server_law V L r"
  shows "own_steps.minds expected at_home own V (ensure_target_cluster_namespace L ns rr)"
  unfolding ensure_target_cluster_namespace_def
proof (intro own_steps.minds_deref own_steps.mindsI)
  fix a cl w x w'
  let ?key = "\<lparr>nn_namespace = [], nn_name = ns\<rparr>"
  assume cl: "lib_client_of L a = Some cl"
    and run: "(let obj = new_namespace ns; why = TargetClusterInteractionProblem in
       case api_get (namespaces_api cl) (object_key obj) w of
         (Inr _, w1) \<Rightarrow> (Returned rr, w1)
       | (Inl e, w1) \<Rightarrow>
           if e \<noteq> NotFound then (Returned (fail rr (GetNamespaceFailed ns e) why), w1)
           else
             case api_create (namespaces_api cl) obj w1 of
               (res, w2) \<Rightarrow>
                 (case res of
                    None \<Rightarrow> (Returned (rr\<lparr>rr_message := CreatedNamespace ns\<rparr>), w2)
                  | Some e \<Rightarrow>
                      if e = AlreadyExists then (Returned (rr\<lparr>rr_message := CreatedNamespace ns\<rparr>), w2)
                      else (Returned (fail rr (CreateNamespaceFailed ns e) why), w2))) = (x, w')"
  have honest: "kind_honest (managed_labels L) V (OnTarget a) RNamespace ANamespace (namespaces_api cl)"
    using server cl by (simp add: server_law_def client_honest_def)
  obtain ans w1 where get: "api_get (namespaces_api cl) ?key w = (ans, w1)"
    by (cases "api_get (namespaces_api cl) ?key w")
  obtain res w2 where create: "api_create (namespaces_api cl) (new_namespace ns) w1 = (res, w2)"
    by (cases "api_create (namespaces_api cl) (new_namespace ns) w1")
  note G = honest_get [OF honest get]
  have "own_step expected at_home own (V w1) (V w2)" if "ans = Inl NotFound"
  proof (cases res)
    case None
    have "V w1 (OnTarget a, RNamespace, ?key) = None" using G(1,3) that by simp
    then show ?thesis
      using honest_create(1) [OF honest create None] by (auto intro!: own_step_update)
  next
    case (Some e)
    then show ?thesis using honest_create(2) [OF honest create Some] by simp
  qed
  with run get create G(1) show "own_step expected at_home own (V w) (V w')"
    by (auto split: sum.splits if_splits option.splits)
qed

lemma own_deploy_release:
  assumes server: "server_law V L r"
  shows "own_steps.minds expected (meta_namespace c) (own_places L (object_key c)) V (deploy_helm_release L r c labels rr)"
  unfolding deploy_helm_release_def
proof (rule own_steps.mindsI)
  let ?own = "own_places L (object_key c)"
  fix w x w'
  assume run: "bind_st (of_outcome (cluster_based_resource_name L (meta_name c))) (\<lambda>name w.
       let hr = new_release (meta_namespace c) name;
           rr = rr\<lparr>rr_related := Some (object_key hr)\<rparr> in
       case api_upsert (releases_api (platform r)) hr (release_mutation L r c labels rr) w of
         (Panicked p, w') \<Rightarrow> (Panicked p, w')
       | (Returned (Inl e), w') \<Rightarrow>
           (Returned (fail rr (WriteReleaseFailed (object_key hr) e)
              PlatformClusterInteractionProblem), w')
       | (Returned (Inr _), w') \<Rightarrow> (Returned (rr\<lparr>rr_message := WroteRelease\<rparr>), w')) w = (x, w')"
  show "own_step expected (meta_namespace c) ?own (V w) (V w')"
  proof (cases "cluster_based_resource_name L (meta_name c)")
    case (Panicked p)
    with run show ?thesis by (auto simp: bind_st_def of_outcome_def)
  next
    case (Returned name)
    let ?hr = "new_release (meta_namespace c) name"
    let ?f = "release_mutation L r c labels (rr\<lparr>rr_related := Some (object_key ?hr)\<rparr>)"
    obtain ans w1 where call: "api_upsert (releases_api (platform r)) ?hr ?f w = (ans, w1)"
      by (cases "api_upsert (releases_api (platform r)) ?hr ?f w")
    have "w' = w1" using run Returned call
      by (auto simp: bind_st_def of_outcome_def Let_def split: outcome.splits sum.splits)
    moreover have "own_step expected (meta_namespace c) ?own (V w) (V w1)"
      using honest_upsert [OF server_law_releases [OF server] call]
      by (auto simp: Returned intro!: own_step_update)
    ultimately show ?thesis by simp
  qed
qed

lemma own_undeploy_release:
  assumes server: "server_law V L r"
  shows "own_steps.minds expected (meta_namespace c) (own_places L (object_key c)) V (undeploy_helm_release L r c labels rr)"
proof (rule own_steps.mindsI)
  let ?own = "own_places L (object_key c)"
  fix w x w'
  assume run: "undeploy_helm_release L r c labels rr w = (x, w')"
  note honest = server_law_releases [OF server]
  show "own_step expected (meta_namespace c) ?own (V w) (V w')"
  proof (cases "cluster_based_resource_name L (meta_name c)")
    case (Panicked p)
    with run show ?thesis by (auto simp: undeploy_helm_release_def bind_st_def of_outcome_def)
  next
    case (Returned name)
    let ?key = "\<lparr>nn_namespace = meta_namespace c, nn_name = name\<rparr>"
    obtain ans w1 where get: "api_get (releases_api (platform r)) ?key w = (ans, w1)"
      by (cases "api_get (releases_api (platform r)) ?key w")
    note G = honest_get [OF honest get]
    show ?thesis
    proof (cases ans)
      case (Inl e)
      with run get G(1) Returned show ?thesis
        by (auto simp: undeploy_helm_release_def bind_st_def of_outcome_def Let_def split: if_splits)
    next
      case (Inr hr)
      obtain res w2 where del: "api_delete (releases_api (platform r)) (object_key hr) w1 = (res, w2)"
        by (cases "api_delete (releases_api (platform r)) (object_key hr) w1")
      have "object_key hr = ?key" using G(2) [OF Inr] by simp
      then have "own_step expected (meta_namespace c) ?own (V w) (V w2)"
        using honest_delete(1) [OF honest del] G(1) Returned by (auto intro!: own_step_update)
      moreover have "w' = w1 \<or> w' = w2"
        using run get del Inr Returned
        by (auto simp: undeploy_helm_release_def bind_st_def of_outcome_def Let_def split: if_splits option.splits)
      ultimately show ?thesis using G(1) by auto
    qed
  qed
qed

subsection \<open>The whole run\<close>

lemma own_deploy_phases:
  assumes laws: "deploy_laws V L r expected"
  shows "own_steps.minds expected (meta_namespace c) (own_places L (object_key c)) V (deploy_phases L r c expected rr)"
proof -
  have server: "server_law V L r" and lib: "merge_law L" "distinct (map fst expected)"
    and keys: "fst ` set expected \<subseteq> managed_labels L"
    using laws by (simp_all add: deploy_laws_def)
  have source: "own_steps.minds expected (meta_namespace c) (own_places L (object_key c)) V (deploy_helm_chart_source L r c expected rr)" for rr
  proof (cases "rr_provider_config rr")
    case None
    show ?thesis
      unfolding deploy_helm_chart_source_def None
    proof (rule own_steps.minds_bind [OF own_steps.minds_of_outcome], rule own_steps.mindsI)
      fix name w x w'
      assume "with_existing_sources r (meta_namespace c) expected rr (\<lambda>helm git oci. deref None (\<lambda>pc.
          case configured_source (spec_source (service_spec pc)) of
            None \<Rightarrow> return_st (fail rr NoSourceConfigured ConfigurationProblem)
          | Some (k, spec) \<Rightarrow>
              write_source L r c expected (rr\<lparr>rr_source_kind := Some k\<rparr>) k spec name
                (obsolete_sources L k name helm git oci))) w = (x, w')"
      then show "own_step expected (meta_namespace c) (own_places L (object_key c)) (V w) (V w')"
        by (rule own_existing_sources [OF server keys]) simp
    qed
  next
    case (Some pc)
    with laws show ?thesis by (rule own_deploy_source)
  qed
  show ?thesis
    unfolding deploy_phases_def
    by (auto intro!: own_bind source own_copy_secrets [OF server lib] own_remove_secrets [OF server keys]
        own_ensure_namespace [OF server] own_deploy_release [OF server])
qed

lemma access_same:
  assumes "server_law V L r"
  shows "access_reconcile (access_reconciler r) req w = (y, w') \<Longrightarrow> V w' = V w"
    and "access_request_of (access_reconciler r) req w = (z, w') \<Longrightarrow> V w' = V w"
    and "access_cluster (access_reconciler r) req w = (u, w') \<Longrightarrow> V w' = V w"
    and "access_reconcile_delete (access_reconciler r) req w = (y, w') \<Longrightarrow> V w' = V w"
  using assms unfolding server_law_def access_honest_def by (metis snd_conv)+

lemma own_deploy_with_access:
  assumes laws: "deploy_laws V L r expected"
  shows "own_steps.minds expected (meta_namespace c) (own_places L (object_key c)) V (deploy_with_access L r c expected rr)"
proof (rule own_steps.mindsI)
  have server: "server_law V L r" using laws by (simp add: deploy_laws_def)
  fix w x w'
  assume "deploy_with_access L r c expected rr w = (x, w')"
  then show "own_step expected (meta_namespace c) (own_places L (object_key c)) (V w) (V w')"
    by (auto simp: deploy_with_access_def Let_def split: prod.splits option.splits if_splits
        dest!: access_same [OF server] own_steps.mindsD [OF own_deploy_phases [OF laws]])
qed

lemma own_cleanup_with_access:
  assumes laws: "deploy_laws V L r expected"
  shows "own_steps.minds expected (meta_namespace c) own V (cleanup_with_access L r c expected rr)"
proof (rule own_steps.mindsI)
  have server: "server_law V L r" and project: "project_law L" and keys: "fst ` set expected \<subseteq> managed_labels L"
    using laws by (simp_all add: deploy_laws_def)
  have remove: "own_steps.minds expected (meta_namespace c) own V (remove_secrets L r target_cluster_namespace expected rr TargetClusterCopy keep)"
    "own_steps.minds expected (meta_namespace c) own V (remove_secrets L r (meta_namespace c) expected rr PlatformClusterCopy keep)" for rr keep
    by (rule own_remove_secrets [OF server keys]; simp)+
  have target: "own_steps.minds expected (meta_namespace c) own V (remove_target_secrets L r c expected ar rr)" for ar rr
    by (rule own_steps.mindsI)
       (auto simp: remove_target_secrets_def split: option.splits prod.splits if_splits
         dest!: access_same [OF server] own_steps.mindsD [OF remove(1)])
  have access: "own_steps.minds expected (meta_namespace c) own V (delete_access r c rr)" for rr
    by (rule own_steps.mindsI)
       (auto simp: delete_access_def split: option.splits prod.splits if_splits dest!: access_same [OF server])
  have phases: "own_steps.minds expected (meta_namespace c) own V (cleanup_phases L r c expected ar rr)" for ar rr
    unfolding cleanup_phases_def
    by (intro own_steps.minds_chain target access remove(2) own_undeploy_source [OF server project keys])
  fix w x w'
  assume "cleanup_with_access L r c expected rr w = (x, w')"
  then show "own_step expected (meta_namespace c) own (V w) (V w')"
    by (auto simp: cleanup_with_access_def Let_def split: prod.splits option.splits if_splits
        dest!: access_same [OF server] own_steps.mindsD [OF phases])
qed

text \<open>From here on the view is that of the controller's state.\<close>

abbreviation seen :: "('w \<Rightarrow> objects) \<Rightarrow> 'w controller_state \<Rightarrow> objects" where
  "seen V s \<equiv> V (world s)"

lemma own_patch:
  assumes server: "server_law V L r" and "api_patch (clusters_api (platform r)) c c1 w = (ans, w')"
    and "object_key c1 = object_key c"
  shows "own_step expected (meta_namespace c) (own_places L (object_key c)) (V w) (V w')"
    and "ans = Inr c2 \<Longrightarrow> object_key c2 = object_key c"
proof -
  note patched = honest_patch [OF server_law_clusters [OF server] assms(2)]
  show "own_step expected (meta_namespace c) (own_places L (object_key c)) (V w) (V w')"
  proof (cases ans)
    case (Inl e)
    with patched(1) show ?thesis by simp
  next
    case (Inr obj)
    from patched(2) [OF Inr] obtain left where
      view: "V w' = (V w)((OnPlatform, RCluster, object_key c1) := left)" by blast
    show ?thesis unfolding view assms(3) by (rule own_step_update) simp_all
  qed
  show "object_key c2 = object_key c" if "ans = Inr c2" using patched(2) [OF that] assms(3) by simp
qed

lemma own_create:
  assumes laws: "deploy_laws V L r expected"
  shows "own_steps.minds expected (meta_namespace c) (own_places L (object_key c)) (seen V) (create_after_finalizer L r c expected rr)"
proof (rule own_steps.mindsI)
  fix s x s'
  assume "create_after_finalizer L r c expected rr s = (x, s')"
  then show "own_step expected (meta_namespace c) (own_places L (object_key c)) (V (world s)) (V (world s'))"
    by (auto simp: create_after_finalizer_def
        dest!: own_steps.mindsD [OF own_steps.minds_on_world [OF own_deploy_with_access [OF laws]]])
qed

lemma own_handle_create:
  assumes laws: "deploy_laws V L r expected"
  shows "own_steps.minds expected (meta_namespace c) (own_places L (object_key c)) (seen V) (handle_create_or_update L r c expected rr)"
proof (rule own_steps.mindsI)
  have server: "server_law V L r" using laws by (simp add: deploy_laws_def)
  fix s x s'
  assume run: "handle_create_or_update L r c expected rr s = (x, s')"
  obtain changed fins where fin: "lib_add_finalizer L (cluster_finalizer L) (meta_finalizers c) = (changed, fins)"
    by (cases "lib_add_finalizer L (cluster_finalizer L) (meta_finalizers c)")
  let ?c = "c\<lparr>meta_finalizers := fins\<rparr>"
  have key: "object_key ?c = object_key c" by (simp add: object_key_def)
  show "own_step expected (meta_namespace c) (own_places L (object_key c)) (V (world s)) (V (world s'))"
  proof (cases changed)
    case False
    with run fin have "create_after_finalizer L r ?c expected rr s = (x, s')"
      by (simp add: handle_create_or_update_def Let_def)
    from own_steps.mindsD [OF own_create [OF laws] this] show ?thesis by (simp add: key)
  next
    case True
    obtain ans w1 where patch: "api_patch (clusters_api (platform r)) c ?c (world s) = (ans, w1)"
      by (cases "api_patch (clusters_api (platform r)) c ?c (world s)")
    note first = own_patch [OF server patch key]
    show ?thesis
    proof (cases ans)
      case (Inl e)
      with run fin True patch first(1) show ?thesis by (auto simp: handle_create_or_update_def Let_def)
    next
      case (Inr c2)
      with run fin True patch have "create_after_finalizer L r c2 expected rr (s\<lparr>world := w1\<rparr>) = (x, s')"
        by (simp add: handle_create_or_update_def Let_def)
      have "meta_namespace c2 = meta_namespace c" using first(2) [OF Inr] by (metis object_key_simps(1))
      with own_steps.mindsD [OF own_create [OF laws] \<open>create_after_finalizer L r c2 expected rr _ = _\<close>] first(2) [OF Inr]
      have "own_step expected (meta_namespace c) (own_places L (object_key c)) (V w1) (V (world s'))" by simp
      with first(1) show ?thesis by (rule own_steps.further)
    qed
  qed
qed

lemma own_release_cluster:
  assumes server: "server_law V L r"
  shows "own_steps.minds expected (meta_namespace c) (own_places L (object_key c)) (seen V) (release_cluster L r c rr)"
proof (rule own_steps.mindsI)
  fix s x s'
  assume run: "release_cluster L r c rr s = (x, s')"
  obtain changed fins where fin: "lib_remove_finalizer L (cluster_finalizer L) (meta_finalizers c) = (changed, fins)"
    by (cases "lib_remove_finalizer L (cluster_finalizer L) (meta_finalizers c)")
  let ?c = "c\<lparr>meta_finalizers := fins\<rparr>"
  have key: "object_key ?c = object_key c" by (simp add: object_key_def)
  obtain ans w1 where patch: "api_patch (clusters_api (platform r)) c ?c (world s) = (ans, w1)"
    by (cases "api_patch (clusters_api (platform r)) c ?c (world s)")
  from run fin patch own_patch(1) [OF server patch key]
  show "own_step expected (meta_namespace c) (own_places L (object_key c)) (V (world s)) (V (world s'))"
    by (cases ans) (auto simp: release_cluster_def Let_def split: if_splits)
qed

lemma own_handle_delete:
  assumes laws: "deploy_laws V L r expected"
  shows "own_steps.minds expected (meta_namespace c) (own_places L (object_key c)) (seen V) (handle_delete L r c expected rr)"
proof (rule own_steps.mindsI)
  have server: "server_law V L r" using laws by (simp add: deploy_laws_def)
  let ?chain = "chain (on_world (undeploy_helm_release L r c expected rr)) (\<lambda>rr.
    chain (on_world (cleanup_with_access L r c expected rr)) (\<lambda>rr. release_cluster L r c rr))"
  have chain: "own_steps.minds expected (meta_namespace c) (own_places L (object_key c)) (seen V) ?chain"
    by (intro own_steps.minds_chain own_steps.minds_on_world own_undeploy_release [OF server]
        own_cleanup_with_access [OF laws] own_release_cluster [OF server])
  fix s x s'
  assume run: "handle_delete L r c expected rr s = (x, s')"
  show "own_step expected (meta_namespace c) (own_places L (object_key c)) (V (world s)) (V (world s'))"
  proof (cases "cluster_finalizer L \<in> set (meta_finalizers c)")
    case True
    with run have "?chain s = (x, s')" by (simp add: handle_delete_def)
    with chain show ?thesis by (rule own_steps.mindsD)
  next
    case False
    with run show ?thesis by (auto simp: handle_delete_def)
  qed
qed

lemma own_reconcile_loaded:
  assumes laws: "outcome_laws V L r"
  shows "own_steps.minds (expected_labels L r (meta_name c)) (meta_namespace c) (own_places L (object_key c)) (seen V) (reconcile_loaded L r c)"
proof (rule own_steps.mindsI)
  have server: "server_law V L r" using laws by (simp add: outcome_laws_def)
  have kinds: "kind_honest (managed_labels L) V OnPlatform RConfig AConfig (configs_api (platform r))"
    "kind_honest (managed_labels L) V OnPlatform RService AService (services_api (platform r))"
    using server by (simp_all add: server_law_def client_honest_def)
  let ?expected = "expected_labels L r (meta_name c)" and ?own = "own_places L (object_key c)"
  have configured: "own_steps.minds ?expected (meta_namespace c) ?own (seen V) (reconcile_configured L r c ?expected rr config)" for rr config
    using own_handle_create [OF outcome_laws_deploy [OF laws]] own_handle_delete [OF outcome_laws_deploy [OF laws]]
    by (auto simp: reconcile_configured_def Let_def)
  fix s x s'
  assume run: "reconcile_loaded L r c s = (x, s')"
  obtain a1 w1 where 1: "api_get (configs_api (platform r)) (service_key r) (world s) = (a1, w1)"
    by (cases "api_get (configs_api (platform r)) (service_key r) (world s)")
  obtain a2 w2 where 2: "api_get (services_api (platform r)) (service_key r) w1 = (a2, w2)"
    by (cases "api_get (services_api (platform r)) (service_key r) w1")
  have views: "V w1 = V (world s)" "V w2 = V (world s)"
    using honest_get(1) [OF kinds(1) 1] honest_get(1) [OF kinds(2) 2] by simp_all
  have "world s' = w1 \<or> world s' = w2 \<or>
      (\<exists>rr config. reconcile_configured L r c ?expected rr config (s\<lparr>world := w2\<rparr>) = (x, s'))"
    using run 1 2 by (auto simp: reconcile_loaded_def Let_def service_key_def split: sum.splits)
  then show "own_step ?expected (meta_namespace c) ?own (V (world s)) (V (world s'))"
    using views own_steps.mindsD [OF configured] by fastforce
qed

text \<open>The view changes only as it should, in a whole run.\<close>

lemma run_own_step:
  assumes laws: "outcome_laws V L r" and run: "Reconcile L r req s = (x, s')"
  shows "own_step (expected_labels L r (nn_name req)) (nn_namespace req) (own_places L req) (V (world s)) (V (world s'))"
proof -
  have server: "server_law V L r" using laws by (simp add: outcome_laws_def)
  note honest = server_law_clusters [OF server]
  obtain ans w1 where get: "api_get (clusters_api (platform r)) req (world s) = (ans, w1)"
    by (cases "api_get (clusters_api (platform r)) req (world s)")
  note same = honest_get(1) [OF honest get]
  show ?thesis
  proof (cases ans)
    case (Inl e)
    with run get same show ?thesis by (auto simp: Reconcile_def split: if_splits)
  next
    case (Inr c)
    have key: "object_key c = req" using honest_get(2) [OF honest get Inr] by simp
    let ?expected = "expected_labels L r (nn_name req)" and ?own = "own_places L req"
    have loaded: "own_step ?expected (nn_namespace req) ?own (V w) (V (world s2))"
      if "reconcile_loaded L r c' (s\<lparr>world := w\<rparr>) = (y, s2)" "object_key c' = req" for c' w y s2
      using own_steps.mindsD [OF own_reconcile_loaded [OF laws] that(1)] that(2) by auto
    obtain y s2 where loop: "reconcile_cluster L r c (s\<lparr>world := w1\<rparr>) = (y, s2)"
      by (cases "reconcile_cluster L r c (s\<lparr>world := w1\<rparr>)")
    have "own_step ?expected (nn_namespace req) ?own (V w1) (V (world s2))"
    proof (cases "requested_operation L c = Some (lib_operation_ignore L) \<or>
        requested_operation L c \<noteq> Some (lib_operation_reconcile L)")
      case True
      with loop show ?thesis using loaded [of c w1 y s2] key by (auto simp: reconcile_cluster_def split: if_splits)
    next
      case False
      obtain res w2 where call: "lib_remove_annotation L (lib_operation_annotation L) c w1 = (res, w2)"
        by (cases "lib_remove_annotation L (lib_operation_annotation L) c w1")
      have removed: "case res of
          Inl e \<Rightarrow> V w2 = V w1
        | Inr c' \<Rightarrow> \<exists>anns. c' = c\<lparr>meta_annotations := anns\<rparr> \<and>
            V w2 = (V w1)((OnPlatform, RCluster, object_key c) \<mapsto> ACluster c')"
        using server call unfolding server_law_def annotation_honest_def by blast
      show ?thesis
      proof (cases res)
        case (Inl e)
        with loop False call removed show ?thesis by (auto simp: reconcile_cluster_def split: if_splits)
      next
        case (Inr c')
        with removed obtain anns where c': "c' = c\<lparr>meta_annotations := anns\<rparr>"
          and view: "V w2 = (V w1)((OnPlatform, RCluster, req) \<mapsto> ACluster c')" by (auto simp: key)
        have "own_step ?expected (nn_namespace req) ?own (V w1) (V w2)"
          unfolding view by (rule own_step_update) (auto simp: own_places_def)
        moreover have "own_step ?expected (nn_namespace req) ?own (V w2) (V (world s2))"
          using loop False call Inr key by (intro loaded [of c' w2 y]) (auto simp: reconcile_cluster_def object_key_def c')
        ultimately show ?thesis by (rule own_steps.further)
      qed
    qed
    moreover have "V (world s') = V (world s2)"
    proof -
      have "V (send_event r ev w) = V w" for ev w
        using server by (auto simp: send_event_def server_law_def event_honest_def split: option.split)
      with run get Inr loop show ?thesis by (cases y) (auto simp: Reconcile_def bind_st_def)
    qed
    ultimately show ?thesis using same by simp
  qed
qed

subsection \<open>Deployed Clusters side by side\<close>

text \<open>
  Clusters with different names, which do not live in the provider's namespace, and whose resources
  have different names where they share a namespace.
\<close>

definition separate :: "'w lib \<Rightarrow> 'w reconciler \<Rightarrow> namespaced_name \<Rightarrow> namespaced_name \<Rightarrow> bool" where
  "separate L r req other \<longleftrightarrow>
     nn_name req \<noteq> nn_name other \<and> nn_namespace req \<noteq> provider_namespace r \<and>
     (nn_namespace req = nn_namespace other \<longrightarrow>
        cluster_based_resource_name L (nn_name req) \<noteq> cluster_based_resource_name L (nn_name other))"

lemma purpose_of_labels:
  assumes "lib_managed_by_label L \<noteq> lib_managed_purpose_label L" and "map_of (expected_labels L r name) \<subseteq>\<^sub>m ls"
  shows "ls (lib_managed_purpose_label L) = Some name"
proof -
  have "map_of (expected_labels L r name) (lib_managed_purpose_label L) = Some name"
    using assms(1) by (simp add: expected_labels_def)
  with assms(2) show ?thesis unfolding map_le_def by (metis domI)
qed

lemma labelled_otherwise:
  assumes "lib_managed_by_label L \<noteq> lib_managed_purpose_label L" and "a \<noteq> b"
    and "map_of (expected_labels L r a) \<subseteq>\<^sub>m ls"
  shows "\<not> map_of (expected_labels L r b) \<subseteq>\<^sub>m ls"
proof
  assume "map_of (expected_labels L r b) \<subseteq>\<^sub>m ls"
  from purpose_of_labels [OF assms(1) this] purpose_of_labels [OF assms(1,3)] assms(2) show False by simp
qed

lemma labelled_survives:
  assumes step: "own_step (expected_labels L r (nn_name req)) at_home own v v'"
    and labels: "lib_managed_by_label L \<noteq> lib_managed_purpose_label L" "nn_name req \<noteq> name"
    and "v pl = Some obj" and "map_of (expected_labels L r name) \<subseteq>\<^sub>m meta_labels (any_meta obj)" and "pl \<notin> own"
  shows "v' pl = Some obj"
proof -
  have "\<not> ours (expected_labels L r (nn_name req)) (v pl)"
    using labelled_otherwise [OF labels(1) labels(2) [symmetric] assms(5)] assms(4) by (simp add: ours_def)
  then have "\<not> claimable (expected_labels L r (nn_name req)) at_home pl (v pl)"
    using assms(4) by (simp add: claimable_def)
  with step assms(4,6) show ?thesis unfolding own_step_def by metis
qed

lemma tidy_survives:
  assumes step: "own_step (expected_labels L r (nn_name req)) at_home own v v'"
    and labels: "lib_managed_by_label L \<noteq> lib_managed_purpose_label L" "nn_name req \<noteq> name"
    and "res = RSecret \<or> (\<exists>k. res = RSource k)" and "tidy (expected_labels L r name) sd res ns wanted v"
  shows "tidy (expected_labels L r name) sd res ns wanted v'"
  unfolding tidy_def
proof (intro allI impI, elim conjE)
  fix nn obj
  assume obj: "nn_namespace nn = ns" "v' (sd, res, nn) = Some obj"
    and mine: "map_of (expected_labels L r name) \<subseteq>\<^sub>m meta_labels (any_meta obj)"
  show "wanted nn \<or> meta_deleting (any_meta obj)"
  proof (cases "v' (sd, res, nn) = v (sd, res, nn)")
    case True
    with obj mine assms(5) show ?thesis unfolding tidy_def by metis
  next
    case False
    have "fst (snd (sd, res, nn)) \<notin> {RCluster, RNamespace, RRelease}" using assms(4) by auto
    with False step have "left_ours (expected_labels L r (nn_name req)) (Some obj)"
      unfolding own_step_def obj(2) [symmetric] by blast
    with labelled_otherwise [OF labels(1) labels(2) [symmetric] mine] show ?thesis by (simp add: left_ours_def)
  qed
qed

lemma synced_survives:
  assumes step: "own_step (expected_labels L r (nn_name req)) (nn_namespace req) (own_places L req) v v'"
    and labels: "lib_managed_by_label L \<noteq> lib_managed_purpose_label L" "nn_name req \<noteq> name"
    and apart: "nn_namespace req \<noteq> provider_namespace r"
    and synced: "secrets_synced L r (expected_labels L r name) ct ns entries rr v"
  shows "secrets_synced L r (expected_labels L r name) ct ns entries rr v'"
proof -
  let ?expected = "expected_labels L r name"
  from synced obtain sd where sd: "side_for ct rr sd" "copies_present L r ?expected sd ns entries v"
    "tidy ?expected sd RSecret ns (\<lambda>nn. nn_name nn \<in> snd ` set entries) v"
    by (auto simp: secrets_synced_def)
  have "copied_to L r ?expected v' s (sd, RSecret, nn)" if "copied_to L r ?expected v s (sd, RSecret, nn)" for s nn
  proof -
    from that obtain source copy where copied: "v (OnPlatform, RSecret, \<lparr>nn_namespace = provider_namespace r, nn_name = s\<rparr>) = Some (ASecret source)"
      "v (sd, RSecret, nn) = Some (ASecret copy)" "secret_data copy = secret_data source"
      "secret_type copy = secret_type source" "has_labels ?expected (meta_labels copy)"
      "secret_mutation L ?expected source copy = Mutated copy"
      unfolding copied_to_def by blast
    have "v' (sd, RSecret, nn) = Some (ASecret copy)"
      using has_labels_submap [OF copied(5)]
      by (intro labelled_survives [OF step labels copied(2)]) (simp_all add: own_places_def)
    moreover have "v' (OnPlatform, RSecret, \<lparr>nn_namespace = provider_namespace r, nn_name = s\<rparr>) = Some (ASecret source)"
    proof -
      let ?pl = "(OnPlatform, RSecret, \<lparr>nn_namespace = provider_namespace r, nn_name = s\<rparr>)"
      have "?pl \<notin> own_places L req" "\<not> claimable (expected_labels L r (nn_name req)) (nn_namespace req) ?pl (v ?pl)"
        using apart by (auto simp: own_places_def)
      with step have "v' ?pl = v ?pl" unfolding own_step_def by metis
      with copied(1) show ?thesis by simp
    qed
    ultimately show ?thesis using copied(3-6) unfolding copied_to_def by blast
  qed
  then have "copies_present L r ?expected sd ns entries v'"
    using sd(2) unfolding copies_present_def by blast
  with sd(1) tidy_survives [OF step labels _ sd(3)] show ?thesis by (auto simp: secrets_synced_def)
qed

lemma deployed_survives:
  assumes step: "own_step (expected_labels L r (nn_name req)) (nn_namespace req) (own_places L req) v v'"
    and laws: "outcome_laws V L r" and separate: "separate L r req other" and "other \<in> set known'"
    and deployed: "cluster_deployed L r other config svc v known"
  shows "cluster_deployed L r other config svc v' known'"
proof -
  let ?expected = "expected_labels L r (nn_name other)"
  have labels: "lib_managed_by_label L \<noteq> lib_managed_purpose_label L" and merge: "merge_law L"
    using laws by (simp_all add: outcome_laws_def)
  have names: "nn_name req \<noteq> nn_name other" and apart: "nn_namespace req \<noteq> provider_namespace r"
    using separate by (simp_all add: separate_def)
  have different: "other \<noteq> req" using names by auto
  from deployed obtain c rr where c: "asked_for r v other c config svc" "object_key c = other"
      "cluster_finalizer L \<in> set (meta_finalizers c)"
    and rr: "rr_config rr = select_config (spec_purposes (service_spec config)) (cluster_purposes c)"
      "rr_provider_config rr = Some config" "accessed r other rr"
    and before: "deployed L r c ?expected config svc rr v"
    unfolding cluster_deployed_def by blast
  have keys: "meta_namespace c = nn_namespace other" "meta_name c = nn_name other" using c(2) by auto
  have fixed: "v' pl = v pl" if "v pl \<noteq> None" "pl \<notin> own_places L req"
    "fst (snd pl) \<noteq> RSecret" "\<forall>k. fst (snd pl) \<noteq> RSource k" for pl
  proof -
    have "\<not> claimable (expected_labels L r (nn_name req)) (nn_namespace req) pl (v pl)"
      using that by (auto simp: claimable_def)
    with step that(2) show ?thesis unfolding own_step_def by metis
  qed
  have elsewhere: "(OnPlatform, res, \<lparr>nn_namespace = meta_namespace c, nn_name = name\<rparr>) \<notin> own_places L req"
    if "cluster_based_resource_name L (meta_name c) = Returned name" "res \<noteq> RCluster" for res name
    using separate that keys by (auto simp: own_places_def separate_def)
  have "asked_for r v' other c config svc"
    using c(1) different by (auto simp: asked_for_def own_places_def fixed)
  moreover have "source_current L c ?expected config k v'" if "source_current L c ?expected config k v" for k
  proof -
    from that obtain spec name src where src: "configured_source (spec_source (service_spec config)) = Some (k, spec)"
      "cluster_based_resource_name L (meta_name c) = Returned name"
      "v (OnPlatform, RSource k, \<lparr>nn_namespace = meta_namespace c, nn_name = name\<rparr>) = Some (ASource src)"
      "source_spec src = spec" "map_of ?expected \<subseteq>\<^sub>m meta_labels src" "source_mutation L c ?expected spec src = Mutated src"
      and tidy: "\<And>j. tidy ?expected OnPlatform (RSource j) (meta_namespace c) (\<lambda>nn. j = k \<and> nn_name nn = name) v"
      unfolding source_current_def by blast
    have "v' (OnPlatform, RSource k, \<lparr>nn_namespace = meta_namespace c, nn_name = name\<rparr>) = Some (ASource src)"
      using src(5) by (intro labelled_survives [OF step labels names src(3)] elsewhere [OF src(2)]) simp_all
    with src tidy_survives [OF step labels names _ tidy] show ?thesis unfolding source_current_def by blast
  qed
  moreover have "namespace_present target_cluster_namespace rr v'"
    using before by (auto simp: deployed_def namespace_present_def own_places_def fixed)
  moreover have "release_current L r c ?expected rr v'"
    using before elsewhere by (auto simp: deployed_def release_current_def fixed)
  moreover have "secrets_synced L r ?expected ct ns entries rr v'" if "secrets_synced L r ?expected ct ns entries rr v" for ct ns entries
    using synced_survives [OF step labels names apart that] .
  ultimately have "deployed L r c ?expected config svc rr v'"
    using before unfolding deployed_def by blast
  with c(2,3) rr assms(4) \<open>asked_for r v' other c config svc\<close> show ?thesis unfolding cluster_deployed_def by blast
qed

subsection \<open>Runs for other Clusters\<close>

lemma server_touches:
  assumes "server_law V L r" and "Reconcile L r req s = (x, s')"
  shows "touches req (known_clusters s) (known_clusters s')"
proof -
  note honest = server_law_clusters [OF assms(1)]
  have "get_law r" unfolding get_law_def using honest_get(2) [OF honest] by blast
  moreover have "patch_law r" unfolding patch_law_def using honest_patch(2) [OF honest] by blast
  moreover have "annotation_law L" unfolding annotation_law_def
  proof (intro allI impI)
    fix k c w c' w'
    assume "lib_remove_annotation L k c w = (Inr c', w')"
    with assms(1) have "\<exists>anns. c' = c\<lparr>meta_annotations := anns\<rparr>"
      unfolding server_law_def annotation_honest_def by fastforce
    then show "object_key c' = object_key c" by (auto simp: object_key_def)
  qed
  ultimately show ?thesis using assms(2) by (rule Reconcile_touches)
qed

inductive runs_for_others ::
  "'w lib \<Rightarrow> 'w reconciler \<Rightarrow> namespaced_name \<Rightarrow> 'w controller_state \<Rightarrow> 'w controller_state \<Rightarrow> bool"
  for L r key where
  no_run: "runs_for_others L r key s s"
| run_for: "runs_for_others L r key s s1 \<Longrightarrow> separate L r req key \<Longrightarrow> Reconcile L r req s1 = (x, s2) \<Longrightarrow>
    runs_for_others L r key s s2"

lemma run_for_other:
  assumes laws: "outcome_laws V L r" and separate: "separate L r req key" and run: "Reconcile L r req s = (x, s')"
    and deployed: "cluster_deployed L r key config svc (V (world s)) (known_clusters s)"
  shows "cluster_deployed L r key config svc (V (world s')) (known_clusters s')"
proof (rule deployed_survives [OF run_own_step [OF laws run] laws separate _ deployed])
  have "touches req (known_clusters s) (known_clusters s')"
    using laws run by (intro server_touches) (auto simp: outcome_laws_def)
  moreover have "key \<noteq> req" using separate by (auto simp: separate_def)
  moreover have "key \<in> set (known_clusters s)" using deployed by (simp add: cluster_deployed_def)
  ultimately show "key \<in> set (known_clusters s')" by (auto dest!: touches_members)
qed

subsection \<open>Two Clusters in one namespace\<close>

text \<open>A copy on the platform cluster names the Cluster that it was made for.\<close>

lemma deployed_copy:
  assumes "cluster_deployed L r key config svc v known"
    and "t \<in> snd ` set (secret_entries config svc PlatformClusterCopy)"
  shows "\<exists>copy. v (OnPlatform, RSecret, \<lparr>nn_namespace = nn_namespace key, nn_name = t\<rparr>) = Some (ASecret copy) \<and>
    map_of (expected_labels L r (nn_name key)) \<subseteq>\<^sub>m meta_labels copy"
proof -
  from assms(1) obtain c :: cluster and rr where "object_key c = key"
    "secrets_synced L r (expected_labels L r (nn_name key)) PlatformClusterCopy (meta_namespace c)
       (secret_entries config svc PlatformClusterCopy) rr v"
    unfolding cluster_deployed_def deployed_def by blast
  then have "copies_present L r (expected_labels L r (nn_name key)) OnPlatform (nn_namespace key)
      (secret_entries config svc PlatformClusterCopy) v"
    by (auto simp: secrets_synced_def side_for_def object_key_def)
  with assms(2) obtain s where
    "copied_to L r (expected_labels L r (nn_name key)) v s (OnPlatform, RSecret, \<lparr>nn_namespace = nn_namespace key, nn_name = t\<rparr>)"
    unfolding copies_present_def by blast
  then show ?thesis by (auto simp: copied_to_def has_labels_submap)
qed

lemma not_both_deployed:
  assumes "lib_managed_by_label L \<noteq> lib_managed_purpose_label L"
    and "nn_namespace a = nn_namespace b" and "nn_name a \<noteq> nn_name b"
    and "v (OnPlatform, RSecret, \<lparr>nn_namespace = nn_namespace b, nn_name = t\<rparr>) = Some (ASecret copy)"
    and "map_of (expected_labels L r (nn_name b)) \<subseteq>\<^sub>m meta_labels copy"
    and "t \<in> snd ` set (secret_entries config svc PlatformClusterCopy)"
  shows "\<not> cluster_deployed L r a config svc v known"
proof
  assume "cluster_deployed L r a config svc v known"
  from deployed_copy [OF this assms(6)] assms(2,4)
  have "map_of (expected_labels L r (nn_name a)) \<subseteq>\<^sub>m meta_labels copy" by simp
  with labelled_otherwise [OF assms(1,3)] assms(5) show False by blast
qed

subsection \<open>Properties\<close>

text \<open>
  C4. With an honest server, a Cluster that is deployed as configured stays so under any number of runs
  for other Clusters, which may succeed, fail or panic, as long as these have other names, do not live
  in the provider's namespace and do not get the same resource name in the same namespace: their runs
  leave its finalizer, its copied secrets, source, namespace and HelmRelease and its entry in the
  registry alone.
\<close>

theorem neighbours_stay_deployed:
  assumes "outcome_laws V L r" and "runs_for_others L r key s s'"
    and "cluster_deployed L r key config svc (V (world s)) (known_clusters s)"
  shows "cluster_deployed L r key config svc (V (world s')) (known_clusters s')"
  using assms(2,3)
  by (induction rule: runs_for_others.induct) (auto intro: run_for_other [OF assms(1)])

text \<open>
  C5. When secrets are copied to the platform cluster, a namespace serves one Cluster: once a Cluster is
  deployed, no run for a wanted Cluster of another name in the same namespace ends without error and
  without a request to come back, and none leaves it deployed. The copies have the same name for both
  and carry the name of the first one as label, for which the second one takes them for foreign.
\<close>

theorem namespace_serves_one_cluster:
  assumes laws: "outcome_laws V L r" and apart: "nn_namespace req \<noteq> provider_namespace r"
    and neighbours: "nn_namespace req = nn_namespace key" "nn_name req \<noteq> nn_name key"
    and deployed: "cluster_deployed L r key config svc (V (world s)) (known_clusters s)"
    and copied: "secret_entries config svc PlatformClusterCopy \<noteq> []"
    and stored: "asked_for r (V (world s)) req c config svc" and wanted: "wanted_cluster c config"
    and op: "requested_operation L c \<noteq> Some (lib_operation_ignore L)"
    and run: "Reconcile L r req s = (x, s')"
  shows "\<not> cluster_deployed L r req config svc (V (world s')) (known_clusters s') \<and>
    (\<forall>res. x = Returned (res, None) \<longrightarrow> 0 < requeue_after res)"
proof -
  have labels: "lib_managed_by_label L \<noteq> lib_managed_purpose_label L" using laws by (simp add: outcome_laws_def)
  from copied obtain t where t: "t \<in> snd ` set (secret_entries config svc PlatformClusterCopy)"
    by (meson equals0I image_is_empty set_empty)
  let ?pl = "(OnPlatform, RSecret, \<lparr>nn_namespace = nn_namespace key, nn_name = t\<rparr>)"
  from deployed_copy [OF deployed t] obtain copy where copy: "V (world s) ?pl = Some (ASecret copy)"
    "map_of (expected_labels L r (nn_name key)) \<subseteq>\<^sub>m meta_labels copy" by blast
  have "V (world s') ?pl = Some (ASecret copy)"
    using copy(2) by (intro labelled_survives [OF run_own_step [OF laws run] labels neighbours(2) copy(1)])
      (simp_all add: own_places_def)
  then have never: "\<not> cluster_deployed L r req config svc (V (world s')) (known_clusters s')"
    using not_both_deployed [OF labels neighbours _ copy(2) t, where v = "V (world s')"] by blast
  moreover have "0 < requeue_after res" if "x = Returned (res, None)" for res
    using run_deploys [OF laws stored wanted op apart run [unfolded that]] never by fastforce
  ultimately show ?thesis by blast
qed

end
