(* ===== verification/Progress.thy ===== *)
theory Progress
  imports Outcomes
begin

section \<open>Runs that succeed\<close>

text \<open>
  The outcomes of \<open>Outcomes\<close> speak about runs that end without error. Here such runs are shown to
  exist: on a server that answers every call as it is asked to, and with everything in place that the
  configuration refers to, a run succeeds. \<open>succeeds\<close> is the contract for that: from every view that
  satisfies the precondition the computation returns, with a result as stated. What it leaves alone is
  known from its \<open>effect\<close>.
\<close>

subsection \<open>Reliable servers\<close>

definition kind_reliable ::
  "('w \<Rightarrow> objects) \<Rightarrow> side \<Rightarrow> resource \<Rightarrow> ('o object_meta_scheme \<Rightarrow> any_object) \<Rightarrow>
   ('o object_meta_scheme, 'w) kind_api \<Rightarrow> bool" where
  "kind_reliable V sd res wrap api \<longleftrightarrow>
     (\<forall>w k obj. V w (sd, res, k) = Some (wrap obj) \<longrightarrow> fst (api_get api k w) = Inr obj) \<and>
     (\<forall>w k. V w (sd, res, k) = None \<longrightarrow> fst (api_get api k w) = Inl NotFound) \<and>
     (\<forall>ns ls w. \<exists>objs. fst (api_list api ns ls w) = Inr objs) \<and>
     (\<forall>obj w. fst (api_create api obj w) \<in> {None, Some AlreadyExists}) \<and>
     (\<forall>old new w. V w (sd, res, object_key new) \<noteq> None \<longrightarrow> (\<exists>obj. fst (api_patch api old new w) = Inr obj)) \<and>
     (\<forall>k w. fst (api_delete api k w) \<in> {None, Some NotFound}) \<and>
     (\<forall>obj f w. (\<forall>base. object_key base = object_key obj \<longrightarrow>
          (\<exists>new. f base = Mutated new \<and> object_key new = object_key obj)) \<longrightarrow>
        (\<exists>new. fst (api_upsert api obj f w) = Returned (Inr new)))"

definition client_reliable :: "('w \<Rightarrow> objects) \<Rightarrow> side \<Rightarrow> 'w client \<Rightarrow> bool" where
  "client_reliable V sd cl \<longleftrightarrow>
     kind_reliable V sd RCluster ACluster (clusters_api cl) \<and>
     kind_reliable V sd RConfig AConfig (configs_api cl) \<and>
     kind_reliable V sd RService AService (services_api cl) \<and>
     kind_reliable V sd RSecret ASecret (secrets_api cl) \<and>
     kind_reliable V sd RNamespace ANamespace (namespaces_api cl) \<and>
     (\<forall>k. kind_reliable V sd (RSource k) ASource (sources_api cl k)) \<and>
     kind_reliable V sd RRelease ARelease (releases_api cl)"

definition server_reliable :: "('w \<Rightarrow> objects) \<Rightarrow> 'w lib \<Rightarrow> 'w reconciler \<Rightarrow> bool" where
  "server_reliable V L r \<longleftrightarrow>
     client_reliable V OnPlatform (platform r) \<and>
     (\<forall>a cl. lib_client_of L a = Some cl \<longrightarrow> client_reliable V (OnTarget a) cl) \<and>
     (\<forall>k c w. \<exists>c'. fst (lib_remove_annotation L k c w) = Inr c')"

text \<open>Access to the Cluster is there: the request is granted and names a secret.\<close>

definition access_granted :: "'w lib \<Rightarrow> 'w reconciler \<Rightarrow> namespaced_name \<Rightarrow> target \<Rightarrow> access_request \<Rightarrow> bool" where
  "access_granted L r req a ar \<longleftrightarrow>
     lib_client_of L a \<noteq> None \<and> request_secret_ref ar \<noteq> None \<and>
     (\<forall>w. \<exists>d. fst (access_reconcile (access_reconciler r) req w) = (\<lparr>requeue_after = d\<rparr>, None) \<and> d \<le> 0) \<and>
     (\<forall>w. fst (access_request_of (access_reconciler r) req w) = (Some ar, None)) \<and>
     (\<forall>w. fst (access_cluster (access_reconciler r) req w) = (Some a, None)) \<and>
     (\<forall>w. \<exists>d. fst (access_reconcile_delete (access_reconciler r) req w) = (\<lparr>requeue_after = d\<rparr>, None) \<and> d \<le> 0)"

subsection \<open>The contract\<close>

definition succeeds ::
  "('w \<Rightarrow> objects) \<Rightarrow> (objects \<Rightarrow> bool) \<Rightarrow> ('w, 'a) comp \<Rightarrow> ('a \<Rightarrow> bool) \<Rightarrow> bool" where
  "succeeds V P m Q \<longleftrightarrow> (\<forall>w. P (V w) \<longrightarrow> (\<exists>a w'. m w = (Returned a, w') \<and> Q a))"

lemma succeedsI: "(\<And>w. P (V w) \<Longrightarrow> \<exists>a w'. m w = (Returned a, w') \<and> Q a) \<Longrightarrow> succeeds V P m Q"
  by (simp add: succeeds_def)

lemma succeedsE:
  assumes "succeeds V P m Q" and "P (V w)"
  obtains a w' where "m w = (Returned a, w')" "Q a"
  using assms by (auto simp: succeeds_def)

lemma succeeds_conseq:
  "succeeds V P m Q \<Longrightarrow> (\<And>v. P' v \<Longrightarrow> P v) \<Longrightarrow> (\<And>a. Q a \<Longrightarrow> Q' a) \<Longrightarrow> succeeds V P' m Q'"
  unfolding succeeds_def by blast

lemma succeeds_return: "Q a \<Longrightarrow> succeeds V P (return_st a) Q"
  by (simp add: succeeds_def return_st_def)

lemma succeeds_bind:
  assumes m: "succeeds V P m Q" and eff: "effect V R m E"
    and keep: "\<And>a v v'. P v \<Longrightarrow> Q a \<Longrightarrow> same_off R v v' \<Longrightarrow> E a v v' \<Longrightarrow> P' v'"
    and f: "\<And>a. Q a \<Longrightarrow> succeeds V P' (f a) S"
  shows "succeeds V P (bind_st m f) S"
proof (rule succeedsI)
  fix w
  assume P: "P (V w)"
  obtain a w1 where first: "m w = (Returned a, w1)" "Q a" by (rule succeedsE [OF m P])
  have "P' (V w1)" using keep [OF P first(2)] effectD [OF eff first(1)] by simp
  from succeedsE [OF f [OF first(2)] this] obtain b w2 where "f a w1 = (Returned b, w2)" "S b" .
  with first(1) show "\<exists>b w'. bind_st m f w = (Returned b, w') \<and> S b" by (simp add: bind_st_def)
qed

text \<open>A phase succeeds when it returns and lets the run go on.\<close>

lemma succeeds_chain:
  assumes m: "succeeds V P m (\<lambda>rr. \<not> stopped rr \<and> Q rr)" and eff: "achieves V R m E"
    and keep: "\<And>rr v v'. P v \<Longrightarrow> Q rr \<Longrightarrow> same_off R v v' \<Longrightarrow> E rr v v' \<Longrightarrow> P' v'"
    and f: "\<And>rr. \<not> stopped rr \<Longrightarrow> Q rr \<Longrightarrow> succeeds V P' (f rr) S"
  shows "succeeds V P (chain m f) S"
  unfolding chain_def
proof (rule succeeds_bind [OF m eff [unfolded achieves_def], where P' = P'])
  show "succeeds V P' (if stopped rr then return_st rr else f rr) S" if "\<not> stopped rr \<and> Q rr" for rr
    using f that by simp
qed (use keep in blast)

subsection \<open>Secrets\<close>

definition secrets_ready ::
  "'w reconciler \<Rightarrow> (string \<times> string) list \<Rightarrow> side \<Rightarrow> string \<Rightarrow> (string \<times> string) list \<Rightarrow> objects \<Rightarrow> bool" where
  "secrets_ready r expected sd ns entries v \<longleftrightarrow>
     (\<forall>(s, t) \<in> set entries.
        v (OnPlatform, RSecret, \<lparr>nn_namespace = provider_namespace r, nn_name = s\<rparr>) \<noteq> None \<and>
        (\<forall>obj. v (sd, RSecret, \<lparr>nn_namespace = ns, nn_name = t\<rparr>) = Some (ASecret obj) \<longrightarrow>
           has_labels expected (meta_labels obj)))"

lemma reliable_get:
  assumes "kind_honest K V sd res wrap api" and "kind_reliable V sd res wrap api"
  shows "V w (sd, res, k) = Some (wrap obj) \<Longrightarrow> \<exists>w'. api_get api k w = (Inr obj, w') \<and> V w' = V w"
    and "V w (sd, res, k) = None \<Longrightarrow> \<exists>w'. api_get api k w = (Inl NotFound, w') \<and> V w' = V w"
proof -
  have "V (snd (api_get api k w)) = V w" using honest_get(1) [OF assms(1)] by (metis prod.collapse)
  moreover have "V w (sd, res, k) = Some (wrap obj) \<Longrightarrow> fst (api_get api k w) = Inr obj"
    "V w (sd, res, k) = None \<Longrightarrow> fst (api_get api k w) = Inl NotFound"
    using assms(2) unfolding kind_reliable_def by blast+
  ultimately show "V w (sd, res, k) = Some (wrap obj) \<Longrightarrow> \<exists>w'. api_get api k w = (Inr obj, w') \<and> V w' = V w"
    and "V w (sd, res, k) = None \<Longrightarrow> \<exists>w'. api_get api k w = (Inl NotFound, w') \<and> V w' = V w"
    by (cases "api_get api k w"; simp)+
qed

lemma reliable_upsert:
  assumes "kind_reliable V sd res wrap api"
    and "\<And>base. object_key base = object_key obj \<Longrightarrow> \<exists>new. f base = Mutated new \<and> object_key new = object_key obj"
  shows "\<exists>new w'. api_upsert api obj f w = (Returned (Inr new), w')"
  using assms unfolding kind_reliable_def by (metis prod.collapse)

lemma reliable_delete:
  assumes "kind_reliable V sd res wrap api"
  shows "\<exists>res w'. api_delete api k w = (res, w') \<and> ignore_not_found res = None"
proof -
  have "fst (api_delete api k w) \<in> {None, Some NotFound}"
    using assms unfolding kind_reliable_def by blast
  then show ?thesis by (cases "api_delete api k w") (auto simp: ignore_not_found_def)
qed

lemma reliable_list:
  assumes "kind_reliable V sd res wrap api"
  shows "\<exists>objs w'. api_list api ns ls w = (Inr objs, w')"
  using assms unfolding kind_reliable_def by (metis prod.collapse)

lemma write_secret_succeeds:
  assumes "kind_reliable V sd RSecret ASecret (secrets_api access)"
  shows "\<exists>copied' w'. write_secret L access why expected source copied target w = (Returned (None, copied'), w')"
proof -
  have "\<exists>new. secret_mutation L expected source base = Mutated new \<and> object_key new = object_key target"
    if "object_key base = object_key target" for base
    using that by (auto simp: secret_mutation_def object_key_def)
  from reliable_upsert [OF assms, where f = "secret_mutation L expected source", OF this] obtain new w' where
    "api_upsert (secrets_api access) target (secret_mutation L expected source) w = (Returned (Inr new), w')"
    by blast
  then show ?thesis by (simp add: write_secret_def)
qed

lemma copy_secret_succeeds:
  assumes platform: "kind_honest K V OnPlatform RSecret ASecret (secrets_api (platform r))"
      "kind_reliable V OnPlatform RSecret ASecret (secrets_api (platform r))"
    and target: "kind_honest K V sd RSecret ASecret (secrets_api access)"
      "kind_reliable V sd RSecret ASecret (secrets_api access)"
    and "(s, t) \<in> set entries"
  shows "succeeds V (secrets_ready r expected sd ns entries)
    (copy_secret L r ct access why ns expected s t copied) (\<lambda>res. fst res = None)"
proof (rule succeedsI)
  fix w
  let ?skey = "\<lparr>nn_namespace = provider_namespace r, nn_name = s\<rparr>"
  let ?tkey = "\<lparr>nn_namespace = ns, nn_name = t\<rparr>"
  assume ready: "secrets_ready r expected sd ns entries (V w)"
  then have "V w (OnPlatform, RSecret, ?skey) \<noteq> None"
    using assms(5) by (auto simp: secrets_ready_def)
  then obtain source where "V w (OnPlatform, RSecret, ?skey) = Some (ASecret source)"
    using honest_stored [OF platform(1)] by blast
  from reliable_get(1) [OF platform this] obtain w1 where
    src: "api_get (secrets_api (platform r)) ?skey w = (Inr source, w1)" "V w1 = V w" by blast
  obtain tgt w2 where tgt: "api_get (secrets_api access) ?tkey w1 = (tgt, w2)"
    "tgt = Inl NotFound \<or> (\<exists>obj. tgt = Inr obj \<and> has_labels expected (meta_labels obj))"
  proof (cases "V w (sd, RSecret, ?tkey)")
    case None
    with reliable_get(2) [OF target, of w1 ?tkey] src(2) that show ?thesis by auto
  next
    case (Some x)
    then obtain obj where obj: "V w (sd, RSecret, ?tkey) = Some (ASecret obj)"
      using honest_stored [OF target(1)] by blast
    with ready assms(5) have "has_labels expected (meta_labels obj)" by (auto simp: secrets_ready_def)
    with reliable_get(1) [OF target, of w1 ?tkey obj] obj src(2) that show ?thesis by auto
  qed
  note written = write_secret_succeeds [OF target(2)]
  show "\<exists>a w'. copy_secret L r ct access why ns expected s t copied w = (Returned a, w') \<and> fst a = None"
  proof (cases "ct = PlatformClusterCopy \<and> ?tkey = object_key source")
    case True
    with src(1) show ?thesis by (simp add: copy_secret_def Let_def)
  next
    case False
    from tgt(2) obtain obj where "copy_secret L r ct access why ns expected s t copied w =
        write_secret L access why expected source copied obj w2"
      using src(1) tgt(1) False by (auto simp: copy_secret_def Let_def)
    with written [of L why expected source copied obj w2] show ?thesis by auto
  qed
qed

lemma copy_loop_succeeds:
  assumes platform: "kind_honest K V OnPlatform RSecret ASecret (secrets_api (platform r))"
      "kind_reliable V OnPlatform RSecret ASecret (secrets_api (platform r))"
    and target: "kind_honest K V sd RSecret ASecret (secrets_api access)"
      "kind_reliable V sd RSecret ASecret (secrets_api access)"
    and laws: "merge_law L" "distinct (map fst expected)"
    and apart: "sources_apart r sd ns" "sd \<noteq> OnPlatform \<longrightarrow> ct = TargetClusterCopy"
    and "set es \<subseteq> set entries"
  shows "succeeds V (secrets_ready r expected sd ns entries)
    (copy_loop L r ct access why ns expected es copied) (\<lambda>res. fst res = None)"
  using assms(9)
proof (induction es arbitrary: copied)
  case Nil
  show ?case by (simp add: succeeds_return)
next
  case (Cons e es)
  obtain s t where e: "e = (s, t)" by (cases e)
  show ?case
    unfolding e copy_loop.simps
  proof (rule succeeds_bind [OF copy_secret_succeeds [OF platform target]
        effect_copy_secret [OF platform(1) target(1) laws apart]])
    show "(s, t) \<in> set entries" using Cons.prems e by simp
  next
    show "succeeds V (secrets_ready r expected sd ns entries)
        (case a of (e, copied') \<Rightarrow> if e \<noteq> None then return_st (e, copied')
           else copy_loop L r ct access why ns expected es copied') (\<lambda>res. fst res = None)"
      if "fst a = None" for a
      using that Cons by (cases a) simp
  next
    fix a v v'
    assume ready: "secrets_ready r expected sd ns entries v" and "fst a = None"
      and off: "same_off (secret_region sd ns) v v'"
      and "(case a of (e, copied') \<Rightarrow> \<lambda>v v'. e = None \<longrightarrow> copied' = insert t copied \<and>
         copied_to L r expected v' s (sd, RSecret, \<lparr>nn_namespace = ns, nn_name = t\<rparr>) \<and>
         same_off {(sd, RSecret, \<lparr>nn_namespace = ns, nn_name = t\<rparr>)} v v') v v'"
    then have copied: "copied_to L r expected v' s (sd, RSecret, \<lparr>nn_namespace = ns, nn_name = t\<rparr>)"
      and other: "same_off {(sd, RSecret, \<lparr>nn_namespace = ns, nn_name = t\<rparr>)} v v'"
      by (cases a; simp)+
    have "v' (OnPlatform, RSecret, \<lparr>nn_namespace = provider_namespace r, nn_name = s'\<rparr>) =
        v (OnPlatform, RSecret, \<lparr>nn_namespace = provider_namespace r, nn_name = s'\<rparr>)" for s'
      using apart(1) by (intro same_offD [OF off]) (auto simp: sources_apart_def)
    moreover have "has_labels expected (meta_labels obj)"
      if "v' (sd, RSecret, \<lparr>nn_namespace = ns, nn_name = t'\<rparr>) = Some (ASecret obj)" "(s', t') \<in> set entries" for s' t' obj
    proof (cases "t' = t")
      case True
      with copied that(1) show ?thesis by (auto simp: copied_to_def)
    next
      case False
      then have "v' (sd, RSecret, \<lparr>nn_namespace = ns, nn_name = t'\<rparr>) = v (sd, RSecret, \<lparr>nn_namespace = ns, nn_name = t'\<rparr>)"
        by (intro same_offD [OF other]) simp
      with ready that show ?thesis by (auto simp: secrets_ready_def)
    qed
    ultimately show "secrets_ready r expected sd ns entries v'"
      using ready by (auto simp: secrets_ready_def)
  qed
qed

definition side_reachable :: "'w lib \<Rightarrow> copy_to \<Rightarrow> reconcile_result \<Rightarrow> bool" where
  "side_reachable L ct rr \<longleftrightarrow>
     (ct = TargetClusterCopy \<longrightarrow> (\<exists>a. rr_access rr = Some a \<and> lib_client_of L a \<noteq> None))"

lemma server_reliable_secrets:
  assumes "server_reliable V L r"
  shows "kind_reliable V OnPlatform RSecret ASecret (secrets_api (platform r))"
    and "lib_client_of L a = Some cl \<Longrightarrow> kind_reliable V (OnTarget a) RSecret ASecret (secrets_api cl)"
  using assms by (auto simp: server_reliable_def client_reliable_def)

lemma copy_configured_succeeds:
  assumes platform: "kind_honest K V OnPlatform RSecret ASecret (secrets_api (platform r))"
      "kind_reliable V OnPlatform RSecret ASecret (secrets_api (platform r))"
    and target: "kind_honest K V sd RSecret ASecret (secrets_api access)"
      "kind_reliable V sd RSecret ASecret (secrets_api access)"
    and laws: "merge_law L" "range_law L" "distinct (map fst expected)"
    and apart: "sources_apart r sd ns" "sd \<noteq> OnPlatform \<longrightarrow> ct = TargetClusterCopy"
    and rr: "rr_platform_service rr = Some svc" "\<not> stopped rr"
  shows "succeeds V (secrets_ready r expected sd ns (secret_map (image_pull_secrets svc) configured))
    (copy_configured L r ns expected rr ct (Some access) why configured)
    (\<lambda>res. \<not> stopped (fst res) \<and> same_inputs rr (fst res))"
proof (rule succeedsI)
  fix w
  let ?entries = "secret_map (image_pull_secrets svc) configured"
  assume "secrets_ready r expected sd ns ?entries (V w)"
  moreover have "set (lib_range L w ?entries) \<subseteq> set ?entries"
    using laws(2) unfolding range_law_def by (metis set_mset_mset subset_refl)
  ultimately obtain res w' where
    "copy_loop L r ct access why ns expected (lib_range L w ?entries) {} w = (Returned res, w')" "fst res = None"
    using succeedsE [OF copy_loop_succeeds [OF platform target laws(1,3) apart]] by metis
  with rr show "\<exists>a w'. copy_configured L r ns expected rr ct (Some access) why configured w = (Returned a, w') \<and>
      \<not> stopped (fst a) \<and> same_inputs rr (fst a)"
    by (cases res) (simp add: copy_configured_def Let_def bind_st_def return_st_def stopped_def)
qed

lemma copy_secrets_succeeds:
  assumes server: "server_law V L r" "server_reliable V L r"
    and laws: "merge_law L" "range_law L" "distinct (map fst expected)"
    and apart: "ct = PlatformClusterCopy \<longrightarrow> ns \<noteq> provider_namespace r"
    and loaded: "rr_provider_config rr = Some pc" "rr_platform_service rr = Some svc"
    and rr: "\<not> stopped rr" "side_reachable L ct rr"
  shows "succeeds V (\<lambda>v. \<forall>sd. side_for ct rr sd \<longrightarrow> secrets_ready r expected sd ns (secret_entries pc svc ct) v)
    (copy_secrets L r ns expected rr ct) (\<lambda>res. \<not> stopped (fst res) \<and> same_inputs rr (fst res))"
proof (cases "spec_secrets (service_spec pc)")
  case None
  then show ?thesis
    by (simp add: copy_secrets_def loaded succeeds_return rr)
next
  case (Some stc)
  note platform = server_law_secrets(1) [OF server(1)] server_reliable_secrets(1) [OF server(2)]
  show ?thesis
  proof (cases ct)
    case PlatformClusterCopy
    have "succeeds V (secrets_ready r expected OnPlatform ns (secret_map (image_pull_secrets svc) (to_platform_cluster stc)))
      (copy_configured L r ns expected rr ct (Some (platform r)) PlatformClusterInteractionProblem (to_platform_cluster stc))
      (\<lambda>res. \<not> stopped (fst res) \<and> same_inputs rr (fst res))"
      using apart PlatformClusterCopy
      by (intro copy_configured_succeeds [OF platform platform laws] loaded(2) rr(1)) (simp_all add: sources_apart_def)
    moreover have "copy_secrets L r ns expected rr ct = copy_configured L r ns expected rr ct (Some (platform r))
        PlatformClusterInteractionProblem (to_platform_cluster stc)"
      by (simp add: copy_secrets_def loaded Some PlatformClusterCopy)
    ultimately show ?thesis
      by (auto simp: Some PlatformClusterCopy side_for_def secret_entries_def elim: succeeds_conseq)
  next
    case TargetClusterCopy
    with rr(2) obtain a cl where a: "rr_access rr = Some a" "lib_client_of L a = Some cl"
      by (auto simp: side_reachable_def)
    note target = server_law_secrets(2) [OF server(1) a(2)] server_reliable_secrets(2) [OF server(2) a(2)]
    have "succeeds V (secrets_ready r expected (OnTarget a) ns (secret_map (image_pull_secrets svc) (to_target_cluster stc)))
      (copy_configured L r ns expected rr ct (Some cl) TargetClusterInteractionProblem (to_target_cluster stc))
      (\<lambda>res. \<not> stopped (fst res) \<and> same_inputs rr (fst res))"
      using TargetClusterCopy
      by (intro copy_configured_succeeds [OF platform target laws] loaded(2) rr(1)) (simp_all add: sources_apart_def)
    moreover have "copy_secrets L r ns expected rr ct = copy_configured L r ns expected rr ct (Some cl)
        TargetClusterInteractionProblem (to_target_cluster stc)"
      by (simp add: copy_secrets_def loaded Some TargetClusterCopy a)
    ultimately show ?thesis
      by (auto simp: Some TargetClusterCopy side_for_def secret_entries_def a elim: succeeds_conseq)
  qed
qed

lemma remove_loop_succeeds:
  assumes "kind_reliable V sd RSecret ASecret (secrets_api access)"
  shows "\<exists>counts w'. remove_loop access why keep objs deleted n w = (Returned (None, counts), w')"
proof (induction objs arbitrary: deleted n w)
  case Nil
  show ?case by simp
next
  case (Cons obj objs)
  obtain res w1 where "api_delete (secrets_api access) (object_key obj) w = (res, w1)" "ignore_not_found res = None"
    using reliable_delete [OF assms] by blast
  with Cons show ?case by simp
qed

lemma remove_from_succeeds:
  assumes "kind_reliable V sd RSecret ASecret (secrets_api access)" and "\<not> stopped rr"
  shows "\<exists>rr' w'. remove_from ns expected rr ct keep (Some access) why w = (Returned rr', w') \<and>
    \<not> stopped rr' \<and> same_inputs rr rr'"
proof -
  obtain objs w1 where listed: "api_list (secrets_api access) ns (map_of expected) w = (Inr objs, w1)"
    using reliable_list [OF assms(1)] by blast
  obtain counts w2 where "remove_loop access why keep objs 0 0 w1 = (Returned (None, counts), w2)"
    using remove_loop_succeeds [OF assms(1)] by blast
  with listed assms(2) show ?thesis
    by (cases counts) (simp add: remove_from_def bind_st_def return_st_def stopped_def)
qed

lemma remove_secrets_succeeds:
  assumes server: "server_reliable V L r" and rr: "\<not> stopped rr" "side_reachable L ct rr"
  shows "succeeds V P (remove_secrets L r ns expected rr ct keep) (\<lambda>rr'. \<not> stopped rr' \<and> same_inputs rr rr')"
proof (rule succeedsI)
  fix w
  show "\<exists>rr' w'. remove_secrets L r ns expected rr ct keep w = (Returned rr', w') \<and> \<not> stopped rr' \<and> same_inputs rr rr'"
  proof (cases ct)
    case PlatformClusterCopy
    then show ?thesis
      using remove_from_succeeds [OF server_reliable_secrets(1) [OF server] rr(1)]
      by (simp add: remove_secrets_def)
  next
    case TargetClusterCopy
    with rr(2) obtain a cl where "rr_access rr = Some a" "lib_client_of L a = Some cl"
      by (auto simp: side_reachable_def)
    with TargetClusterCopy show ?thesis
      using remove_from_succeeds [OF server_reliable_secrets(2) [OF server] rr(1)]
      by (simp add: remove_secrets_def)
  qed
qed

lemma side_reachable_inputs: "same_inputs rr rr' \<Longrightarrow> side_reachable L ct rr' = side_reachable L ct rr"
  by (simp add: side_reachable_def same_inputs_def)

text \<open>Copying and removing, then the rest, where what the rest needs lies elsewhere.\<close>

lemma sync_succeeds:
  assumes server: "server_law V L r" "server_reliable V L r"
    and laws: "merge_law L" "range_law L" "distinct (map fst expected)" "fst ` set expected \<subseteq> managed_labels L"
    and apart: "ct = PlatformClusterCopy \<longrightarrow> ns \<noteq> provider_namespace r"
    and loaded: "rr_provider_config rr = Some pc" "rr_platform_service rr = Some svc"
    and rr: "\<not> stopped rr" "side_reachable L ct rr"
    and later: "\<And>v v'. P v \<Longrightarrow> same_off (copy_region ct ns) v v' \<Longrightarrow> P v'"
    and rest: "\<And>rr1. same_inputs rr rr1 \<Longrightarrow> \<not> stopped rr1 \<Longrightarrow> succeeds V P (f rr1) S"
  shows "succeeds V (\<lambda>v. P v \<and> (\<forall>sd. side_for ct rr sd \<longrightarrow> secrets_ready r expected sd ns (secret_entries pc svc ct) v))
    (bind_st (copy_secrets L r ns expected rr ct) (\<lambda>(rr, copied).
       if stopped rr then return_st rr else chain (remove_secrets L r ns expected rr ct copied) f)) S"
proof (rule succeeds_bind [where P' = P])
  show "succeeds V (\<lambda>v. P v \<and> (\<forall>sd. side_for ct rr sd \<longrightarrow> secrets_ready r expected sd ns (secret_entries pc svc ct) v))
      (copy_secrets L r ns expected rr ct) (\<lambda>res. \<not> stopped (fst res) \<and> same_inputs rr (fst res))"
    by (rule succeeds_conseq [OF copy_secrets_succeeds [OF server laws(1-3) apart loaded rr]]) auto
  show "effect V (copy_region ct ns) (copy_secrets L r ns expected rr ct)
      (copied_all L r expected ct ns (secret_entries pc svc ct) rr)"
    by (rule effect_copy_secrets [OF server(1) laws(1-3) apart loaded])
next
  fix a :: "reconcile_result \<times> string set"
  assume a: "\<not> stopped (fst a) \<and> same_inputs rr (fst a)"
  have "succeeds V P (chain (remove_secrets L r ns expected (fst a) ct (snd a)) f) S"
  proof (rule succeeds_chain [OF remove_secrets_succeeds [OF server(2)] achieves_remove_secrets [OF server(1) laws(4)]])
    show "\<not> stopped (fst a)" "side_reachable L ct (fst a)"
      using a rr(2) side_reachable_inputs by auto
    show "succeeds V P (f rr1) S" if "\<not> stopped rr1" "same_inputs (fst a) rr1" for rr1
      using that a by (intro rest) (auto simp: same_inputs_def)
  qed (use later in blast)
  with a show "succeeds V P (case a of (rr, copied) \<Rightarrow>
      if stopped rr then return_st rr else chain (remove_secrets L r ns expected rr ct copied) f) S"
    by (cases a) simp
qed (use later in blast)

subsection \<open>Source, namespace, HelmRelease\<close>

lemma existing_sources_succeed:
  assumes "server_reliable V L r"
  shows "\<exists>helm git oci w1. with_existing_sources r ns expected rr f w = f helm git oci w1"
proof -
  have "\<exists>items w'. api_list (sources_api (platform r) k) ns (map_of expected) w = (Inr items, w')" for k w
    using assms by (intro reliable_list [where V = V and sd = OnPlatform and res = "RSource k" and wrap = ASource])
      (simp add: server_reliable_def client_reliable_def)
  note listed = this
  have step: "\<exists>items w'. list_sources r ns expected rr k g w = g items w'" for k g w
  proof -
    obtain items w' where "api_list (sources_api (platform r) k) ns (map_of expected) w = (Inr items, w')"
      using listed by blast
    then have "list_sources r ns expected rr k g w = g items w'" by (simp add: list_sources_def)
    then show ?thesis by blast
  qed
  let ?oci = "\<lambda>helm git. list_sources r ns expected rr OCIRepository (f helm git)"
  let ?git = "\<lambda>helm. list_sources r ns expected rr GitRepository (?oci helm)"
  obtain helm w1 where 1: "with_existing_sources r ns expected rr f w = ?git helm w1"
    unfolding with_existing_sources_def using step [of HelmRepository ?git w] by blast
  obtain git w2 where 2: "?git helm w1 = ?oci helm git w2"
    using step [of GitRepository "?oci helm" w1] by blast
  obtain oci w3 where "?oci helm git w2 = f helm git oci w3"
    using step [of OCIRepository "f helm git" w2] by blast
  with 1 2 have "with_existing_sources r ns expected rr f w = f helm git oci w3" by simp
  then show ?thesis by blast
qed

lemma delete_sources_succeeds:
  assumes "server_reliable V L r"
  shows "\<exists>w'. delete_sources (platform r) objs w = (Returned None, w')"
proof (induction objs arbitrary: w)
  case Nil
  show ?case by simp
next
  case (Cons o' objs)
  obtain k obj where o': "o' = (k, obj)" by (cases o')
  have "kind_reliable V OnPlatform (RSource k) ASource (sources_api (platform r) k)"
    using assms by (simp add: server_reliable_def client_reliable_def)
  from reliable_delete [OF this] obtain res w1 where
    "api_delete (sources_api (platform r) k) (object_key obj) w = (res, w1)" "ignore_not_found res = None" by blast
  with Cons show ?case by (simp add: o')
qed

lemma finish_sources_succeeds:
  assumes "server_reliable V L r"
  shows "\<exists>w'. finish_sources (platform r) objs rr msg w = (Returned (rr\<lparr>rr_message := msg\<rparr>), w')"
  using delete_sources_succeeds [OF assms, of objs w]
  by (auto simp: finish_sources_def bind_st_def return_st_def)

lemma write_source_succeeds:
  assumes server: "server_reliable V L r" and owner: "\<And>os. \<exists>os'. lib_set_owner L c os = Inr os'"
  shows "\<exists>w'. write_source L r c expected rr k spec name obsolete w = (Returned (rr\<lparr>rr_message := WroteSource k\<rparr>), w')"
proof -
  let ?obj = "new_source (meta_namespace c) name"
  have "\<exists>new. source_mutation L c expected spec base = Mutated new \<and> object_key new = object_key ?obj"
    if same: "object_key base = object_key ?obj" for base
  proof -
    obtain os' where "lib_set_owner L c (meta_owners base) = Inr os'" using owner by blast
    with same show ?thesis by (auto simp: source_mutation_def object_key_def)
  qed
  note mutated = this
  have "kind_reliable V OnPlatform (RSource k) ASource (sources_api (platform r) k)"
    using server by (simp add: server_reliable_def client_reliable_def)
  from reliable_upsert [OF this, where f = "source_mutation L c expected spec", OF mutated] obtain new w1 where
    "api_upsert (sources_api (platform r) k) ?obj (source_mutation L c expected spec) w = (Returned (Inr new), w1)"
    by blast
  with finish_sources_succeeds [OF server] show ?thesis by (simp add: write_source_def)
qed

lemma deploy_source_succeeds:
  assumes server: "server_reliable V L r" and owner: "\<And>os. \<exists>os'. lib_set_owner L c os = Inr os'"
    and name: "cluster_based_resource_name L (meta_name c) = Returned name"
    and loaded: "rr_provider_config rr = Some pc" "configured_source (spec_source (service_spec pc)) = Some (k, spec)"
    and "\<not> stopped rr"
  shows "succeeds V P (deploy_helm_chart_source L r c expected rr)
    (\<lambda>rr'. \<not> stopped rr' \<and> same_inputs (rr\<lparr>rr_source_kind := Some k\<rparr>) rr')"
proof (rule succeedsI)
  fix w
  let ?f = "\<lambda>helm git oci. write_source L r c expected (rr\<lparr>rr_source_kind := Some k\<rparr>) k spec name
      (obsolete_sources L k name helm git oci)"
  have "deploy_helm_chart_source L r c expected rr w = with_existing_sources r (meta_namespace c) expected rr ?f w"
    by (simp add: deploy_helm_chart_source_def name loaded bind_st_def of_outcome_def)
  moreover obtain helm git oci w1 where
    "with_existing_sources r (meta_namespace c) expected rr ?f w = ?f helm git oci w1"
    using existing_sources_succeed [OF server, of "meta_namespace c" expected rr ?f w] by blast
  ultimately obtain w2 where "deploy_helm_chart_source L r c expected rr w =
      (Returned (rr\<lparr>rr_source_kind := Some k, rr_message := WroteSource k\<rparr>), w2)"
    using write_source_succeeds [OF server owner, where rr = "rr\<lparr>rr_source_kind := Some k\<rparr>"] by metis
  with \<open>\<not> stopped rr\<close> show "\<exists>rr' w'. deploy_helm_chart_source L r c expected rr w = (Returned rr', w') \<and>
      \<not> stopped rr' \<and> same_inputs (rr\<lparr>rr_source_kind := Some k\<rparr>) rr'"
    by (auto simp: stopped_def same_inputs_def)
qed

lemma ensure_namespace_succeeds:
  assumes server: "server_law V L r" "server_reliable V L r"
    and rr: "side_reachable L TargetClusterCopy rr" "\<not> stopped rr"
  shows "succeeds V P (ensure_target_cluster_namespace L ns rr) (\<lambda>rr'. \<not> stopped rr' \<and> same_inputs rr rr')"
proof (rule succeedsI)
  fix w
  from rr(1) obtain a cl where a: "rr_access rr = Some a" "lib_client_of L a = Some cl"
    by (auto simp: side_reachable_def)
  let ?key = "\<lparr>nn_namespace = [], nn_name = ns\<rparr>"
  have rel: "kind_reliable V (OnTarget a) RNamespace ANamespace (namespaces_api cl)"
    using server(2) a(2) by (simp add: server_reliable_def client_reliable_def)
  have hon: "kind_honest (managed_labels L) V (OnTarget a) RNamespace ANamespace (namespaces_api cl)"
    using server(1) a(2) by (simp add: server_law_def client_honest_def)
  have "fst (api_create (namespaces_api cl) (new_namespace ns) w1) \<in> {None, Some AlreadyExists}" for w1
    using rel unfolding kind_reliable_def by blast
  then have create: "\<exists>res w2. api_create (namespaces_api cl) (new_namespace ns) w1 = (res, w2) \<and>
      (res = None \<or> res = Some AlreadyExists)" for w1
    by (metis insertE prod.collapse singletonD)
  show "\<exists>rr' w'. ensure_target_cluster_namespace L ns rr w = (Returned rr', w') \<and> \<not> stopped rr' \<and> same_inputs rr rr'"
  proof (cases "V w (OnTarget a, RNamespace, ?key)")
    case None
    from reliable_get(2) [OF hon rel None] obtain w1 where
      get: "api_get (namespaces_api cl) ?key w = (Inl NotFound, w1)" by blast
    obtain res w2 where "api_create (namespaces_api cl) (new_namespace ns) w1 = (res, w2)"
      "res = None \<or> res = Some AlreadyExists" using create by blast
    with get a rr(2) show ?thesis by (auto simp: ensure_target_cluster_namespace_def stopped_def)
  next
    case (Some x)
    then obtain obj where "V w (OnTarget a, RNamespace, ?key) = Some (ANamespace obj)"
      using honest_stored [OF hon] by blast
    from reliable_get(1) [OF hon rel this] obtain w1 where
      "api_get (namespaces_api cl) ?key w = (Inr obj, w1)" by blast
    with a rr(2) show ?thesis by (simp add: ensure_target_cluster_namespace_def)
  qed
qed

lemma release_mutation_key:
  assumes "release_mutation L r c expected rr hr = Mutated hr'"
  shows "object_key hr' = object_key hr"
proof -
  from assms obtain owners where "fill_release L r c expected rr owners hr = Returned hr'"
    by (rule release_mutation_Mutated)
  then show ?thesis by (rule fill_release_Returned) (simp add: object_key_def)
qed

lemma deploy_release_succeeds:
  assumes server: "server_reliable V L r" and owner: "\<And>os. \<exists>os'. lib_set_owner L c os = Inr os'"
    and name: "cluster_based_resource_name L (meta_name c) = Returned name"
    and rr: "release_inputs_present rr" "\<not> stopped rr"
  shows "succeeds V P (deploy_helm_release L r c expected rr) (\<lambda>rr'. \<not> stopped rr' \<and> same_inputs rr rr')"
proof (rule succeedsI)
  fix w
  let ?hr = "new_release (meta_namespace c) name"
  let ?rr = "rr\<lparr>rr_related := Some (object_key ?hr)\<rparr>"
  have "\<exists>new. release_mutation L r c expected ?rr base = Mutated new \<and> object_key new = object_key ?hr"
    if same: "object_key base = object_key ?hr" for base
  proof -
    obtain os' where "lib_set_owner L c (meta_owners base) = Inr os'" using owner by blast
    moreover have "release_inputs_present ?rr" using rr(1) by (simp add: release_inputs_present_def)
    ultimately obtain new where new: "release_mutation L r c expected ?rr base = Mutated new"
      using release_mutation_outcomes [where L = L and r = r and c = c and expected = expected and rr = ?rr and hr = base] by (auto split: mutated.splits)
    with release_mutation_key [OF new] same show ?thesis by simp
  qed
  note mutated = this
  have "kind_reliable V OnPlatform RRelease ARelease (releases_api (platform r))"
    using server by (simp add: server_reliable_def client_reliable_def)
  from reliable_upsert [OF this, where f = "release_mutation L r c expected ?rr", OF mutated] obtain new w1 where
    "api_upsert (releases_api (platform r)) ?hr (release_mutation L r c expected ?rr) w = (Returned (Inr new), w1)"
    by blast
  with rr(2) show "\<exists>rr' w'. deploy_helm_release L r c expected rr w = (Returned rr', w') \<and> \<not> stopped rr' \<and> same_inputs rr rr'"
    by (simp add: deploy_helm_release_def name bind_st_def of_outcome_def Let_def stopped_def)
qed

subsection \<open>Deploying\<close>

definition run_inputs :: "'w lib \<Rightarrow> service_config \<Rightarrow> platform_service \<Rightarrow> reconcile_result \<Rightarrow> bool" where
  "run_inputs L pc svc rr \<longleftrightarrow>
     rr_provider_config rr = Some pc \<and> rr_platform_service rr = Some svc \<and>
     side_reachable L TargetClusterCopy rr \<and>
     (\<exists>cfg ar. rr_config rr = Some cfg \<and> config_helm_values cfg \<noteq> None \<and>
        rr_access_request rr = Some ar \<and> request_secret_ref ar \<noteq> None)"

lemma run_inputs_same: "same_inputs rr rr' \<Longrightarrow> run_inputs L pc svc rr' = run_inputs L pc svc rr"
  by (simp add: run_inputs_def same_inputs_def side_reachable_def)

lemma run_inputs_source_kind [simp]:
  "run_inputs L pc svc (rr\<lparr>rr_source_kind := k\<rparr>) = run_inputs L pc svc rr"
  by (simp add: run_inputs_def side_reachable_def)

lemma run_inputs_release: "run_inputs L pc svc rr \<Longrightarrow> release_inputs_present rr"
  by (auto simp: run_inputs_def release_inputs_present_def)

lemma secrets_ready_off:
  assumes "secrets_ready r expected sd ns entries v" and "same_off R v v'" and "side_for ct rr sd"
    and "copy_region ct ns \<inter> R = {}" and "copy_region PlatformClusterCopy (provider_namespace r) \<inter> R = {}"
  shows "secrets_ready r expected sd ns entries v'"
proof -
  have "v' (sd, RSecret, \<lparr>nn_namespace = ns, nn_name = t\<rparr>) = v (sd, RSecret, \<lparr>nn_namespace = ns, nn_name = t\<rparr>)" for t
  proof (rule same_offD [OF assms(2)])
    have "(sd, RSecret, \<lparr>nn_namespace = ns, nn_name = t\<rparr>) \<in> copy_region ct ns"
      using assms(3) by (cases ct) (auto simp: side_for_def)
    with assms(4) show "(sd, RSecret, \<lparr>nn_namespace = ns, nn_name = t\<rparr>) \<notin> R" by blast
  qed
  moreover have "v' (OnPlatform, RSecret, \<lparr>nn_namespace = provider_namespace r, nn_name = s\<rparr>) =
      v (OnPlatform, RSecret, \<lparr>nn_namespace = provider_namespace r, nn_name = s\<rparr>)" for s
  proof (rule same_offD [OF assms(2)])
    have "(OnPlatform, RSecret, \<lparr>nn_namespace = provider_namespace r, nn_name = s\<rparr>)
        \<in> copy_region PlatformClusterCopy (provider_namespace r)" by simp
    with assms(5) show "(OnPlatform, RSecret, \<lparr>nn_namespace = provider_namespace r, nn_name = s\<rparr>) \<notin> R" by blast
  qed
  ultimately show ?thesis using assms(1) by (simp add: secrets_ready_def)
qed

definition target_ready ::
  "'w reconciler \<Rightarrow> (string \<times> string) list \<Rightarrow> service_config \<Rightarrow> platform_service \<Rightarrow> reconcile_result \<Rightarrow>
   objects \<Rightarrow> bool" where
  "target_ready r expected pc svc rr v \<longleftrightarrow>
     (\<forall>sd. side_for TargetClusterCopy rr sd \<longrightarrow>
        secrets_ready r expected sd target_cluster_namespace (secret_entries pc svc TargetClusterCopy) v)"

lemma target_ready_access:
  "rr_access rr' = rr_access rr \<Longrightarrow> target_ready r expected pc svc rr' v = target_ready r expected pc svc rr v"
  by (simp add: target_ready_def side_for_def)

lemma target_ready_off:
  assumes "target_ready r expected pc svc rr v" and "same_off R v v'"
    and "copy_region TargetClusterCopy target_cluster_namespace \<inter> R = {}"
    and "copy_region PlatformClusterCopy (provider_namespace r) \<inter> R = {}"
  shows "target_ready r expected pc svc rr v'"
  using assms(1) secrets_ready_off [OF _ assms(2) _ assms(3,4)] by (auto simp: target_ready_def)

lemma target_phases_succeed:
  assumes laws: "deploy_laws V L r expected" and reliable: "server_reliable V L r"
    and owner: "\<And>os. \<exists>os'. lib_set_owner L c os = Inr os'"
    and named: "cluster_based_resource_name L (meta_name c) = Returned name"
    and rr: "run_inputs L pc svc rr" "\<not> stopped rr"
  shows "succeeds V (target_ready r expected pc svc rr)
    (bind_st (copy_secrets L r target_cluster_namespace expected rr TargetClusterCopy) (\<lambda>(rr, copied).
     if stopped rr then return_st rr else
     chain (remove_secrets L r target_cluster_namespace expected rr TargetClusterCopy copied) (\<lambda>rr.
     chain (deploy_helm_release L r c expected rr) (\<lambda>rr.
     return_st (rr\<lparr>rr_message := m\<rparr>)))))
    (\<lambda>rr'. \<not> stopped rr')"
proof (rule succeeds_conseq [OF sync_succeeds [where P = "\<lambda>v. True"]])
  show "server_law V L r" "merge_law L" "range_law L" "distinct (map fst expected)"
    "fst ` set expected \<subseteq> managed_labels L"
    using laws by (simp_all add: deploy_laws_def)
  show "rr_provider_config rr = Some pc" "rr_platform_service rr = Some svc" "side_reachable L TargetClusterCopy rr"
    using rr(1) by (simp_all add: run_inputs_def)
  show "succeeds V (\<lambda>v. True) (chain (deploy_helm_release L r c expected rr1) (\<lambda>rr. return_st (rr\<lparr>rr_message := m\<rparr>)))
      (\<lambda>rr'. \<not> stopped rr')" if "same_inputs rr rr1" "\<not> stopped rr1" for rr1
  proof (rule succeeds_chain)
    show "succeeds V (\<lambda>v. True) (deploy_helm_release L r c expected rr1) (\<lambda>rr'. \<not> stopped rr' \<and> same_inputs rr1 rr')"
      using rr(1) that(2)
      by (intro deploy_release_succeeds [OF reliable owner named] run_inputs_release [of L pc svc])
         (simp_all add: run_inputs_same [OF that(1)])
    show "achieves V (release_region (meta_namespace c)) (deploy_helm_release L r c expected rr1)
        (\<lambda>rr' v v'. same_inputs rr1 rr' \<and> release_current L r c expected rr1 v')"
      using laws by (intro achieves_deploy_release) (auto simp: deploy_laws_def)
    show "succeeds V (\<lambda>v. True) (return_st (rr2\<lparr>rr_message := m\<rparr>)) (\<lambda>rr'. \<not> stopped rr')"
      if "\<not> stopped rr2" for rr2
      using that by (intro succeeds_return) (simp add: stopped_def)
  qed simp
qed (use reliable rr(2) in \<open>auto simp: target_ready_def\<close>)

lemma source_phases_succeed:
  assumes laws: "deploy_laws V L r expected" and reliable: "server_reliable V L r"
    and owner: "\<And>os. \<exists>os'. lib_set_owner L c os = Inr os'"
    and named: "cluster_based_resource_name L (meta_name c) = Returned name"
    and source: "configured_source (spec_source (service_spec pc)) = Some (k, spec)"
    and rr: "run_inputs L pc svc rr" "\<not> stopped rr"
  shows "succeeds V (target_ready r expected pc svc rr)
    (chain (deploy_helm_chart_source L r c expected rr) (\<lambda>rr.
     chain (ensure_target_cluster_namespace L target_cluster_namespace rr) (\<lambda>rr.
     bind_st (copy_secrets L r target_cluster_namespace expected rr TargetClusterCopy) (\<lambda>(rr, copied).
     if stopped rr then return_st rr else
     chain (remove_secrets L r target_cluster_namespace expected rr TargetClusterCopy copied) (\<lambda>rr.
     chain (deploy_helm_release L r c expected rr) (\<lambda>rr.
     return_st (rr\<lparr>rr_message := m\<rparr>)))))))
    (\<lambda>rr'. \<not> stopped rr')"
proof (rule succeeds_chain [where P' = "target_ready r expected pc svc rr"])
  have loaded: "rr_provider_config rr = Some pc" using rr(1) by (simp add: run_inputs_def)
  show "succeeds V (target_ready r expected pc svc rr) (deploy_helm_chart_source L r c expected rr)
      (\<lambda>rr'. \<not> stopped rr' \<and> same_inputs (rr\<lparr>rr_source_kind := Some k\<rparr>) rr')"
    by (rule deploy_source_succeeds [OF reliable owner named loaded source rr(2)])
  show "achieves V (source_region (meta_namespace c)) (deploy_helm_chart_source L r c expected rr)
      (\<lambda>rr' v v'. \<exists>k. source_current L c expected pc k v' \<and> same_inputs (rr\<lparr>rr_source_kind := Some k\<rparr>) rr')"
    using laws loaded by (intro achieves_deploy_source) (auto simp: deploy_laws_def)
  show "target_ready r expected pc svc rr v'"
    if "target_ready r expected pc svc rr v" "same_off (source_region (meta_namespace c)) v v'" for v v'
    by (rule target_ready_off [OF that]) auto
next
  fix rr1
  assume rr1: "\<not> stopped rr1" "same_inputs (rr\<lparr>rr_source_kind := Some k\<rparr>) rr1"
  then have inputs1: "run_inputs L pc svc rr1" and access1: "rr_access rr1 = rr_access rr"
    using rr(1) run_inputs_same [OF rr1(2), of L pc svc] by (simp_all add: same_inputs_def)
  show "succeeds V (target_ready r expected pc svc rr)
    (chain (ensure_target_cluster_namespace L target_cluster_namespace rr1) (\<lambda>rr.
     bind_st (copy_secrets L r target_cluster_namespace expected rr TargetClusterCopy) (\<lambda>(rr, copied).
     if stopped rr then return_st rr else
     chain (remove_secrets L r target_cluster_namespace expected rr TargetClusterCopy copied) (\<lambda>rr.
     chain (deploy_helm_release L r c expected rr) (\<lambda>rr.
     return_st (rr\<lparr>rr_message := m\<rparr>))))))
    (\<lambda>rr'. \<not> stopped rr')"
  proof (rule succeeds_chain [where P' = "target_ready r expected pc svc rr"])
    show "succeeds V (target_ready r expected pc svc rr) (ensure_target_cluster_namespace L target_cluster_namespace rr1)
        (\<lambda>rr'. \<not> stopped rr' \<and> same_inputs rr1 rr')"
      using laws inputs1 rr1(1) reliable
      by (intro ensure_namespace_succeeds [where r = r]) (auto simp: run_inputs_def deploy_laws_def)
    show "achieves V namespace_region (ensure_target_cluster_namespace L target_cluster_namespace rr1)
        (\<lambda>rr' v v'. same_inputs rr1 rr' \<and> namespace_present target_cluster_namespace rr1 v')"
      using laws by (intro achieves_ensure_namespace [where r = r]) (simp add: deploy_laws_def)
    show "target_ready r expected pc svc rr v'"
      if "target_ready r expected pc svc rr v" "same_off namespace_region v v'" for v v'
      by (rule target_ready_off [OF that]) auto
  next
    fix rr2
    assume rr2: "\<not> stopped rr2" "same_inputs rr1 rr2"
    then have "run_inputs L pc svc rr2" "rr_access rr2 = rr_access rr"
      using inputs1 access1 run_inputs_same [OF rr2(2), of L pc svc] by (simp_all add: same_inputs_def)
    moreover from this have "target_ready r expected pc svc rr = target_ready r expected pc svc rr2"
      using target_ready_access [of rr2 rr r expected pc svc] by auto
    ultimately show "succeeds V (target_ready r expected pc svc rr)
      (bind_st (copy_secrets L r target_cluster_namespace expected rr2 TargetClusterCopy) (\<lambda>(rr, copied).
       if stopped rr then return_st rr else
       chain (remove_secrets L r target_cluster_namespace expected rr TargetClusterCopy copied) (\<lambda>rr.
       chain (deploy_helm_release L r c expected rr) (\<lambda>rr.
       return_st (rr\<lparr>rr_message := m\<rparr>)))))
      (\<lambda>rr'. \<not> stopped rr')"
      using target_phases_succeed [OF laws reliable owner named _ rr2(1)] by simp
  qed
qed

lemma deploy_phases_succeed:
  assumes laws: "deploy_laws V L r expected" and reliable: "server_reliable V L r"
    and owner: "\<And>os. \<exists>os'. lib_set_owner L c os = Inr os'"
    and named: "cluster_based_resource_name L (meta_name c) = Returned name"
    and source: "configured_source (spec_source (service_spec pc)) = Some (k, spec)"
    and apart: "meta_namespace c \<noteq> provider_namespace r"
    and rr: "run_inputs L pc svc rr" "\<not> stopped rr"
  shows "succeeds V (\<lambda>v. target_ready r expected pc svc rr v \<and>
      secrets_ready r expected OnPlatform (meta_namespace c) (secret_entries pc svc PlatformClusterCopy) v)
    (deploy_phases L r c expected rr) (\<lambda>rr'. \<not> stopped rr')"
  unfolding deploy_phases_def
proof (rule succeeds_conseq [OF sync_succeeds [where P = "target_ready r expected pc svc rr"]])
  show "server_law V L r" "merge_law L" "range_law L" "distinct (map fst expected)"
    "fst ` set expected \<subseteq> managed_labels L"
    using laws by (simp_all add: deploy_laws_def)
  show "rr_provider_config rr = Some pc" "rr_platform_service rr = Some svc" "side_reachable L PlatformClusterCopy rr"
    using rr(1) by (simp_all add: run_inputs_def side_reachable_def)
  show "target_ready r expected pc svc rr v'"
    if "target_ready r expected pc svc rr v" "same_off (copy_region PlatformClusterCopy (meta_namespace c)) v v'" for v v'
    by (rule target_ready_off [OF that]) (use apart in auto)
next
  fix rr1
  assume rr1: "same_inputs rr rr1" "\<not> stopped rr1"
  then have "run_inputs L pc svc rr1" "rr_access rr1 = rr_access rr"
    using rr(1) run_inputs_same [OF rr1(1), of L pc svc] by (simp_all add: same_inputs_def)
  moreover from this have "target_ready r expected pc svc rr = target_ready r expected pc svc rr1"
    using target_ready_access [of rr1 rr r expected pc svc] by auto
  ultimately show "succeeds V (target_ready r expected pc svc rr)
    (chain (deploy_helm_chart_source L r c expected rr1) (\<lambda>rr.
     chain (ensure_target_cluster_namespace L target_cluster_namespace rr) (\<lambda>rr.
     bind_st (copy_secrets L r target_cluster_namespace expected rr TargetClusterCopy) (\<lambda>(rr, copied).
     if stopped rr then return_st rr else
     chain (remove_secrets L r target_cluster_namespace expected rr TargetClusterCopy copied) (\<lambda>rr.
     chain (deploy_helm_release L r c expected rr) (\<lambda>rr.
     return_st (rr\<lparr>rr_message := DeployTriggered\<rparr>)))))))
    (\<lambda>rr'. \<not> stopped rr')"
    using source_phases_succeed [OF laws reliable owner named source _ rr1(2)] by simp
qed (use reliable rr(2) apart in \<open>auto simp: side_for_def\<close>)

end
