(* ===== verification/Liveness.thy ===== *)
theory Liveness
  imports Progress
begin

section \<open>What a reliable server leads to\<close>

text \<open>
  With a server that is honest and reliable and with everything in place that the configuration refers
  to, one run deploys a wanted Cluster, and once its HelmRelease is gone one run cleans up an unwanted
  one.
\<close>

subsection \<open>What has to be in place\<close>

definition nameable :: "'w lib \<Rightarrow> cluster \<Rightarrow> bool" where
  "nameable L c \<longleftrightarrow> (\<exists>name. cluster_based_resource_name L (meta_name c) = Returned name)"

definition ownable :: "'w lib \<Rightarrow> cluster \<Rightarrow> bool" where
  "ownable L c \<longleftrightarrow> (\<forall>c' os. object_key c' = object_key c \<longrightarrow> (\<exists>os'. lib_set_owner L c' os = Inr os'))"

definition deploy_ready ::
  "'w lib \<Rightarrow> 'w reconciler \<Rightarrow> cluster \<Rightarrow> service_config \<Rightarrow> platform_service \<Rightarrow> target \<Rightarrow> access_request \<Rightarrow>
   objects \<Rightarrow> bool" where
  "deploy_ready L r c config svc a ar v \<longleftrightarrow>
     nameable L c \<and> ownable L c \<and> access_granted L r (object_key c) a ar \<and>
     configured_source (spec_source (service_spec config)) \<noteq> None \<and>
     (\<exists>cfg. select_config (spec_purposes (service_spec config)) (cluster_purposes c) = Some cfg \<and>
        config_helm_values cfg \<noteq> None) \<and>
     secrets_ready r (expected_labels L r (meta_name c)) OnPlatform (meta_namespace c)
       (secret_entries config svc PlatformClusterCopy) v \<and>
     secrets_ready r (expected_labels L r (meta_name c)) (OnTarget a) target_cluster_namespace
       (secret_entries config svc TargetClusterCopy) v"

lemma deploy_ready_update:
  assumes "object_key c' = object_key c" and "cluster_purposes c' = cluster_purposes c"
  shows "deploy_ready L r c' config svc a ar v = deploy_ready L r c config svc a ar v"
proof -
  have "meta_name c' = meta_name c" "meta_namespace c' = meta_namespace c"
    using assms(1) by (simp_all add: object_key_def)
  with assms show ?thesis by (simp only: deploy_ready_def nameable_def ownable_def)
qed

lemma deploy_ready_off:
  assumes "deploy_ready L r c config svc a ar v" and "same_off {(sd, RCluster, nn)} v v'"
  shows "deploy_ready L r c config svc a ar v'"
proof -
  have "v' (sd', RSecret, nn') = v (sd', RSecret, nn')" for sd' nn'
    by (rule same_offD [OF assms(2)]) simp
  with assms(1) show ?thesis by (simp add: deploy_ready_def secrets_ready_def)
qed

subsection \<open>A wanted Cluster\<close>

lemma deploy_with_access_succeeds:
  assumes laws: "outcome_laws V L r" and reliable: "server_reliable V L r"
    and apart: "meta_namespace c \<noteq> provider_namespace r"
    and rr: "rr_provider_config rr = Some config" "rr_platform_service rr = Some svc"
      "rr_config rr = select_config (spec_purposes (service_spec config)) (cluster_purposes c)" "\<not> stopped rr"
  shows "succeeds V (deploy_ready L r c config svc a ar)
    (deploy_with_access L r c (expected_labels L r (meta_name c)) rr) (\<lambda>rr'. \<not> stopped rr')"
proof (rule succeedsI)
  let ?expected = "expected_labels L r (meta_name c)"
  let ?acc = "access_reconciler r" and ?req = "object_key c"
  fix w
  assume ready: "deploy_ready L r c config svc a ar (V w)"
  then obtain name ks cfg where named: "cluster_based_resource_name L (meta_name c) = Returned name"
    and source: "configured_source (spec_source (service_spec config)) = Some ks"
    and cfg: "select_config (spec_purposes (service_spec config)) (cluster_purposes c) = Some cfg" "config_helm_values cfg \<noteq> None"
    and owner: "\<And>os. \<exists>os'. lib_set_owner L c os = Inr os'"
    and granted: "access_granted L r ?req a ar"
    by (auto simp: deploy_ready_def nameable_def ownable_def)
  obtain d w1 where 1: "access_reconcile ?acc ?req w = ((\<lparr>requeue_after = d\<rparr>, None), w1)" "d \<le> 0"
    using granted unfolding access_granted_def by (metis prod.collapse)
  obtain w2 where 2: "access_request_of ?acc ?req w1 = ((Some ar, None), w2)"
    using granted unfolding access_granted_def by (metis prod.collapse)
  obtain w3 where 3: "access_cluster ?acc ?req w2 = ((Some a, None), w3)"
    using granted unfolding access_granted_def by (metis prod.collapse)
  have view: "V w3 = V w"
    using laws 1 2 3 unfolding outcome_laws_def server_law_def access_honest_def by (metis snd_conv)
  let ?rr = "rr\<lparr>rr_access_request := Some ar, rr_access := Some a\<rparr>"
  have inputs: "run_inputs L config svc ?rr"
    using rr cfg granted by (auto simp: run_inputs_def side_reachable_def access_granted_def)
  have "\<not> stopped ?rr" using rr(4) by (simp add: stopped_def)
  moreover obtain k spec where "ks = (k, spec)" by (cases ks)
  ultimately have phases: "succeeds V (\<lambda>v. target_ready r ?expected config svc ?rr v \<and>
      secrets_ready r ?expected OnPlatform (meta_namespace c) (secret_entries config svc PlatformClusterCopy) v)
    (deploy_phases L r c ?expected ?rr) (\<lambda>rr'. \<not> stopped rr')"
    using source by (intro deploy_phases_succeed [OF outcome_laws_deploy [OF laws] reliable owner named _ apart inputs]) simp_all
  have "target_ready r ?expected config svc ?rr (V w3) \<and>
      secrets_ready r ?expected OnPlatform (meta_namespace c) (secret_entries config svc PlatformClusterCopy) (V w3)"
    using ready by (auto simp: target_ready_def side_for_def deploy_ready_def view)
  from succeedsE [OF phases this] obtain rr' w' where
    "deploy_phases L r c ?expected ?rr w3 = (Returned rr', w')" "\<not> stopped rr'" .
  with 1 2 3 show "\<exists>rr' w'. deploy_with_access L r c ?expected rr w = (Returned rr', w') \<and> \<not> stopped rr'"
    by (simp add: deploy_with_access_def Let_def)
qed

lemma reliable_patch:
  assumes "kind_honest K V sd res wrap api" and "kind_reliable V sd res wrap api"
    and "V w (sd, res, object_key new) = Some (wrap old)"
  shows "\<exists>w'. api_patch api old new w = (Inr new, w') \<and> same_off {(sd, res, object_key new)} (V w) (V w')"
proof -
  have "\<exists>obj. fst (api_patch api old new w) = Inr obj"
    using assms(2,3) unfolding kind_reliable_def by blast
  then obtain obj w' where patch: "api_patch api old new w = (Inr obj, w')"
    by (metis prod.collapse)
  from honest_patch(2) [OF assms(1) patch refl] assms(3) obtain left where
    "obj = new" "V w' = (V w)((sd, res, object_key new) := left)" by auto
  with patch show ?thesis by simp
qed

lemma server_reliable_clusters:
  "server_reliable V L r \<Longrightarrow> kind_reliable V OnPlatform RCluster ACluster (clusters_api (platform r))"
  by (simp add: server_reliable_def client_reliable_def)

lemma handle_create_succeeds:
  assumes laws: "outcome_laws V L r" and reliable: "server_reliable V L r"
    and apart: "meta_namespace c \<noteq> provider_namespace r"
    and rr: "rr_provider_config rr = Some config" "rr_platform_service rr = Some svc"
      "rr_config rr = select_config (spec_purposes (service_spec config)) (cluster_purposes c)" "\<not> stopped rr"
    and stored: "V (world s) (OnPlatform, RCluster, object_key c) = Some (ACluster c)"
    and ready: "deploy_ready L r c config svc a ar (V (world s))"
  shows "\<exists>rr' s'. handle_create_or_update L r c (expected_labels L r (meta_name c)) rr s = (Returned rr', s') \<and> \<not> stopped rr'"
proof -
  let ?expected = "expected_labels L r (meta_name c)"
  obtain changed fins where fin: "lib_add_finalizer L (cluster_finalizer L) (meta_finalizers c) = (changed, fins)"
    by (cases "lib_add_finalizer L (cluster_finalizer L) (meta_finalizers c)")
  let ?c = "c\<lparr>meta_finalizers := fins\<rparr>"
  have after: "\<exists>rr' s'. create_after_finalizer L r ?c ?expected rr s1 = (Returned rr', s') \<and> \<not> stopped rr'"
    if "deploy_ready L r c config svc a ar (V (world s1))" for s1
  proof -
    have "deploy_ready L r ?c config svc a ar (V (world s1))"
      using that deploy_ready_update [of ?c c L r config svc a ar] by simp
    from succeedsE [OF deploy_with_access_succeeds [OF laws reliable, where c = ?c and rr = rr] this]
    obtain rr' w' where "deploy_with_access L r ?c ?expected rr (world s1) = (Returned rr', w')" "\<not> stopped rr'"
      using apart rr by auto
    then show ?thesis by (simp add: create_after_finalizer_def on_world_def)
  qed
  show ?thesis
  proof (cases changed)
    case False
    with fin after [OF ready] show ?thesis by (simp add: handle_create_or_update_def)
  next
    case True
    have server: "server_law V L r" using laws by (simp add: outcome_laws_def)
    have "V (world s) (OnPlatform, RCluster, object_key ?c) = Some (ACluster c)" using stored by simp
    from reliable_patch [OF server_law_clusters [OF server] server_reliable_clusters [OF reliable] this]
    obtain w1 where patch: "api_patch (clusters_api (platform r)) c ?c (world s) = (Inr ?c, w1)"
      "same_off {(OnPlatform, RCluster, object_key ?c)} (V (world s)) (V w1)" by blast
    from after [of "s\<lparr>world := w1\<rparr>"] deploy_ready_off [OF ready patch(2)] True fin patch(1) show ?thesis
      by (simp add: handle_create_or_update_def)
  qed
qed

text \<open>Loading the configuration succeeds when it is there.\<close>

lemma reconcile_loaded_succeeds:
  assumes server: "server_law V L r" "server_reliable V L r" and stored: "asked_for r (V (world s)) req c config svc"
  shows "\<exists>s1. V (world s1) = V (world s) \<and> reconcile_loaded L r c s =
    reconcile_configured L r c (expected_labels L r (meta_name c))
      (empty_result\<lparr>rr_provider_config := Some config, rr_platform_service := Some svc\<rparr>) config s1"
proof -
  have kinds: "kind_honest (managed_labels L) V OnPlatform RConfig AConfig (configs_api (platform r))"
    "kind_honest (managed_labels L) V OnPlatform RService AService (services_api (platform r))"
    "kind_reliable V OnPlatform RConfig AConfig (configs_api (platform r))"
    "kind_reliable V OnPlatform RService AService (services_api (platform r))"
    using server by (simp_all add: server_law_def client_honest_def server_reliable_def client_reliable_def)
  from stored have objs: "V (world s) (OnPlatform, RConfig, service_key r) = Some (AConfig config)"
    "V (world s) (OnPlatform, RService, service_key r) = Some (AService svc)"
    by (simp_all add: asked_for_def)
  from reliable_get(1) [OF kinds(1,3) objs(1)] obtain w1 where
    1: "api_get (configs_api (platform r)) (service_key r) (world s) = (Inr config, w1)" "V w1 = V (world s)" by blast
  with reliable_get(1) [OF kinds(2,4), of w1 "service_key r" svc] objs(2) obtain w2 where
    2: "api_get (services_api (platform r)) (service_key r) w1 = (Inr svc, w2)" "V w2 = V (world s)" by auto
  with 1 show ?thesis
    by (intro exI [of _ "s\<lparr>world := w2\<rparr>"]) (simp add: reconcile_loaded_def Let_def service_key_def)
qed

lemma reconcile_cluster_succeeds:
  assumes server: "server_law V L r" "server_reliable V L r"
    and stored: "asked_for r (V (world s)) (object_key c) c config svc"
    and op: "requested_operation L c \<noteq> Some (lib_operation_ignore L)"
  shows "\<exists>anns s1. asked_for r (V (world s1)) (object_key c) (c\<lparr>meta_annotations := anns\<rparr>) config svc \<and>
    same_off {(OnPlatform, RCluster, object_key c)} (V (world s)) (V (world s1)) \<and>
    reconcile_cluster L r c s = reconcile_loaded L r (c\<lparr>meta_annotations := anns\<rparr>) s1"
proof (cases "requested_operation L c = Some (lib_operation_reconcile L)")
  case False
  with op stored show ?thesis
    by (intro exI [of _ "meta_annotations c"] exI [of _ s]) (simp add: reconcile_cluster_def)
next
  case True
  obtain c' w1 where call: "lib_remove_annotation L (lib_operation_annotation L) c (world s) = (Inr c', w1)"
    using server(2) unfolding server_reliable_def by (metis prod.collapse)
  have "case Inr c' of
      Inl (e :: api_error) \<Rightarrow> V w1 = V (world s)
    | Inr c' \<Rightarrow> \<exists>anns. c' = c\<lparr>meta_annotations := anns\<rparr> \<and>
        V w1 = (V (world s))((OnPlatform, RCluster, object_key c) \<mapsto> ACluster c')"
    using server(1) call unfolding server_law_def annotation_honest_def by blast
  then obtain anns where c': "c' = c\<lparr>meta_annotations := anns\<rparr>"
    and view: "V w1 = (V (world s))((OnPlatform, RCluster, object_key c) \<mapsto> ACluster c')" by auto
  from stored have "asked_for r (V w1) (object_key c) c' config svc"
    by (simp add: asked_for_def view)
  with c' call op True view show ?thesis
    by (intro exI [of _ anns] exI [of _ "s\<lparr>world := w1\<rparr>"]) (simp add: reconcile_cluster_def)
qed

text \<open>
  \<open>Reconcile\<close> ends without error and requeue if, wherever the annotation leads, the run with its
  configuration does.
\<close>

lemma Reconcile_succeeds:
  assumes server: "server_law V L r" "server_reliable V L r"
    and stored: "asked_for r (V (world s)) req c config svc"
    and op: "requested_operation L c \<noteq> Some (lib_operation_ignore L)"
    and run: "\<And>anns s1. object_key c = req \<Longrightarrow>
      asked_for r (V (world s1)) req (c\<lparr>meta_annotations := anns\<rparr>) config svc \<Longrightarrow>
      same_off {(OnPlatform, RCluster, req)} (V (world s)) (V (world s1)) \<Longrightarrow>
      \<exists>rr s2. reconcile_configured L r (c\<lparr>meta_annotations := anns\<rparr>) (expected_labels L r (meta_name c))
        (empty_result\<lparr>rr_provider_config := Some config, rr_platform_service := Some svc\<rparr>) config s1 =
          (Returned rr, s2) \<and> \<not> stopped rr"
  shows "\<exists>res s'. Reconcile L r req s = (Returned (res, None), s') \<and> requeue_after res \<le> 0"
proof -
  have "V (world s) (OnPlatform, RCluster, req) = Some (ACluster c)"
    using stored by (simp add: asked_for_def)
  from reliable_get(1) [OF server_law_clusters [OF server(1)] server_reliable_clusters [OF server(2)] this]
  obtain w1 where get: "api_get (clusters_api (platform r)) req (world s) = (Inr c, w1)" "V w1 = V (world s)" by blast
  have key: "object_key c = req"
    using honest_get(2) [OF server_law_clusters [OF server(1)] get(1) refl] by simp
  have "asked_for r (V (world (s\<lparr>world := w1\<rparr>))) (object_key c) c config svc"
    using stored get(2) key by simp
  from reconcile_cluster_succeeds [OF server this op] obtain anns s1 where
    1: "asked_for r (V (world s1)) (object_key c) (c\<lparr>meta_annotations := anns\<rparr>) config svc"
    "same_off {(OnPlatform, RCluster, object_key c)} (V w1) (V (world s1))"
    "reconcile_cluster L r c (s\<lparr>world := w1\<rparr>) = reconcile_loaded L r (c\<lparr>meta_annotations := anns\<rparr>) s1"
    by auto
  from reconcile_loaded_succeeds [OF server 1(1)] obtain s3 where
    3: "V (world s3) = V (world s1)" "reconcile_loaded L r (c\<lparr>meta_annotations := anns\<rparr>) s1 =
      reconcile_configured L r (c\<lparr>meta_annotations := anns\<rparr>) (expected_labels L r (meta_name c))
        (empty_result\<lparr>rr_provider_config := Some config, rr_platform_service := Some svc\<rparr>) config s3"
    by auto
  from run [OF key, of s3 anns] 1 3(1) get(2) key obtain rr s2 where
    "reconcile_configured L r (c\<lparr>meta_annotations := anns\<rparr>) (expected_labels L r (meta_name c))
        (empty_result\<lparr>rr_provider_config := Some config, rr_platform_service := Some svc\<rparr>) config s3 =
          (Returned rr, s2)" "\<not> stopped rr"
    by auto
  then show ?thesis
    using get(1) 1(3) 3(2) by (simp add: Reconcile_def bind_st_def stopped_def)
qed

text \<open>
  C6. A reliable server and everything in place lead to a deployed Cluster: one run ends without error
  and without a request to come back, and afterwards the Cluster is deployed as configured.
\<close>

theorem reliable_run_deploys:
  assumes laws: "outcome_laws V L r" and reliable: "server_reliable V L r"
    and stored: "asked_for r (V (world s)) req c config svc" and wanted: "wanted_cluster c config"
    and op: "requested_operation L c \<noteq> Some (lib_operation_ignore L)"
    and apart: "nn_namespace req \<noteq> provider_namespace r"
    and ready: "deploy_ready L r c config svc a ar (V (world s))"
  shows "\<exists>res s'. Reconcile L r req s = (Returned (res, None), s') \<and> requeue_after res \<le> 0 \<and>
    cluster_deployed L r req config svc (V (world s')) (known_clusters s')"
proof -
  have server: "server_law V L r" using laws by (simp add: outcome_laws_def)
  have "\<exists>res s'. Reconcile L r req s = (Returned (res, None), s') \<and> requeue_after res \<le> 0"
  proof (rule Reconcile_succeeds [OF server reliable stored op])
    fix anns and s1 :: "'a controller_state"
    let ?c = "c\<lparr>meta_annotations := anns\<rparr>"
    let ?rr = "empty_result\<lparr>rr_provider_config := Some config, rr_platform_service := Some svc\<rparr>"
    let ?config = "select_config (spec_purposes (service_spec config)) (cluster_purposes c)"
    assume key: "object_key c = req" and before: "asked_for r (V (world s1)) req ?c config svc"
      and off: "same_off {(OnPlatform, RCluster, req)} (V (world s)) (V (world s1))"
    have keys: "object_key ?c = object_key c" by (simp add: object_key_def)
    have "V (world s1) (OnPlatform, RCluster, object_key ?c) = Some (ACluster ?c)"
      using before key keys by (simp add: asked_for_def)
    moreover have "meta_namespace ?c \<noteq> provider_namespace r" using apart key by auto
    moreover have "deploy_ready L r ?c config svc a ar (V (world s1))"
      unfolding deploy_ready_update [OF keys cluster_purposes_update(1)]
      by (rule deploy_ready_off [OF ready off])
    ultimately have "\<exists>rr' s'. handle_create_or_update L r ?c (expected_labels L r (meta_name ?c))
        (?rr\<lparr>rr_config := ?config\<rparr>) s1 = (Returned rr', s') \<and> \<not> stopped rr'"
      by (intro handle_create_succeeds [OF laws reliable]) (simp_all add: stopped_def empty_result_def)
    then show "\<exists>rr s2. reconcile_configured L r ?c (expected_labels L r (meta_name c)) ?rr config s1 =
        (Returned rr, s2) \<and> \<not> stopped rr"
      using wanted by (simp add: reconcile_configured_def Let_def wanted_cluster_def)
  qed
  then obtain res s' where run: "Reconcile L r req s = (Returned (res, None), s')" "requeue_after res \<le> 0" by blast
  from run show ?thesis
    using run_deploys [OF laws stored wanted op apart run] by blast
qed

subsection \<open>A Cluster that is not wanted\<close>

text \<open>
  Access can be given up: the AccessRequest can be read or is gone, and while it is granted the Cluster
  can be reached.
\<close>

definition cluster_reachable :: "'w lib \<Rightarrow> 'w reconciler \<Rightarrow> namespaced_name \<Rightarrow> access_request option \<Rightarrow> bool" where
  "cluster_reachable L r req ar \<longleftrightarrow>
     (\<forall>a. ar = Some a \<and> \<not> meta_deleting a \<and> request_granted a \<longrightarrow>
        (\<forall>w. \<exists>t. fst (access_cluster (access_reconciler r) req w) = (Some t, None) \<and> lib_client_of L t \<noteq> None))"

definition access_removable :: "'w lib \<Rightarrow> 'w reconciler \<Rightarrow> namespaced_name \<Rightarrow> bool" where
  "access_removable L r req \<longleftrightarrow>
     (\<forall>w. \<exists>d. fst (access_reconcile (access_reconciler r) req w) = (\<lparr>requeue_after = d\<rparr>, None) \<and> d \<le> 0) \<and>
     (\<forall>w. \<exists>ar err. fst (access_request_of (access_reconciler r) req w) = (ar, err) \<and> ignore_not_found err = None \<and>
        cluster_reachable L r req ar) \<and>
     (\<forall>w. \<exists>d. fst (access_reconcile_delete (access_reconciler r) req w) = (\<lparr>requeue_after = d\<rparr>, None) \<and> d \<le> 0)"

lemma remove_target_secrets_succeeds:
  assumes reliable: "server_reliable V L r" and access: "cluster_reachable L r (object_key c) ar" and "\<not> stopped rr"
  shows "succeeds V P (remove_target_secrets L r c expected ar rr) (\<lambda>rr'. \<not> stopped rr')"
proof (rule succeedsI)
  fix w
  show "\<exists>rr' w'. remove_target_secrets L r c expected ar rr w = (Returned rr', w') \<and> \<not> stopped rr'"
  proof (cases "\<exists>a. ar = Some a \<and> \<not> meta_deleting a \<and> request_granted a")
    case False
    with assms(3) show ?thesis by (auto simp: remove_target_secrets_def split: option.split)
  next
    case True
    then obtain a where granted: "ar = Some a" "\<not> meta_deleting a" "request_granted a" by blast
    with access obtain t where "fst (access_cluster (access_reconciler r) (object_key c) w) = (Some t, None)"
      "lib_client_of L t \<noteq> None" unfolding cluster_reachable_def by blast
    then obtain w1 where t: "access_cluster (access_reconciler r) (object_key c) w = ((Some t, None), w1)"
      "lib_client_of L t \<noteq> None" by (metis prod.collapse)
    have "\<not> stopped (rr\<lparr>rr_access := Some t\<rparr>)" using assms(3) by (simp add: stopped_def)
    moreover have "side_reachable L TargetClusterCopy (rr\<lparr>rr_access := Some t\<rparr>)"
      using t(2) by (simp add: side_reachable_def)
    ultimately obtain rr' w' where "remove_secrets L r target_cluster_namespace expected (rr\<lparr>rr_access := Some t\<rparr>)
        TargetClusterCopy {} w1 = (Returned rr', w')" "\<not> stopped rr'"
      using remove_secrets_succeeds [OF reliable, of "rr\<lparr>rr_access := Some t\<rparr>" TargetClusterCopy "\<lambda>v. True"]
      unfolding succeeds_def by blast
    with t(1) granted show ?thesis by (simp add: remove_target_secrets_def)
  qed
qed

lemma undeploy_source_succeeds:
  assumes reliable: "server_reliable V L r" and "\<not> stopped rr"
  shows "succeeds V P (undeploy_helm_chart_source L r c expected rr) (\<lambda>rr'. \<not> stopped rr')"
proof (rule succeedsI)
  fix w
  obtain objs w1 where "undeploy_helm_chart_source L r c expected rr w =
      finish_sources (platform r) objs rr RemovedSources w1"
    using existing_sources_succeed [OF reliable] unfolding undeploy_helm_chart_source_def by blast
  with finish_sources_succeeds [OF reliable] assms(2)
  show "\<exists>rr' w'. undeploy_helm_chart_source L r c expected rr w = (Returned rr', w') \<and> \<not> stopped rr'"
    by (metis stopped_message)
qed

lemma delete_access_succeeds:
  assumes access: "access_removable L r (object_key c)" and "\<not> stopped rr"
  shows "succeeds V P (delete_access r c rr) (\<lambda>rr'. \<not> stopped rr')"
proof (rule succeedsI)
  fix w
  obtain d w1 where "access_reconcile_delete (access_reconciler r) (object_key c) w = ((\<lparr>requeue_after = d\<rparr>, None), w1)" "d \<le> 0"
    using access unfolding access_removable_def by (metis prod.collapse)
  with assms(2) show "\<exists>rr' w'. delete_access r c rr w = (Returned rr', w') \<and> \<not> stopped rr'"
    by (simp add: delete_access_def)
qed

lemma cleanup_phases_succeed:
  assumes laws: "deploy_laws V L r expected" and reliable: "server_reliable V L r"
    and access: "access_removable L r (object_key c)" and "\<not> stopped rr" and "cluster_reachable L r (object_key c) ar"
  shows "succeeds V (\<lambda>v. True) (cleanup_phases L r c expected ar rr) (\<lambda>rr'. \<not> stopped rr')"
proof -
  have server: "server_law V L r" "fst ` set expected \<subseteq> managed_labels L" "project_law L"
    using laws by (simp_all add: deploy_laws_def)
  show ?thesis
    unfolding cleanup_phases_def
  proof (rule succeeds_chain [where Q = "\<lambda>rr. True" and P' = "\<lambda>v. True"])
    show "succeeds V (\<lambda>v. True) (remove_target_secrets L r c expected ar rr) (\<lambda>rr'. \<not> stopped rr' \<and> True)"
      using remove_target_secrets_succeeds [OF reliable assms(5,4)] by simp
    show "achieves V (copy_region TargetClusterCopy target_cluster_namespace)
        (remove_target_secrets L r c expected ar rr) (\<lambda>rr' v v'. True)"
      by (rule achieves_remove_target_secrets [OF server(1,2)])
    show "succeeds V (\<lambda>v. True) (chain (undeploy_helm_chart_source L r c expected rr1) (\<lambda>rr.
        chain (remove_secrets L r (meta_namespace c) expected rr PlatformClusterCopy {}) (\<lambda>rr. delete_access r c rr)))
      (\<lambda>rr'. \<not> stopped rr')" if "\<not> stopped rr1" for rr1
    proof (rule succeeds_chain [where Q = "\<lambda>rr. True" and P' = "\<lambda>v. True"])
      show "succeeds V (\<lambda>v. True) (undeploy_helm_chart_source L r c expected rr1) (\<lambda>rr'. \<not> stopped rr' \<and> True)"
        using undeploy_source_succeeds [OF reliable that] by simp
      show "succeeds V (\<lambda>v. True) (chain (remove_secrets L r (meta_namespace c) expected rr2 PlatformClusterCopy {})
          (\<lambda>rr. delete_access r c rr)) (\<lambda>rr'. \<not> stopped rr')" if "\<not> stopped rr2" for rr2
      proof (rule succeeds_chain [where P' = "\<lambda>v. True", OF remove_secrets_succeeds [OF reliable that] achieves_remove_secrets [OF server(1,2)]])
        show "side_reachable L PlatformClusterCopy rr2" by (simp add: side_reachable_def)
        show "succeeds V (\<lambda>v. True) (delete_access r c rr3) (\<lambda>rr'. \<not> stopped rr')" if "\<not> stopped rr3" for rr3
          by (rule delete_access_succeeds [OF access that])
      qed simp
    qed (use achieves_undeploy_source [OF server(1,3,2)] in auto)
  qed simp
qed

lemma cleanup_with_access_succeeds:
  assumes laws: "deploy_laws V L r expected" and reliable: "server_reliable V L r"
    and access: "access_removable L r (object_key c)" and "\<not> stopped rr"
  shows "\<exists>rr' w'. cleanup_with_access L r c expected rr w = (Returned rr', w') \<and> \<not> stopped rr'"
proof -
  obtain d w1 where 1: "access_reconcile (access_reconciler r) (object_key c) w = ((\<lparr>requeue_after = d\<rparr>, None), w1)" "d \<le> 0"
    using access unfolding access_removable_def by (metis prod.collapse)
  obtain ar err w2 where 2: "access_request_of (access_reconciler r) (object_key c) w1 = ((ar, err), w2)"
    "ignore_not_found err = None" "cluster_reachable L r (object_key c) ar"
    using access unfolding access_removable_def by (metis prod.collapse)
  obtain rr' w' where "cleanup_phases L r c expected ar rr w2 = (Returned rr', w')" "\<not> stopped rr'"
    using cleanup_phases_succeed [OF laws reliable access assms(4) 2(3)] unfolding succeeds_def by blast
  with 1 2 show ?thesis by (simp add: cleanup_with_access_def Let_def)
qed

definition release_gone :: "'w lib \<Rightarrow> cluster \<Rightarrow> objects \<Rightarrow> bool" where
  "release_gone L c v \<longleftrightarrow>
     (\<exists>name. cluster_based_resource_name L (meta_name c) = Returned name \<and>
        v (OnPlatform, RRelease, \<lparr>nn_namespace = meta_namespace c, nn_name = name\<rparr>) = None)"

lemma handle_delete_succeeds:
  assumes laws: "outcome_laws V L r" and reliable: "server_reliable V L r"
    and access: "access_removable L r (object_key c)" and "\<not> stopped rr"
    and stored: "V (world s) (OnPlatform, RCluster, object_key c) = Some (ACluster c)"
    and fin: "cluster_finalizer L \<in> set (meta_finalizers c)" and gone: "release_gone L c (V (world s))"
  shows "\<exists>rr' s'. handle_delete L r c (expected_labels L r (meta_name c)) rr s = (Returned rr', s') \<and> \<not> stopped rr'"
proof -
  let ?expected = "expected_labels L r (meta_name c)"
  have server: "server_law V L r" "project_law L" "finalizer_law L"
    using laws by (simp_all add: outcome_laws_def)
  note deploy = outcome_laws_deploy [OF laws, of "meta_name c"]
  from gone obtain name where name: "cluster_based_resource_name L (meta_name c) = Returned name"
    "V (world s) (OnPlatform, RRelease, \<lparr>nn_namespace = meta_namespace c, nn_name = name\<rparr>) = None"
    by (auto simp: release_gone_def)
  have "kind_reliable V OnPlatform RRelease ARelease (releases_api (platform r))"
    using reliable by (simp add: server_reliable_def client_reliable_def)
  from reliable_get(2) [OF server_law_releases [OF server(1)] this name(2)] obtain w1 where
    1: "api_get (releases_api (platform r)) \<lparr>nn_namespace = meta_namespace c, nn_name = name\<rparr> (world s) =
      (Inl NotFound, w1)" "V w1 = V (world s)" by blast
  let ?rr = "rr\<lparr>rr_related := Some \<lparr>nn_namespace = meta_namespace c, nn_name = name\<rparr>\<rparr>"
  have undeploy: "undeploy_helm_release L r c ?expected rr (world s) = (Returned ?rr, w1)"
    using name(1) 1(1) by (simp add: undeploy_helm_release_def bind_st_def of_outcome_def Let_def)
  have going: "\<not> stopped ?rr" using assms(4) by (simp add: stopped_def)
  from cleanup_with_access_succeeds [OF deploy reliable access going] obtain rr2 w2 where
    2: "cleanup_with_access L r c ?expected ?rr w1 = (Returned rr2, w2)" "\<not> stopped rr2" by blast
  have labels: "fst ` set ?expected \<subseteq> managed_labels L" using deploy by (simp add: deploy_laws_def)
  have "V w2 (OnPlatform, RCluster, object_key c) = V w1 (OnPlatform, RCluster, object_key c)"
    by (rule same_offD [OF cleanup_with_access_achieves(1) [OF server(1,2) labels 2]])
       (simp add: cleanup_region_def)
  then have "V w2 (OnPlatform, RCluster, object_key c) = Some (ACluster c)"
    using stored 1(2) by simp
  let ?fins = "filter (\<lambda>g. g \<noteq> cluster_finalizer L) (meta_finalizers c)"
  have "lib_remove_finalizer L (cluster_finalizer L) (meta_finalizers c) = (True, ?fins)"
    using server(3) fin by (simp add: finalizer_law_def)
  moreover obtain w3 where
    "api_patch (clusters_api (platform r)) c (c\<lparr>meta_finalizers := ?fins\<rparr>) w2 = (Inr (c\<lparr>meta_finalizers := ?fins\<rparr>), w3)"
    using reliable_patch [OF server_law_clusters [OF server(1)] server_reliable_clusters [OF reliable],
        of w2 "c\<lparr>meta_finalizers := ?fins\<rparr>" c] \<open>V w2 _ = Some (ACluster c)\<close> by auto
  ultimately show ?thesis
    using fin undeploy going 2
    by (simp add: handle_delete_def chain_def bind_st_def on_world_def release_cluster_def Let_def)
qed

text \<open>
  C7. Once the HelmRelease of an unwanted Cluster is gone, one run on a reliable server, for a Cluster that
  carries the finalizer and has no effective ignore annotation and whose access can be given up, ends
  without error and request to come back. Afterwards the finalizer is off, the Cluster is forgotten, and no
  HelmRelease and no labelled source or secret that is not going is left on the platform cluster; and no
  such secret is left on the Cluster itself, unless the run found the AccessRequest to be absent, not
  granted or being deleted.
\<close>

theorem reliable_run_cleans_up:
  assumes laws: "outcome_laws V L r" and reliable: "server_reliable V L r"
    and stored: "asked_for r (V (world s)) req c config svc" and unwanted: "\<not> wanted_cluster c config"
    and fin: "cluster_finalizer L \<in> set (meta_finalizers c)"
    and op: "requested_operation L c \<noteq> Some (lib_operation_ignore L)"
    and access: "access_removable L r req" and gone: "release_gone L c (V (world s))"
  shows "\<exists>res s'. Reconcile L r req s = (Returned (res, None), s') \<and> requeue_after res \<le> 0 \<and>
    cluster_removed L r c (V (world s')) (known_clusters s') \<and>
    target_cleared r c (expected_labels L r (meta_name c)) (cleanup_world L r c (world s)) (V (world s'))"
proof -
  have server: "server_law V L r" using laws by (simp add: outcome_laws_def)
  have "\<exists>res s'. Reconcile L r req s = (Returned (res, None), s') \<and> requeue_after res \<le> 0"
  proof (rule Reconcile_succeeds [OF server reliable stored op])
    fix anns and s1 :: "'a controller_state"
    let ?c = "c\<lparr>meta_annotations := anns\<rparr>"
    let ?rr = "empty_result\<lparr>rr_provider_config := Some config, rr_platform_service := Some svc\<rparr>"
    let ?config = "select_config (spec_purposes (service_spec config)) (cluster_purposes c)"
    assume key: "object_key c = req" and before: "asked_for r (V (world s1)) req ?c config svc"
      and off: "same_off {(OnPlatform, RCluster, req)} (V (world s)) (V (world s1))"
    have keys: "object_key ?c = object_key c" by (simp add: object_key_def)
    have "V (world s1) (OnPlatform, RRelease, nn) = V (world s) (OnPlatform, RRelease, nn)" for nn
      by (rule same_offD [OF off]) simp
    then have "release_gone L ?c (V (world s1))" using gone by (simp add: release_gone_def)
    moreover have "V (world s1) (OnPlatform, RCluster, object_key ?c) = Some (ACluster ?c)"
      using before key keys by (simp add: asked_for_def)
    moreover have "access_removable L r (object_key ?c)" using access key keys by simp
    ultimately have "\<exists>rr' s'. handle_delete L r ?c (expected_labels L r (meta_name ?c))
        (?rr\<lparr>rr_config := ?config\<rparr>) s1 = (Returned rr', s') \<and> \<not> stopped rr'"
      using fin by (intro handle_delete_succeeds [OF laws reliable]) (simp_all add: stopped_def empty_result_def)
    then show "\<exists>rr s2. reconcile_configured L r ?c (expected_labels L r (meta_name c)) ?rr config s1 =
        (Returned rr, s2) \<and> \<not> stopped rr"
      using unwanted by (auto simp: reconcile_configured_def Let_def wanted_cluster_def)
  qed
  then obtain res s' where run: "Reconcile L r req s = (Returned (res, None), s')" "requeue_after res \<le> 0" by blast
  with run_cleans_up [OF laws stored unwanted fin op run] show ?thesis by blast
qed

end
