(* ===== verification/Stability.thy ===== *)
theory Stability
  imports Outcomes
begin

section \<open>A deployed Cluster is left alone\<close>

text \<open>
  Every event leads to a run that goes through all phases again, so writing must come to an end: once a
  Cluster is deployed as configured and nothing that belongs to it is being deleted, a run changes no
  object, whether it succeeds, fails or panics on the way. The contract is \<open>rests\<close>: started on worlds
  with one given view, a computation keeps that view.
\<close>

subsection \<open>The contract\<close>

definition rests :: "('w \<Rightarrow> objects) \<Rightarrow> objects \<Rightarrow> ('w, 'a) comp \<Rightarrow> ('a \<Rightarrow> bool) \<Rightarrow> bool" where
  "rests V v m Q \<longleftrightarrow>
     (\<forall>w x w'. m w = (x, w') \<and> V w = v \<longrightarrow> V w' = v \<and> (\<forall>a. x = Returned a \<longrightarrow> Q a))"

abbreviation keeps :: "('w \<Rightarrow> objects) \<Rightarrow> objects \<Rightarrow> ('w, 'a) comp \<Rightarrow> bool" where
  "keeps V v m \<equiv> rests V v m (\<lambda>_. True)"

lemma restsI:
  assumes "\<And>w x w'. m w = (x, w') \<Longrightarrow> V w = v \<Longrightarrow> V w' = v \<and> (\<forall>a. x = Returned a \<longrightarrow> Q a)"
  shows "rests V v m Q"
  using assms unfolding rests_def by blast

lemma restsD:
  assumes "rests V v m Q" and "m w = (x, w')" and "V w = v"
  shows "V w' = v" and "x = Returned a \<Longrightarrow> Q a"
  using assms by (auto simp: rests_def)

lemma rests_return: "Q a \<Longrightarrow> rests V v (return_st a) Q"
  by (simp add: rests_def return_st_def)

lemma rests_bind:
  assumes "rests V v m Q" and "\<And>a. Q a \<Longrightarrow> rests V v (f a) S"
  shows "rests V v (bind_st m f) S"
proof (rule restsI)
  fix w x w'
  assume run: "bind_st m f w = (x, w')" and view: "V w = v"
  obtain y w1 where first: "m w = (y, w1)" by (cases "m w")
  note rest = restsD [OF assms(1) first view]
  show "V w' = v \<and> (\<forall>a. x = Returned a \<longrightarrow> S a)"
  proof (cases y)
    case (Returned a)
    with run first have "f a w1 = (x, w')" by (simp add: bind_st_def)
    from restsD [OF assms(2) [OF rest(2) [OF Returned]] this rest(1)] show ?thesis by blast
  next
    case (Panicked p)
    with run first rest(1) show ?thesis by (auto simp: bind_st_def)
  qed
qed

lemma rests_deref: "(\<And>a. p = Some a \<Longrightarrow> rests V v (f a) Q) \<Longrightarrow> rests V v (deref p f) Q"
  by (cases p) (auto simp: rests_def deref_def)

lemma rests_of_outcome: "rests V v (of_outcome x) (\<lambda>a. x = Returned a)"
  by (simp add: rests_def of_outcome_def)

lemma keeps_weaken: "rests V v m Q \<Longrightarrow> keeps V v m"
  by (auto simp: rests_def)

text \<open>What a computation achieves, it also achieves at rest.\<close>

lemma rests_effect: "keeps V v m \<Longrightarrow> effect V R m Q \<Longrightarrow> rests V v m (\<lambda>a. Q a v v)"
  unfolding rests_def effect_def by metis

lemma keeps_chain:
  assumes "keeps V v m" and "achieves V R m Q" and "\<And>rr. \<not> stopped rr \<Longrightarrow> Q rr v v \<Longrightarrow> keeps V v (f rr)"
  shows "keeps V v (chain m f)"
  unfolding chain_def
proof (rule rests_bind [OF rests_effect [OF assms(1) assms(2) [unfolded achieves_def]]])
  fix rr
  assume "\<not> stopped rr \<longrightarrow> Q rr v v"
  with assms(3) show "keeps V v (if stopped rr then return_st rr else f rr)"
    by (auto intro: rests_return)
qed

text \<open>
  Writing an object that its mutate function leaves as it is, and the calls that only read.
\<close>

lemma upsert_keeps:
  assumes "kind_honest K V sd res wrap api" and "inj wrap" and "api_upsert api obj f w = (ans, w')"
    and "V w (sd, res, object_key obj) = Some (wrap old)" and "f old = Mutated old"
  shows "V w' = V w"
proof -
  have "case ans of
      Returned (Inr new) \<Rightarrow> \<exists>base. f base = Mutated new \<and> object_key new = object_key obj \<and>
        (V w (sd, res, object_key obj) = Some (wrap base) \<or>
         V w (sd, res, object_key obj) = None \<and> base = obj) \<and>
        V w' = (V w)((sd, res, object_key obj) \<mapsto> wrap new)
    | _ \<Rightarrow> V w' = V w"
    using assms(1,3) unfolding kind_honest_def upsert_honest_def by blast
  with assms(2,4,5) show ?thesis
    by (auto simp: fun_upd_idem_iff split: outcome.splits sum.splits dest: injD)
qed

lemma inj_wraps [simp]: "inj ASecret" "inj ASource" "inj ARelease"
  by (simp_all add: inj_def)

subsection \<open>Secrets\<close>

lemma keeps_write_secret:
  assumes "kind_honest K V sd RSecret ASecret (secrets_api access)"
    and "v (sd, RSecret, object_key target) = Some (ASecret copy)"
    and "secret_mutation L expected source copy = Mutated copy"
  shows "keeps V v (write_secret L access why expected source copied target)"
proof (rule restsI)
  fix w x w'
  assume run: "write_secret L access why expected source copied target w = (x, w')" and view: "V w = v"
  obtain ans w1 where call: "api_upsert (secrets_api access) target (secret_mutation L expected source) w = (ans, w1)"
    by (cases "api_upsert (secrets_api access) target (secret_mutation L expected source) w")
  have "V w1 = v"
    using upsert_keeps [OF assms(1) inj_wraps(1) call _ assms(3)] assms(2) by (simp add: view)
  with run call show "V w' = v \<and> (\<forall>a. x = Returned a \<longrightarrow> True)"
    by (auto simp: write_secret_def split: outcome.splits sum.splits)
qed

lemma keeps_copy_secret:
  assumes platform: "kind_honest K V OnPlatform RSecret ASecret (secrets_api (platform r))"
    and target: "kind_honest K V sd RSecret ASecret (secrets_api access)"
    and copied: "copied_to L r expected v s (sd, RSecret, \<lparr>nn_namespace = ns, nn_name = t\<rparr>)"
  shows "keeps V v (copy_secret L r ct access why ns expected s t names)"
proof (rule restsI)
  let ?skey = "\<lparr>nn_namespace = provider_namespace r, nn_name = s\<rparr>"
  let ?tkey = "\<lparr>nn_namespace = ns, nn_name = t\<rparr>"
  fix w x w'
  assume run: "copy_secret L r ct access why ns expected s t names w = (x, w')" and view: "V w = v"
  from copied obtain source copy where source: "v (OnPlatform, RSecret, ?skey) = Some (ASecret source)"
    and copy: "v (sd, RSecret, ?tkey) = Some (ASecret copy)" "secret_mutation L expected source copy = Mutated copy"
    by (auto simp: copied_to_def)
  obtain src w1 where src: "api_get (secrets_api (platform r)) ?skey w = (src, w1)"
    by (cases "api_get (secrets_api (platform r)) ?skey w")
  obtain tgt w2 where tgt: "api_get (secrets_api access) ?tkey w1 = (tgt, w2)"
    by (cases "api_get (secrets_api access) ?tkey w1")
  have V1: "V w1 = v" using honest_get(1) [OF platform src] view by simp
  have V2: "V w2 = v" using honest_get(1) [OF target tgt] V1 by simp
  have found: "obj = source" if "src = Inr obj" for obj
    using honest_get(2) [OF platform src that] source view by simp
  have written: "V w' = v" if "object_key obj = ?tkey" "write_secret L access why expected source names obj w2 = (x, w')" for obj
    using restsD(1) [OF keeps_write_secret [OF target _ copy(2)] that(2) V2] copy(1) that(1) by simp
  from run src tgt V1 V2 written [of "new_secret ns t"] have "V w' = v"
    by (auto simp: copy_secret_def Let_def dest!: found dest: written honest_get(2) [OF target tgt]
        split: sum.splits if_splits)
  then show "V w' = v \<and> (\<forall>a. x = Returned a \<longrightarrow> True)" by simp
qed

lemma keeps_copy_loop:
  assumes "kind_honest K V OnPlatform RSecret ASecret (secrets_api (platform r))"
    and "kind_honest K V sd RSecret ASecret (secrets_api access)"
    and "\<forall>(s, t) \<in> set entries. copied_to L r expected v s (sd, RSecret, \<lparr>nn_namespace = ns, nn_name = t\<rparr>)"
  shows "keeps V v (copy_loop L r ct access why ns expected entries names)"
  using assms(3)
proof (induction entries arbitrary: names)
  case Nil
  show ?case by (auto intro: rests_return)
next
  case (Cons entry entries)
  obtain s t where entry: "entry = (s, t)" by (cases entry)
  show ?case
    unfolding entry copy_loop.simps
    using Cons entry
    by (intro rests_bind [OF keeps_copy_secret [OF assms(1,2)]])
       (auto split: prod.split intro: rests_return)
qed

text \<open>The entries that are copied have targets of their own, so each target keeps its copy.\<close>

lemma all_copied:
  assumes "copies_present L r expected sd ns entries v" and "distinct (map snd entries)"
  shows "\<forall>(s, t) \<in> set entries. copied_to L r expected v s (sd, RSecret, \<lparr>nn_namespace = ns, nn_name = t\<rparr>)"
proof clarify
  fix s t
  assume st: "(s, t) \<in> set entries"
  then have "t \<in> snd ` set entries" by force
  with assms(1) obtain s' where s': "(s', t) \<in> set entries"
    "copied_to L r expected v s' (sd, RSecret, \<lparr>nn_namespace = ns, nn_name = t\<rparr>)"
    unfolding copies_present_def by blast
  with st assms(2) have "s' = s" by (auto simp: distinct_map dest: inj_onD [where x = "(s', t)" and y = "(s, t)"])
  with s'(2) show "copied_to L r expected v s (sd, RSecret, \<lparr>nn_namespace = ns, nn_name = t\<rparr>)" by simp
qed

lemma keeps_copy_configured:
  assumes platform: "kind_honest K V OnPlatform RSecret ASecret (secrets_api (platform r))"
    and target: "\<And>access. target_access = Some access \<Longrightarrow> kind_honest K V sd RSecret ASecret (secrets_api access)"
    and "range_law L" and svc: "rr_platform_service rr = Some svc"
    and copied: "\<forall>(s, t) \<in> set (secret_map (image_pull_secrets svc) configured).
      copied_to L r expected v s (sd, RSecret, \<lparr>nn_namespace = ns, nn_name = t\<rparr>)"
  shows "keeps V v (copy_configured L r ns expected rr ct target_access why configured)"
proof (cases target_access)
  case None
  then show ?thesis by (auto simp: copy_configured_def svc Let_def intro: rests_return)
next
  case (Some access)
  let ?entries = "secret_map (image_pull_secrets svc) configured"
  have "set (lib_range L w ?entries) = set ?entries" for w
    using assms(3) unfolding range_law_def by (metis set_mset_mset)
  then have loop: "keeps V v (copy_loop L r ct access why ns expected (lib_range L w ?entries) {})" for w
    using copied by (intro keeps_copy_loop [OF platform target [OF Some]]) simp
  have "keeps V v (\<lambda>w. bind_st (copy_loop L r ct access why ns expected (lib_range L w ?entries) {}) (\<lambda>(e, names). return_st (g e names)) w)"
    for g :: "reasonable_error option \<Rightarrow> string set \<Rightarrow> reconcile_result \<times> string set"
  proof (rule restsI)
    fix w x w'
    assume run: "bind_st (copy_loop L r ct access why ns expected (lib_range L w ?entries) {})
        (\<lambda>(e, names). return_st (g e names)) w = (x, w')" and view: "V w = v"
    have "keeps V v (bind_st (copy_loop L r ct access why ns expected (lib_range L w ?entries) {})
        (\<lambda>(e, names). return_st (g e names)))"
      by (rule rests_bind [OF loop]) (auto intro: rests_return)
    from restsD(1) [OF this run view] show "V w' = v \<and> (\<forall>a. x = Returned a \<longrightarrow> True)" by simp
  qed
  then show ?thesis by (simp add: copy_configured_def svc Let_def Some)
qed

lemma keeps_copy_secrets:
  assumes server: "server_law V L r" and "range_law L"
    and loaded: "rr_provider_config rr = Some pc" "rr_platform_service rr = Some svc"
    and copied: "\<And>sd. side_for ct rr sd \<Longrightarrow> \<forall>(s, t) \<in> set (secret_entries pc svc ct).
      copied_to L r expected v s (sd, RSecret, \<lparr>nn_namespace = ns, nn_name = t\<rparr>)"
  shows "keeps V v (copy_secrets L r ns expected rr ct)"
proof (cases "spec_secrets (service_spec pc)")
  case None
  then show ?thesis by (auto simp: copy_secrets_def loaded intro: rests_return)
next
  case (Some stc)
  note configured = keeps_copy_configured [OF server_law_secrets(1) [OF server] _ assms(2) loaded(2)]
  show ?thesis
  proof (cases ct)
    case PlatformClusterCopy
    have "keeps V v (copy_configured L r ns expected rr ct (Some (platform r))
        PlatformClusterInteractionProblem (to_platform_cluster stc))"
      using copied [of OnPlatform] PlatformClusterCopy server_law_secrets(1) [OF server]
      by (intro configured [where sd = OnPlatform]) (simp_all add: side_for_def secret_entries_def Some)
    with PlatformClusterCopy show ?thesis by (simp add: copy_secrets_def loaded Some)
  next
    case TargetClusterCopy
    have "keeps V v (copy_configured L r ns expected rr ct (lib_client_of L a)
        TargetClusterInteractionProblem (to_target_cluster stc))" if "rr_access rr = Some a" for a
      using copied [of "OnTarget a"] TargetClusterCopy that
      by (intro configured [where sd = "OnTarget a"] server_law_secrets(2) [OF server])
         (simp_all add: side_for_def secret_entries_def Some)
    with TargetClusterCopy show ?thesis
      by (auto simp: copy_secrets_def loaded Some intro: rests_deref)
  qed
qed

text \<open>
  No labelled object is on its way out. Then a tidy region has only wanted objects, and nothing is
  deleted there.
\<close>

definition nothing_fading :: "(string \<times> string) list \<Rightarrow> objects \<Rightarrow> bool" where
  "nothing_fading expected v \<longleftrightarrow>
     (\<forall>pl obj. v pl = Some obj \<and> map_of expected \<subseteq>\<^sub>m meta_labels (any_meta obj) \<longrightarrow>
        \<not> meta_deleting (any_meta obj))"

lemma listed_wanted:
  assumes honest: "kind_honest K V sd res wrap api" and "api_list api ns (map_of expected) w = (Inr objs, w1)"
    and keys: "fst ` set expected \<subseteq> K"
    and wrapped: "\<And>obj. meta_labels (any_meta (wrap obj)) = meta_labels obj"
    and "tidy expected sd res ns wanted (V w)" and "nothing_fading expected (V w)" and "obj \<in> set objs"
  shows "wanted (object_key obj)"
proof -
  have "V w (sd, res, object_key obj) = Some (wrap obj) \<and> nn_namespace (object_key obj) = ns \<and>
      map_of expected \<subseteq>\<^sub>m meta_labels obj"
    using honest_list(2) [OF honest assms(2) refl, of "object_key obj" obj] keys assms(7)
    by (simp add: dom_map_of_conv_image_fst)
  with assms(5,6) wrapped show ?thesis unfolding tidy_def nothing_fading_def by metis
qed

lemma remove_loop_keeping:
  assumes "\<forall>obj \<in> set objs. meta_name obj \<in> keep"
  shows "\<exists>n'. remove_loop access why keep objs deleted n w = (Returned (None, deleted, n'), w)"
  using assms by (induction objs arbitrary: n) auto

lemma keeps_remove_secrets:
  assumes server: "server_law V L r" and keys: "fst ` set expected \<subseteq> managed_labels L"
    and tidy: "\<And>sd. side_for ct rr sd \<Longrightarrow> tidy expected sd RSecret ns (\<lambda>nn. nn_name nn \<in> keep) v"
    and "nothing_fading expected v"
  shows "keeps V v (remove_secrets L r ns expected rr ct keep)"
proof -
  have from_access: "keeps V v (remove_from ns expected rr ct keep target_access why)"
    if target: "\<And>access. target_access = Some access \<Longrightarrow>
        kind_honest (managed_labels L) V sd RSecret ASecret (secrets_api access)"
      and tidied: "tidy expected sd RSecret ns (\<lambda>nn. nn_name nn \<in> keep) v" for sd target_access why
  proof (rule restsI)
    fix w x w'
    assume run: "remove_from ns expected rr ct keep target_access why w = (x, w')" and view: "V w = v"
    show "V w' = v \<and> (\<forall>a. x = Returned a \<longrightarrow> True)"
    proof (cases target_access)
      case None
      with run view show ?thesis by (auto simp: remove_from_def return_st_def)
    next
      case (Some access)
      obtain res w1 where listed: "api_list (secrets_api access) ns (map_of expected) w = (res, w1)"
        by (cases "api_list (secrets_api access) ns (map_of expected) w")
      note same = honest_list(1) [OF target [OF Some] listed]
      have "w' = w1" if objs: "res = Inr objs" for objs
      proof -
        have "\<forall>obj \<in> set objs. meta_name obj \<in> keep"
          using listed_wanted [OF target [OF Some] _ keys, where objs = objs] listed objs assms(4) tidied view
          by fastforce
        from remove_loop_keeping [OF this, of access why 0 0 w1] obtain n' where
          "remove_loop access why keep objs 0 0 w1 = (Returned (None, 0, n'), w1)" ..
        with run listed objs Some show ?thesis
          by (simp add: remove_from_def bind_st_def return_st_def)
      qed
      with run listed same view Some show ?thesis
        by (cases res) (auto simp: remove_from_def)
    qed
  qed
  show ?thesis
  proof (cases ct)
    case PlatformClusterCopy
    have "keeps V v (remove_from ns expected rr ct keep (Some (platform r)) PlatformClusterInteractionProblem)"
      using tidy [of OnPlatform] PlatformClusterCopy server_law_secrets(1) [OF server]
      by (intro from_access [where sd = OnPlatform]) (simp_all add: side_for_def)
    with PlatformClusterCopy show ?thesis by (simp add: remove_secrets_def)
  next
    case TargetClusterCopy
    have "keeps V v (remove_from ns expected rr ct keep (lib_client_of L a) TargetClusterInteractionProblem)"
      if "rr_access rr = Some a" for a
      using tidy [of "OnTarget a"] that TargetClusterCopy
      by (intro from_access [where sd = "OnTarget a"] server_law_secrets(2) [OF server]) (simp_all add: side_for_def)
    with TargetClusterCopy show ?thesis by (auto simp: remove_secrets_def intro: rests_deref)
  qed
qed

subsection \<open>Source, namespace and HelmRelease\<close>

lemma keeps_deploy_source:
  assumes server: "server_law V L r" and laws: "project_law L"
    and keys: "fst ` set expected \<subseteq> managed_labels L" and pc: "rr_provider_config rr = Some pc"
    and current: "source_current L c expected pc k v" and "nothing_fading expected v"
  shows "keeps V v (deploy_helm_chart_source L r c expected rr)"
proof -
  let ?ns = "meta_namespace c"
  from current obtain spec name src where configured: "configured_source (spec_source (service_spec pc)) = Some (k, spec)"
    and name: "cluster_based_resource_name L (meta_name c) = Returned name"
    and src: "v (OnPlatform, RSource k, \<lparr>nn_namespace = ?ns, nn_name = name\<rparr>) = Some (ASource src)"
      "source_mutation L c expected spec src = Mutated src"
    and tidy: "\<And>j. tidy expected OnPlatform (RSource j) ?ns (\<lambda>nn. j = k \<and> nn_name nn = name) v"
    unfolding source_current_def by blast
  have "V w' = v" if run: "deploy_helm_chart_source L r c expected rr w = (x, w')" and view: "V w = v" for w x w'
  proof -
    from run have "with_existing_sources r ?ns expected rr (\<lambda>helm git oci.
         write_source L r c expected (rr\<lparr>rr_source_kind := Some k\<rparr>) k spec name
           (obsolete_sources L k name helm git oci)) w = (x, w')"
      by (simp add: deploy_helm_chart_source_def pc name configured bind_st_def of_outcome_def)
    from existing_sources [OF server this] show ?thesis
    proof (elim disjE exE conjE)
      fix helm git oci w1
      assume written: "write_source L r c expected (rr\<lparr>rr_source_kind := Some k\<rparr>) k spec name
             (obsolete_sources L k name helm git oci) w1 = (x, w')" and w1: "V w1 = V w"
        and listed: "\<forall>k. listed_sources V r ?ns expected (V w) k
          (case k of HelmRepository \<Rightarrow> helm | GitRepository \<Rightarrow> git | OCIRepository \<Rightarrow> oci)"
      have "j = k \<and> meta_name obj = name"
        if "obj \<in> set (case j of HelmRepository \<Rightarrow> helm | GitRepository \<Rightarrow> git | OCIRepository \<Rightarrow> oci)" for j obj
      proof -
        from listed obtain w2 w3 where "V w2 = v" "api_list (sources_api (platform r) j) ?ns (map_of expected) w2 =
            (Inr (case j of HelmRepository \<Rightarrow> helm | GitRepository \<Rightarrow> git | OCIRepository \<Rightarrow> oci), w3)"
          by (force simp: listed_sources_def view)
        from listed_wanted [OF server_law_sources [OF server] this(2) keys _ _ _ that] this(1) tidy [of j] assms(6)
        show ?thesis by fastforce
      qed
      then have "set (obsolete_sources L k name helm git oci) = {}"
        unfolding set_obsolete_sources [OF laws] by auto
      then have none: "obsolete_sources L k name helm git oci = []" by simp
      obtain ans w2 where call: "api_upsert (sources_api (platform r) k) (new_source ?ns name)
          (source_mutation L c expected spec) w1 = (ans, w2)"
        by (cases "api_upsert (sources_api (platform r) k) (new_source ?ns name) (source_mutation L c expected spec) w1")
      have "V w2 = v"
        using upsert_keeps [OF server_law_sources [OF server] inj_wraps(2) call _ src(2)] src(1)
        by (simp add: w1 view)
      with written call show ?thesis
        by (auto simp: write_source_def none finish_sources_def bind_st_def return_st_def
            split: outcome.splits sum.splits)
    qed (use view in simp)
  qed
  then show ?thesis unfolding rests_def by blast
qed

lemma keeps_ensure_namespace:
  assumes server: "server_law V L r" and "namespace_present ns rr v"
  shows "keeps V v (ensure_target_cluster_namespace L ns rr)"
  unfolding ensure_target_cluster_namespace_def
proof (rule rests_deref, rule rests_deref, rule restsI)
  fix a cl w x w'
  let ?key = "\<lparr>nn_namespace = [], nn_name = ns\<rparr>"
  assume a: "rr_access rr = Some a" and cl: "lib_client_of L a = Some cl" and view: "V w = v"
    and run: "(let obj = new_namespace ns; why = TargetClusterInteractionProblem in
       case api_get (namespaces_api cl) (object_key obj) w of
         (Inr _, w1) \<Rightarrow> (Returned rr, w1)
       | (Inl e, w1) \<Rightarrow>
           if e \<noteq> NotFound then (Returned (fail rr (GetNamespaceFailed ns e) why), w1)
           else
             case api_create (namespaces_api cl) obj w1 of
               (res, w2) \<Rightarrow>
                 (case res of
                    None \<Rightarrow> (Returned (rr\<lparr>rr_message := CreatedNamespace ns\<rparr>), w2)
                  | Some e \<Rightarrow>
                      if e = AlreadyExists then (Returned (rr\<lparr>rr_message := CreatedNamespace ns\<rparr>), w2)
                      else (Returned (fail rr (CreateNamespaceFailed ns e) why), w2))) = (x, w')"
  have honest: "kind_honest (managed_labels L) V (OnTarget a) RNamespace ANamespace (namespaces_api cl)"
    using server cl by (simp add: server_law_def client_honest_def)
  obtain ans w1 where get: "api_get (namespaces_api cl) ?key w = (ans, w1)"
    by (cases "api_get (namespaces_api cl) ?key w")
  have "ans \<noteq> Inl NotFound"
    using honest_get(3) [OF honest get] assms(2) a view by (auto simp: namespace_present_def)
  with run get honest_get(1) [OF honest get] view show "V w' = v \<and> (\<forall>a. x = Returned a \<longrightarrow> True)"
    by (auto split: sum.splits)
qed

lemma keeps_deploy_release:
  assumes server: "server_law V L r" and current: "release_current L r c expected rr v"
    and "same_release_inputs rr rr'"
  shows "keeps V v (deploy_helm_release L r c expected rr')"
proof -
  from current obtain name hr where name: "cluster_based_resource_name L (meta_name c) = Returned name"
    and hr: "v (OnPlatform, RRelease, \<lparr>nn_namespace = meta_namespace c, nn_name = name\<rparr>) = Some (ARelease hr)"
      "release_mutation L r c expected rr hr = Mutated hr"
    unfolding release_current_def by blast
  let ?hr = "new_release (meta_namespace c) name"
  have "same_release_inputs rr (rr'\<lparr>rr_related := Some (object_key ?hr)\<rparr>)"
    using assms(3) by (simp add: same_release_inputs_def)
  note same = release_mutation_same [OF this]
  have "V w' = v" if run: "deploy_helm_release L r c expected rr' w = (x, w')" and view: "V w = v" for w x w'
  proof -
    obtain ans w1 where call: "api_upsert (releases_api (platform r)) ?hr (release_mutation L r c expected rr) w = (ans, w1)"
      by (cases "api_upsert (releases_api (platform r)) ?hr (release_mutation L r c expected rr) w")
    have "V w1 = v"
      using upsert_keeps [OF server_law_releases [OF server] inj_wraps(3) call _ hr(2)] hr(1) by (simp add: view)
    with run call show ?thesis
      by (auto simp: deploy_helm_release_def bind_st_def of_outcome_def Let_def name same [simplified]
          split: outcome.splits sum.splits)
  qed
  then show ?thesis unfolding rests_def by blast
qed

subsection \<open>The phases in sequence\<close>

lemma keeps_sync:
  assumes server: "server_law V L r" and laws: "merge_law L" "range_law L" "distinct (map fst expected)"
    and keys: "fst ` set expected \<subseteq> managed_labels L"
    and apart: "ct = PlatformClusterCopy \<longrightarrow> ns \<noteq> provider_namespace r"
    and loaded: "rr_provider_config rr = Some pc" "rr_platform_service rr = Some svc"
    and synced: "rr_error rr = None \<or> ct = PlatformClusterCopy \<Longrightarrow>
      secrets_synced L r expected ct ns (secret_entries pc svc ct) rr v"
    and once: "distinct (map snd (secret_entries pc svc ct))" and fading: "nothing_fading expected v"
    and error: "rr_error rr = None \<or> ct = PlatformClusterCopy"
    and rest: "\<And>rr1. same_inputs rr rr1 \<Longrightarrow> rr_error rr = None \<Longrightarrow> keeps V v (f rr1)"
  shows "keeps V v (bind_st (copy_secrets L r ns expected rr ct) (\<lambda>(rr, copied).
    if stopped rr then return_st rr else chain (remove_secrets L r ns expected rr ct copied) f))"
proof -
  let ?entries = "secret_entries pc svc ct"
  from synced [OF error] obtain sd where sd: "side_for ct rr sd" "copies_present L r expected sd ns ?entries v"
    "tidy expected sd RSecret ns (\<lambda>nn. nn_name nn \<in> snd ` set ?entries) v"
    by (auto simp: secrets_synced_def)
  have one: "sd' = sd" if "side_for ct rr sd'" for sd' using side_for_unique [OF sd(1) that] .
  have "keeps V v (copy_secrets L r ns expected rr ct)"
    using all_copied [OF sd(2) once] one by (intro keeps_copy_secrets [OF server laws(2) loaded]) blast
  note copied = rests_effect [OF this effect_copy_secrets [OF server laws apart loaded]]
  have "rests V v (copy_secrets L r ns expected rr ct)
      (\<lambda>a. copied_all L r expected ct ns ?entries rr a v v \<and> carries_on rr (fst a))"
    using copied copy_secrets_carries_on unfolding rests_def by (metis fst_conv prod.collapse)
  then show ?thesis
  proof (rule rests_bind)
    fix a
    assume a: "copied_all L r expected ct ns ?entries rr a v v \<and> carries_on rr (fst a)"
    show "keeps V v (case a of (rr, copied) \<Rightarrow>
        if stopped rr then return_st rr else chain (remove_secrets L r ns expected rr ct copied) f)"
    proof (cases "stopped (fst a)")
      case True
      then show ?thesis by (cases a) (simp add: rests_return)
    next
      case False
      with a have names: "snd a = snd ` set ?entries" and same: "same_inputs rr (fst a)"
        and none: "rr_error rr = None"
        by (auto simp: copied_all_def carries_on_def stopped_def)
      have "keeps V v (chain (remove_secrets L r ns expected (fst a) ct (snd a)) f)"
      proof (rule keeps_chain [OF keeps_remove_secrets [OF server keys _ fading] achieves_remove_secrets [OF server keys]])
        show "tidy expected sd' RSecret ns (\<lambda>nn. nn_name nn \<in> snd a) v" if "side_for ct (fst a) sd'" for sd'
          using that sd(3) one by (simp add: names side_for_inputs [OF same])
        show "keeps V v (f rr1)" if "removed_others expected ct ns (snd a) (fst a) rr1 v v" for rr1
          using that same none by (intro rest) (auto simp: removed_others_def same_inputs_def)
      qed
      with False show ?thesis by (cases a) simp
    qed
  qed
qed

lemma keeps_target_phases:
  assumes laws: "deploy_laws V L r expected"
    and before: "deployed L r c expected pc svc rr0 v"
    and once: "\<And>ct. distinct (map snd (secret_entries pc svc ct))" and fading: "nothing_fading expected v"
    and agrees: "same_release_inputs rr0 rr" "rr_access rr = rr_access rr0" "rr_error rr = None"
    and loaded: "rr_provider_config rr = Some pc" "rr_platform_service rr = Some svc"
  shows "keeps V v (bind_st (copy_secrets L r target_cluster_namespace expected rr TargetClusterCopy) (\<lambda>(rr, copied).
    if stopped rr then return_st rr else
    chain (remove_secrets L r target_cluster_namespace expected rr TargetClusterCopy copied) (\<lambda>rr.
    chain (deploy_helm_release L r c expected rr) (\<lambda>rr.
    return_st (rr\<lparr>rr_message := DeployTriggered\<rparr>)))))"
proof (rule keeps_sync [where pc = pc and svc = svc])
  show "secrets_synced L r expected TargetClusterCopy target_cluster_namespace
      (secret_entries pc svc TargetClusterCopy) rr v"
    using before agrees(2) by (simp add: deployed_def secrets_synced_def side_for_def)
  fix rr1
  assume "same_inputs rr rr1"
  with agrees(1) have "same_release_inputs rr0 rr1" by (simp add: same_inputs_def same_release_inputs_def)
  moreover have "server_law V L r" "merge_law L" "owner_law L" using laws by (simp_all add: deploy_laws_def)
  moreover have "release_current L r c expected rr0 v" using before by (simp add: deployed_def)
  ultimately show "keeps V v (chain (deploy_helm_release L r c expected rr1) (\<lambda>rr.
      return_st (rr\<lparr>rr_message := DeployTriggered\<rparr>)))"
    by (intro keeps_chain [OF keeps_deploy_release achieves_deploy_release] rests_return) simp_all
qed (use laws loaded once fading agrees(3) in \<open>simp_all add: deploy_laws_def\<close>)

lemma keeps_source_phases:
  assumes laws: "deploy_laws V L r expected"
    and before: "deployed L r c expected pc svc rr0 v" "rr_provider_config rr0 = Some pc"
    and once: "\<And>ct. distinct (map snd (secret_entries pc svc ct))" and fading: "nothing_fading expected v"
    and agrees: "rr_config rr = rr_config rr0" "rr_access rr = rr_access rr0" "rr_access_request rr = rr_access_request rr0"
    and loaded: "rr_provider_config rr = Some pc" "rr_platform_service rr = Some svc"
  shows "keeps V v (chain (deploy_helm_chart_source L r c expected rr) (\<lambda>rr.
    chain (ensure_target_cluster_namespace L target_cluster_namespace rr) (\<lambda>rr.
    bind_st (copy_secrets L r target_cluster_namespace expected rr TargetClusterCopy) (\<lambda>(rr, copied).
    if stopped rr then return_st rr else
    chain (remove_secrets L r target_cluster_namespace expected rr TargetClusterCopy copied) (\<lambda>rr.
    chain (deploy_helm_release L r c expected rr) (\<lambda>rr.
    return_st (rr\<lparr>rr_message := DeployTriggered\<rparr>)))))))"
proof -
  have server: "server_law V L r" and source_laws: "merge_law L" "project_law L" "owner_law L"
    and keys: "fst ` set expected \<subseteq> managed_labels L"
    using laws by (simp_all add: deploy_laws_def)
  from before(1) obtain k where k: "rr_source_kind rr0 = Some k" "source_current L c expected pc k v"
    by (auto simp: deployed_def)
  have one: "j = k" if "source_current L c expected pc j v" for j
    using that k(2) unfolding source_current_def by (elim exE conjE) simp
  show ?thesis
  proof (rule keeps_chain [OF keeps_deploy_source [OF server source_laws(2) keys loaded(1) k(2) fading]
        achieves_deploy_source [OF server source_laws keys loaded(1)]])
    fix rr1
    assume "\<exists>j. source_current L c expected pc j v \<and> same_inputs (rr\<lparr>rr_source_kind := Some j\<rparr>) rr1"
    then obtain j where j: "source_current L c expected pc j v" and same: "same_inputs (rr\<lparr>rr_source_kind := Some j\<rparr>) rr1"
      by blast
    have "j = k" using j by (rule one)
    with same have rr1: "same_release_inputs rr0 rr1" "rr_access rr1 = rr_access rr0"
      "rr_provider_config rr1 = Some pc" "rr_platform_service rr1 = Some svc"
      using agrees loaded before(2) k(1) by (simp_all add: same_inputs_def same_release_inputs_def)
    have present: "namespace_present target_cluster_namespace rr1 v"
      using before(1) rr1(2) by (simp add: deployed_def namespace_present_def)
    show "keeps V v (chain (ensure_target_cluster_namespace L target_cluster_namespace rr1) (\<lambda>rr.
       bind_st (copy_secrets L r target_cluster_namespace expected rr TargetClusterCopy) (\<lambda>(rr, copied).
       if stopped rr then return_st rr else
       chain (remove_secrets L r target_cluster_namespace expected rr TargetClusterCopy copied) (\<lambda>rr.
       chain (deploy_helm_release L r c expected rr) (\<lambda>rr.
       return_st (rr\<lparr>rr_message := DeployTriggered\<rparr>))))))"
    proof (rule keeps_chain [OF keeps_ensure_namespace [OF server present] achieves_ensure_namespace [OF server]])
      fix rr2
      assume "\<not> stopped rr2" and "same_inputs rr1 rr2 \<and> namespace_present target_cluster_namespace rr1 v"
      with rr1 show "keeps V v (bind_st (copy_secrets L r target_cluster_namespace expected rr2 TargetClusterCopy) (\<lambda>(rr, copied).
         if stopped rr then return_st rr else
         chain (remove_secrets L r target_cluster_namespace expected rr TargetClusterCopy copied) (\<lambda>rr.
         chain (deploy_helm_release L r c expected rr) (\<lambda>rr.
         return_st (rr\<lparr>rr_message := DeployTriggered\<rparr>)))))"
        by (intro keeps_target_phases [OF laws before(1) once fading])
           (simp_all add: same_inputs_def same_release_inputs_def stopped_def)
    qed
  qed
qed

lemma keeps_deploy_phases:
  assumes laws: "deploy_laws V L r expected" and apart: "meta_namespace c \<noteq> provider_namespace r"
    and loaded: "rr_provider_config rr = Some pc" "rr_platform_service rr = Some svc"
    and before: "deployed L r c expected pc svc rr0 v" "rr_provider_config rr0 = Some pc"
    and once: "\<And>ct. distinct (map snd (secret_entries pc svc ct))" and fading: "nothing_fading expected v"
    and agrees: "rr_error rr = None \<Longrightarrow> rr_config rr = rr_config rr0 \<and> rr_access rr = rr_access rr0 \<and>
      rr_access_request rr = rr_access_request rr0"
  shows "keeps V v (deploy_phases L r c expected rr)"
  unfolding deploy_phases_def
proof (rule keeps_sync [where pc = pc and svc = svc])
  show "secrets_synced L r expected PlatformClusterCopy (meta_namespace c)
      (secret_entries pc svc PlatformClusterCopy) rr v"
    using before(1) by (simp add: deployed_def secrets_synced_def side_for_def)
  fix rr1
  assume "same_inputs rr rr1" "rr_error rr = None"
  with agrees loaded show "keeps V v (chain (deploy_helm_chart_source L r c expected rr1) (\<lambda>rr.
    chain (ensure_target_cluster_namespace L target_cluster_namespace rr) (\<lambda>rr.
    bind_st (copy_secrets L r target_cluster_namespace expected rr TargetClusterCopy) (\<lambda>(rr, copied).
    if stopped rr then return_st rr else
    chain (remove_secrets L r target_cluster_namespace expected rr TargetClusterCopy copied) (\<lambda>rr.
    chain (deploy_helm_release L r c expected rr) (\<lambda>rr.
    return_st (rr\<lparr>rr_message := DeployTriggered\<rparr>)))))))"
    by (intro keeps_source_phases [OF laws before once fading]) (simp_all add: same_inputs_def)
qed (use laws apart loaded once fading in \<open>simp_all add: deploy_laws_def\<close>)

subsection \<open>The whole run\<close>

text \<open>
  What the access library gave when the Cluster was deployed, it still gives while the objects are as
  they are: an error-free answer names the same access and the same AccessRequest. Nothing is asked of
  its answers before that, when the AccessRequest is granted, or once an object has changed.
\<close>

definition access_unchanged ::
  "('w \<Rightarrow> objects) \<Rightarrow> 'w reconciler \<Rightarrow> namespaced_name \<Rightarrow> reconcile_result \<Rightarrow> objects \<Rightarrow> bool" where
  "access_unchanged V r req rr v \<longleftrightarrow>
     (\<forall>w. V w = v \<longrightarrow>
       (\<forall>a w'. access_cluster (access_reconciler r) req w = ((a, None), w') \<longrightarrow> a = rr_access rr) \<and>
       (\<forall>ar w'. access_request_of (access_reconciler r) req w = ((ar, None), w') \<longrightarrow> ar = rr_access_request rr))"

lemma access_unchangedD:
  assumes "access_unchanged V r req rr v" and "V w = v"
  shows "access_cluster (access_reconciler r) req w = ((a, None), w') \<Longrightarrow> a = rr_access rr"
    and "access_request_of (access_reconciler r) req w = ((ar, None), w') \<Longrightarrow> ar = rr_access_request rr"
  using assms unfolding access_unchanged_def by blast+

text \<open>A Cluster deployed as read, with the access, AccessRequest and configuration of a given result.\<close>

definition deployed_by ::
  "'w lib \<Rightarrow> 'w reconciler \<Rightarrow> namespaced_name \<Rightarrow> service_config \<Rightarrow> platform_service \<Rightarrow> objects \<Rightarrow>
   cluster \<Rightarrow> reconcile_result \<Rightarrow> bool" where
  "deployed_by L r req config svc v c rr \<longleftrightarrow>
     asked_for r v req c config svc \<and> object_key c = req \<and> cluster_finalizer L \<in> set (meta_finalizers c) \<and>
     rr_config rr = select_config (spec_purposes (service_spec config)) (cluster_purposes c) \<and>
     rr_provider_config rr = Some config \<and> accessed r req rr \<and>
     deployed L r c (expected_labels L r (nn_name req)) config svc rr v"

lemma cluster_deployed_by:
  "cluster_deployed L r req config svc v known \<longleftrightarrow>
     req \<in> set known \<and> (\<exists>c rr. deployed_by L r req config svc v c rr)"
  by (simp add: cluster_deployed_def deployed_by_def)

lemma keeps_deploy_with_access:
  assumes laws: "deploy_laws V L r expected" and apart: "meta_namespace c \<noteq> provider_namespace r"
    and loaded: "rr_provider_config rr = Some pc" "rr_platform_service rr = Some svc"
    and before: "deployed L r c expected pc svc rr0 v" "rr_provider_config rr0 = Some pc"
    and once: "\<And>ct. distinct (map snd (secret_entries pc svc ct))" and fading: "nothing_fading expected v"
    and access: "access_unchanged V r (object_key c) rr0 v"
    and config: "rr_config rr = rr_config rr0"
  shows "keeps V v (deploy_with_access L r c expected rr)"
proof (rule restsI)
  let ?acc = "access_reconciler r" and ?req = "object_key c"
  fix w x w'
  assume run: "deploy_with_access L r c expected rr w = (x, w')" and view: "V w = v"
  have acc: "V (snd (access_reconcile ?acc k w)) = V w" "V (snd (access_request_of ?acc k w)) = V w"
    "V (snd (access_cluster ?acc k w)) = V w" for k w
    using laws by (auto simp: deploy_laws_def server_law_def access_honest_def)
  obtain res e1 w1 where 1: "access_reconcile ?acc ?req w = ((res, e1), w1)"
    by (metis prod.collapse)
  obtain ar e2 w2 where 2: "access_request_of ?acc ?req w1 = ((ar, e2), w2)"
    by (metis prod.collapse)
  obtain cl e3 w3 where 3: "access_cluster ?acc ?req w2 = ((cl, e3), w3)"
    by (metis prod.collapse)
  have views: "V w1 = v" "V w2 = v" "V w3 = v" using acc [of ?req] 1 2 3 view by (metis snd_conv)+
  let ?rr = "(case e2 of None \<Rightarrow> rr | Some e \<Rightarrow> fail rr (AccessRequestFailed e) InternalError)
      \<lparr>rr_access_request := ar, rr_access := cl\<rparr>"
  show "V w' = v \<and> (\<forall>a. x = Returned a \<longrightarrow> True)"
  proof (cases "e1 = None \<and> \<not> requeue_after res > 0 \<and> e3 = None")
    case False
    with run 1 2 3 views show ?thesis
      by (cases e1; cases e3) (auto simp: deploy_with_access_def Let_def split: if_splits)
  next
    case True
    with run 1 2 3 have phases: "deploy_phases L r c expected ?rr w3 = (x, w')"
      by (simp add: deploy_with_access_def Let_def)
    have "keeps V v (deploy_phases L r c expected ?rr)"
    proof (rule keeps_deploy_phases [OF laws apart _ _ before once fading])
      assume "rr_error ?rr = None"
      then have "e2 = None" by (auto simp: fail_def split: option.splits)
      then show "rr_config ?rr = rr_config rr0 \<and> rr_access ?rr = rr_access rr0 \<and>
          rr_access_request ?rr = rr_access_request rr0"
        using access_unchangedD(2) [OF access views(1)] access_unchangedD(1) [OF access views(2)] True 2 3 config
        by auto
    qed (use loaded in \<open>simp_all add: fail_def split: option.split\<close>)
    from restsD(1) [OF this phases views(3)] show ?thesis by simp
  qed
qed

text \<open>What is asked of the objects so that nothing is left to do.\<close>

definition settled ::
  "'w lib \<Rightarrow> 'w reconciler \<Rightarrow> namespaced_name \<Rightarrow> service_config \<Rightarrow> platform_service \<Rightarrow> objects \<Rightarrow> bool" where
  "settled L r req config svc v \<longleftrightarrow>
     nothing_fading (expected_labels L r (nn_name req)) v \<and>
     (\<forall>ct. distinct (map snd (secret_entries config svc ct))) \<and>
     (\<forall>c. v (OnPlatform, RCluster, req) = Some (ACluster c) \<longrightarrow> wanted_cluster c config \<and>
        requested_operation L c \<noteq> Some (lib_operation_reconcile L))"

lemma loaded_keeps:
  assumes laws: "outcome_laws V L r" and apart: "nn_namespace req \<noteq> provider_namespace r"
    and deployed: "deployed_by L r req config svc v c rr0"
    and settled: "settled L r req config svc v" and access: "access_unchanged V r req rr0 v"
    and run: "reconcile_loaded L r c s = (x, s')" and view: "V (world s) = v"
  shows "V (world s') = v \<and> set (known_clusters s) \<subseteq> set (known_clusters s')"
proof -
  let ?key = "service_key r" and ?expected = "expected_labels L r (nn_name req)"
  note stored = deployed [unfolded deployed_by_def, THEN conjunct1]
  have key: "object_key c = req" "cluster_finalizer L \<in> set (meta_finalizers c)"
    and before: "deployed L r c ?expected config svc rr0 v" "rr_provider_config rr0 = Some config"
      "rr_config rr0 = select_config (spec_purposes (service_spec config)) (cluster_purposes c)"
    using deployed by (simp_all add: deployed_by_def)
  have server: "server_law V L r" and fin: "finalizer_law L" using laws by (simp_all add: outcome_laws_def)
  have kinds: "kind_honest (managed_labels L) V OnPlatform RConfig AConfig (configs_api (platform r))"
    "kind_honest (managed_labels L) V OnPlatform RService AService (services_api (platform r))"
    using server by (simp_all add: server_law_def client_honest_def)
  obtain a1 w1 where 1: "api_get (configs_api (platform r)) ?key (world s) = (a1, w1)"
    by (cases "api_get (configs_api (platform r)) ?key (world s)")
  obtain a2 w2 where 2: "api_get (services_api (platform r)) ?key w1 = (a2, w2)"
    by (cases "api_get (services_api (platform r)) ?key w1")
  have a1: "V w1 = v \<and> (a1 = Inr config \<or> (\<exists>e. a1 = Inl e))"
    using fetched [OF kinds(1) 1, of config] stored view by (auto simp: asked_for_def inj_def)
  have a2: "V w2 = v \<and> (a2 = Inr svc \<or> (\<exists>e. a2 = Inl e))"
    using fetched [OF kinds(2) 2, of svc] stored a1 by (auto simp: asked_for_def inj_def)
  let ?rr = "empty_result\<lparr>rr_provider_config := Some config, rr_platform_service := Some svc,
      rr_config := select_config (spec_purposes (service_spec config)) (cluster_purposes c)\<rparr>"
  have name: "meta_name c = nn_name req" and ns: "meta_namespace c \<noteq> provider_namespace r"
    using key(1) apart by auto
  have wanted: "wanted_cluster c config" using settled stored by (auto simp: settled_def asked_for_def)
  have once: "\<And>ct. distinct (map snd (secret_entries config svc ct))" and fading: "nothing_fading ?expected v"
    using settled by (simp_all add: settled_def)
  show ?thesis
  proof (cases "a1 = Inr config \<and> a2 = Inr svc")
    case False
    with run 1 2 a1 a2 show ?thesis
      by (auto simp: reconcile_loaded_def Let_def service_key_def [symmetric])
  next
    case True
    with run 1 2 wanted have "handle_create_or_update L r c ?expected ?rr (s\<lparr>world := w2\<rparr>) = (x, s')"
      by (simp add: reconcile_loaded_def reconcile_configured_def Let_def service_key_def [symmetric]
          wanted_cluster_def name)
    with fin key(2) have "create_after_finalizer L r c ?expected ?rr (s\<lparr>world := w2\<rparr>) = (x, s')"
      by (simp add: handle_create_or_update_def finalizer_law_def)
    then obtain w3 where deploy: "deploy_with_access L r c ?expected ?rr w2 = (x, w3)"
      and s': "world s' = w3" "known_clusters s' = add_known_cluster c (known_clusters s)"
      by (auto simp: create_after_finalizer_def on_world_def split: prod.splits)
    have "keeps V v (deploy_with_access L r c ?expected ?rr)"
      using access before(3)
      by (intro keeps_deploy_with_access [OF outcome_laws_deploy [OF laws] ns _ _ before(1,2) once fading])
         (simp_all add: key(1))
    from restsD(1) [OF this deploy] a2 s' show ?thesis by (auto simp: add_known_cluster_def)
  qed
qed

lemma run_keeps:
  assumes laws: "outcome_laws V L r" and apart: "nn_namespace req \<noteq> provider_namespace r"
    and deployed: "deployed_by L r req config svc (V (world s)) c rr"
    and settled: "settled L r req config svc (V (world s))" and access: "access_unchanged V r req rr (V (world s))"
    and run: "Reconcile L r req s = (x, s')"
  shows "V (world s') = V (world s) \<and> set (known_clusters s) \<subseteq> set (known_clusters s')"
proof -
  have server: "server_law V L r" using laws by (simp add: outcome_laws_def)
  note honest = server_law_clusters [OF server]
  obtain ans w1 where get: "api_get (clusters_api (platform r)) req (world s) = (ans, w1)"
    by (cases "api_get (clusters_api (platform r)) req (world s)")
  have cluster: "V (world s) (OnPlatform, RCluster, req) = Some (ACluster c)"
    using deployed by (simp add: deployed_by_def asked_for_def)
  have read: "V w1 = V (world s) \<and> (ans = Inr c \<or> (\<exists>e. ans = Inl e \<and> e \<noteq> NotFound))"
    using fetched [OF honest get cluster] by (simp add: inj_def)
  show ?thesis
  proof (cases ans)
    case (Inl e)
    with run get read show ?thesis by (auto simp: Reconcile_def)
  next
    case (Inr c')
    with read have ans: "ans = Inr c" by simp
    let ?s = "s\<lparr>world := w1\<rparr>"
    obtain y s2 where loop: "reconcile_cluster L r c ?s = (y, s2)" by (cases "reconcile_cluster L r c ?s")
    have "requested_operation L c \<noteq> Some (lib_operation_reconcile L)"
      using settled cluster by (simp add: settled_def)
    with loop have "s2 = ?s \<or> reconcile_loaded L r c ?s = (y, s2)"
      by (auto simp: reconcile_cluster_def split: if_splits)
    then have kept: "V (world s2) = V (world s) \<and> set (known_clusters s) \<subseteq> set (known_clusters s2)"
      using loaded_keeps [OF laws apart deployed settled access, of ?s y s2] read by auto
    have events: "V (send_event r ev w) = V w" for ev w
      using server by (auto simp: send_event_def server_law_def event_honest_def split: option.split)
    from run get ans loop have "world s' = world s2 \<and> known_clusters s' = known_clusters s2 \<or>
        (\<exists>ev. world s' = send_event r ev (world s2)) \<and> known_clusters s' = known_clusters s2"
      by (cases y) (auto simp: Reconcile_def bind_st_def)
    with kept events show ?thesis by auto
  qed
qed

text \<open>Runs for one request, one after the other, whatever they return.\<close>

inductive repeated :: "'w lib \<Rightarrow> 'w reconciler \<Rightarrow> namespaced_name \<Rightarrow> 'w controller_state \<Rightarrow> 'w controller_state \<Rightarrow> bool"
  for L r req where
  no_run: "repeated L r req s s"
| one_more: "repeated L r req s s1 \<Longrightarrow> Reconcile L r req s1 = (x, s2) \<Longrightarrow> repeated L r req s s2"

lemma repeated_keeps:
  assumes "repeated L r req s s'"
    and "outcome_laws V L r" and "nn_namespace req \<noteq> provider_namespace r"
    and "deployed_by L r req config svc (V (world s)) c rr"
    and "access_unchanged V r req rr (V (world s))" and "settled L r req config svc (V (world s))"
  shows "V (world s') = V (world s) \<and> set (known_clusters s) \<subseteq> set (known_clusters s')"
  using assms
proof (induction rule: repeated.induct)
  case (no_run s)
  show ?case by simp
next
  case (one_more s s1 x s2)
  then have kept: "V (world s1) = V (world s)" "set (known_clusters s) \<subseteq> set (known_clusters s1)" by auto
  with one_more kept run_keeps [of V L r req config svc s1 c rr x s2] show ?case by auto
qed

subsection \<open>Properties\<close>

text \<open>
  C3. A Cluster outside the provider's namespace is deployed as configured. Suppose that no object labelled
  as belonging to it is being deleted, no two configured secrets share a target, it is still wanted (it
  matches a configuration and is not being deleted) and no reconciliation is asked for by annotation; and
  that the access library, as long as the objects are as they are, names the access and the AccessRequest
  the Cluster was deployed with whenever it answers without an error. Then any number of further runs for
  it changes no object on any cluster, whether the runs succeed, fail or panic; and it stays deployed.
\<close>

theorem deployed_cluster_left_alone:
  assumes "outcome_laws V L r" and "nn_namespace req \<noteq> provider_namespace r"
    and "req \<in> set (known_clusters s)" and "deployed_by L r req config svc (V (world s)) c rr"
    and "access_unchanged V r req rr (V (world s))" and "settled L r req config svc (V (world s))"
    and "repeated L r req s s'"
  shows "V (world s') = V (world s) \<and> cluster_deployed L r req config svc (V (world s')) (known_clusters s')"
proof -
  from repeated_keeps [OF assms(7,1,2,4,5,6)]
  have "V (world s') = V (world s)" "set (known_clusters s) \<subseteq> set (known_clusters s')" by auto
  with assms(3,4) show ?thesis by (auto simp: cluster_deployed_by)
qed

end
