(* ===== verification/Sample_Store.thy ===== *)
theory Sample_Store
  imports Liveness Stability Sample_Environment
begin

section \<open>A sample server that is honest\<close>

text \<open>
  All objects of all clusters in one list, with clients that keep the laws of \<open>Server_Laws\<close>. It shows
  that the laws can hold together, and the outcomes of runs are witnessed on it.
\<close>

type_synonym store = "(place \<times> any_object) list"

text \<open>What may be stored at a place: an object of the kind with the key of the place.\<close>

fun of_kind :: "resource \<Rightarrow> any_object \<Rightarrow> bool" where
  "of_kind RCluster (ACluster obj) = True"
| "of_kind RConfig (AConfig obj) = True"
| "of_kind RService (AService obj) = True"
| "of_kind RSecret (ASecret obj) = True"
| "of_kind RNamespace (ANamespace obj) = True"
| "of_kind (RSource k) (ASource obj) = True"
| "of_kind RRelease (ARelease obj) = True"
| "of_kind res obj = False"

definition placeable :: "place \<Rightarrow> any_object \<Rightarrow> bool" where
  "placeable pl obj \<longleftrightarrow> of_kind (fst (snd pl)) obj \<and> object_key (any_meta obj) = snd (snd pl)"

fun store_view :: "store \<Rightarrow> objects" where
  "store_view [] pl = None"
| "store_view ((pl', obj) # w) pl = (if pl' = pl \<and> placeable pl obj then Some obj else store_view w pl)"

definition put_object :: "place \<Rightarrow> any_object \<Rightarrow> store \<Rightarrow> store" where
  "put_object pl obj w = (pl, obj) # filter (\<lambda>e. fst e \<noteq> pl) w"

definition drop_object :: "place \<Rightarrow> store \<Rightarrow> store" where
  "drop_object pl w = filter (\<lambda>e. fst e \<noteq> pl) w"

lemma store_view_drop [simp]: "store_view (drop_object pl w) = (store_view w)(pl := None)"
proof
  fix pl'
  show "store_view (drop_object pl w) pl' = ((store_view w)(pl := None)) pl'"
    by (induction w) (auto simp: drop_object_def)
qed

lemma store_view_put [simp]:
  assumes "placeable pl obj"
  shows "store_view (put_object pl obj w) = (store_view w)(pl \<mapsto> obj)"
proof
  fix pl'
  have "store_view (put_object pl obj w) pl' =
      (if pl' = pl then Some obj else store_view (drop_object pl w) pl')"
    using assms by (simp add: put_object_def drop_object_def)
  then show "store_view (put_object pl obj w) pl' = ((store_view w)(pl \<mapsto> obj)) pl'" by simp
qed

lemma store_view_placeable: "store_view w pl = Some obj \<Longrightarrow> placeable pl obj"
  by (induction w pl rule: store_view.induct) (auto split: if_splits)

lemma store_view_key: "store_view w pl = Some obj \<Longrightarrow> pl \<in> fst ` set w"
  by (induction w pl rule: store_view.induct) (auto split: if_splits)

subsection \<open>Clients\<close>

definition selected :: "labels \<Rightarrow> 'o object_meta_scheme \<Rightarrow> bool" where
  "selected ls obj \<longleftrightarrow> list_all (\<lambda>k. ls k = None \<or> ls k = meta_labels obj k) [''by'', ''for'']"

definition stored_at ::
  "side \<Rightarrow> resource \<Rightarrow> (any_object \<Rightarrow> 'o object_meta_scheme option) \<Rightarrow> store \<Rightarrow> namespaced_name \<Rightarrow>
   'o object_meta_scheme option" where
  "stored_at sd res unwrap w k = Option.bind (store_view w (sd, res, k)) unwrap"

definition store_api ::
  "side \<Rightarrow> resource \<Rightarrow> ('o object_meta_scheme \<Rightarrow> any_object) \<Rightarrow>
   (any_object \<Rightarrow> 'o object_meta_scheme option) \<Rightarrow> ('o object_meta_scheme, store) kind_api" where
  "store_api sd res wrap unwrap =
     \<lparr>api_get = (\<lambda>k w.
        (case stored_at sd res unwrap w k of None \<Rightarrow> Inl NotFound | Some obj \<Rightarrow> Inr obj, w)),
      api_list = (\<lambda>ns ls w. (Inr (List.map_filter (\<lambda>(sd', res', k).
        if sd' = sd \<and> res' = res \<and> nn_namespace k = ns
        then (case stored_at sd res unwrap w k of
                None \<Rightarrow> None | Some obj \<Rightarrow> if selected ls obj then Some obj else None)
        else None) (map fst w)), w)),
      api_create = (\<lambda>obj w.
        (case stored_at sd res unwrap w (object_key obj) of
           Some _ \<Rightarrow> (Some AlreadyExists, w)
         | None \<Rightarrow> (None, put_object (sd, res, object_key obj) (wrap obj) w))),
      api_patch = (\<lambda>old new w.
        (case stored_at sd res unwrap w (object_key new) of
           None \<Rightarrow> (Inl NotFound, w)
         | Some _ \<Rightarrow> (Inr new,
             if meta_deleting new \<and> meta_finalizers new = [] then drop_object (sd, res, object_key new) w
             else put_object (sd, res, object_key new) (wrap new) w))),
      api_delete = (\<lambda>k w.
        (case stored_at sd res unwrap w k of
           None \<Rightarrow> (Some NotFound, w)
         | Some _ \<Rightarrow> (None, drop_object (sd, res, k) w))),
      api_upsert = (\<lambda>obj f w.
        (case f (case stored_at sd res unwrap w (object_key obj) of None \<Rightarrow> obj | Some old \<Rightarrow> old) of
           Mutated new \<Rightarrow>
             if object_key new = object_key obj
             then (Returned (Inr new), put_object (sd, res, object_key obj) (wrap new) w)
             else (Returned (Inl (OtherError ''immutable'')), w)
         | MutateFailed e \<Rightarrow> (Returned (Inl (OtherError e)), w)
         | MutatePanicked p \<Rightarrow> (Panicked p, w)))\<rparr>"

definition store_client :: "side \<Rightarrow> store client" where
  "store_client sd =
     \<lparr>clusters_api = store_api sd RCluster ACluster (\<lambda>x. case x of ACluster obj \<Rightarrow> Some obj | _ \<Rightarrow> None),
      configs_api = store_api sd RConfig AConfig (\<lambda>x. case x of AConfig obj \<Rightarrow> Some obj | _ \<Rightarrow> None),
      services_api = store_api sd RService AService (\<lambda>x. case x of AService obj \<Rightarrow> Some obj | _ \<Rightarrow> None),
      secrets_api = store_api sd RSecret ASecret (\<lambda>x. case x of ASecret obj \<Rightarrow> Some obj | _ \<Rightarrow> None),
      namespaces_api = store_api sd RNamespace ANamespace (\<lambda>x. case x of ANamespace obj \<Rightarrow> Some obj | _ \<Rightarrow> None),
      sources_api = (\<lambda>k. store_api sd (RSource k) ASource (\<lambda>x. case x of ASource obj \<Rightarrow> Some obj | _ \<Rightarrow> None)),
      releases_api = store_api sd RRelease ARelease (\<lambda>x. case x of ARelease obj \<Rightarrow> Some obj | _ \<Rightarrow> None)\<rparr>"

subsection \<open>The laws hold\<close>

text \<open>What makes a pair of functions the constructor and the selector of a kind.\<close>

definition kind_of :: "resource \<Rightarrow> ('o object_meta_scheme \<Rightarrow> any_object) \<Rightarrow>
    (any_object \<Rightarrow> 'o object_meta_scheme option) \<Rightarrow> bool" where
  "kind_of res wrap unwrap \<longleftrightarrow>
     (\<forall>x. of_kind res x \<longrightarrow> (\<exists>obj. x = wrap obj)) \<and> (\<forall>obj. unwrap (wrap obj) = Some obj) \<and>
     (\<forall>obj. of_kind res (wrap obj) \<and> object_key (any_meta (wrap obj)) = object_key obj)"

lemma stored_at_iff:
  assumes "kind_of res wrap unwrap"
  shows "stored_at sd res unwrap w k = Some obj \<longleftrightarrow> store_view w (sd, res, k) = Some (wrap obj)"
    and "stored_at sd res unwrap w k = None \<longleftrightarrow> store_view w (sd, res, k) = None"
proof -
  have "\<exists>obj. x = wrap obj" if "store_view w (sd, res, k) = Some x" for x
    using store_view_placeable [OF that] assms by (auto simp: placeable_def kind_of_def)
  then show "stored_at sd res unwrap w k = Some obj \<longleftrightarrow> store_view w (sd, res, k) = Some (wrap obj)"
    and "stored_at sd res unwrap w k = None \<longleftrightarrow> store_view w (sd, res, k) = None"
    using assms by (cases "store_view w (sd, res, k)"; force simp: stored_at_def kind_of_def)+
qed

lemma map_le_on: "dom ls \<subseteq> K \<Longrightarrow> ls \<subseteq>\<^sub>m m \<longleftrightarrow> (\<forall>k \<in> K. ls k = None \<or> ls k = m k)"
  unfolding map_le_def by (metis domIff in_mono)

lemma selected_iff: "dom ls \<subseteq> {''by'', ''for''} \<Longrightarrow> selected ls obj \<longleftrightarrow> ls \<subseteq>\<^sub>m meta_labels obj"
  unfolding map_le_on selected_def ball_simps by simp

lemma store_list_honest:
  assumes kind: "kind_of res wrap unwrap"
  shows "list_honest {''by'', ''for''} store_view sd res wrap (store_api sd res wrap unwrap)"
  unfolding list_honest_def
proof (intro allI impI conjI)
  fix ns ls w ans w'
  assume call: "api_list (store_api sd res wrap unwrap) ns ls w = (ans, w')"
  then show "store_view w' = store_view w" by (simp add: store_api_def)
  fix objs k obj
  assume ans: "ans = Inr objs \<and> dom ls \<subseteq> {''by'', ''for''}"
  have found: "obj \<in> set objs \<longleftrightarrow> (\<exists>k. (sd, res, k) \<in> fst ` set w \<and> nn_namespace k = ns \<and>
      stored_at sd res unwrap w k = Some obj \<and> ls \<subseteq>\<^sub>m meta_labels obj)"
    using call ans selected_iff [of ls]
    by (auto simp: store_api_def List.map_filter_def image_iff split: if_splits option.splits) force+
  have keyed: "object_key obj = k" if "store_view w (sd, res, k) = Some (wrap obj)" for k
    using store_view_placeable [OF that] kind by (simp add: placeable_def kind_of_def)
  show "(store_view w (sd, res, k) = Some (wrap obj) \<and> nn_namespace k = ns \<and> ls \<subseteq>\<^sub>m meta_labels obj) =
      (object_key obj = k \<and> obj \<in> set objs)"
    unfolding found stored_at_iff [OF kind] by (blast dest: keyed store_view_key)
qed

lemma store_kind_honest:
  assumes kind: "kind_of res wrap unwrap"
  shows "kind_honest {''by'', ''for''} store_view sd res wrap (store_api sd res wrap unwrap)"
proof -
  let ?api = "store_api sd res wrap unwrap"
  note at = stored_at_iff [OF kind]
  have placeable: "placeable (sd, res, object_key obj) (wrap obj)" for obj
    using kind by (simp add: placeable_def kind_of_def)
  have keyed: "object_key obj = k" if "store_view w (sd, res, k) = Some (wrap obj)" for w k obj
    using store_view_placeable [OF that] kind by (simp add: placeable_def kind_of_def)
  have inj: "wrap a = wrap b \<longleftrightarrow> a = b" for a b
    using kind unfolding kind_of_def by (metis option.inject)
  have "obj \<in> range wrap" if "store_view w (sd, res, k) = Some obj" for w k obj
    using store_view_placeable [OF that] kind by (auto simp: placeable_def kind_of_def)
  moreover have "get_honest store_view sd res wrap ?api"
    by (auto simp: get_honest_def store_api_def at keyed split: option.splits)
  moreover have "list_honest {''by'', ''for''} store_view sd res wrap ?api"
    by (rule store_list_honest [OF kind])
  moreover have "create_honest store_view sd res wrap ?api"
    by (auto simp: create_honest_def store_api_def at placeable split: option.splits)
  moreover have "patch_honest store_view sd res wrap ?api"
    by (auto simp: patch_honest_def store_api_def at placeable inj split: option.splits if_splits)
  moreover have "delete_honest store_view sd res ?api"
    by (auto simp: delete_honest_def store_api_def at split: option.splits)
  moreover have "upsert_honest store_view sd res wrap ?api"
    unfolding upsert_honest_def
  proof (intro allI impI)
    fix obj f w ans w'
    let ?base = "case stored_at sd res unwrap w (object_key obj) of None \<Rightarrow> obj | Some old \<Rightarrow> old"
    assume call: "api_upsert ?api obj f w = (ans, w')"
    have base: "store_view w (sd, res, object_key obj) = Some (wrap ?base) \<or>
        store_view w (sd, res, object_key obj) = None \<and> ?base = obj"
      by (auto simp: at split: option.split)
    have new: "store_view (put_object (sd, res, object_key obj) (wrap new) w) =
        (store_view w)((sd, res, object_key obj) \<mapsto> wrap new)" if "object_key new = object_key obj" for new
      using placeable [of new] that by simp
    show "case ans of
        Returned (Inr new) \<Rightarrow> \<exists>base. f base = Mutated new \<and> object_key new = object_key obj \<and>
          (store_view w (sd, res, object_key obj) = Some (wrap base) \<or>
           store_view w (sd, res, object_key obj) = None \<and> base = obj) \<and>
          store_view w' = (store_view w)((sd, res, object_key obj) \<mapsto> wrap new)
      | _ \<Rightarrow> store_view w' = store_view w"
    proof (cases "f ?base")
      case (Mutated new)
      with call base new show ?thesis
        by (cases "object_key new = object_key obj")
           (auto simp: store_api_def intro!: exI [of _ ?base])
    qed (use call in \<open>auto simp: store_api_def\<close>)
  qed
  ultimately show ?thesis by (simp add: kind_honest_def)
qed

lemma store_kinds:
  "kind_of RCluster ACluster (\<lambda>x. case x of ACluster obj \<Rightarrow> Some obj | _ \<Rightarrow> None)"
  "kind_of RConfig AConfig (\<lambda>x. case x of AConfig obj \<Rightarrow> Some obj | _ \<Rightarrow> None)"
  "kind_of RService AService (\<lambda>x. case x of AService obj \<Rightarrow> Some obj | _ \<Rightarrow> None)"
  "kind_of RSecret ASecret (\<lambda>x. case x of ASecret obj \<Rightarrow> Some obj | _ \<Rightarrow> None)"
  "kind_of RNamespace ANamespace (\<lambda>x. case x of ANamespace obj \<Rightarrow> Some obj | _ \<Rightarrow> None)"
  "kind_of (RSource k) ASource (\<lambda>x. case x of ASource obj \<Rightarrow> Some obj | _ \<Rightarrow> None)"
  "kind_of RRelease ARelease (\<lambda>x. case x of ARelease obj \<Rightarrow> Some obj | _ \<Rightarrow> None)"
proof -
  have "\<exists>obj. x = ACluster obj" if "of_kind RCluster x" for x using that by (cases x) simp_all
  moreover have "\<exists>obj. x = AConfig obj" if "of_kind RConfig x" for x using that by (cases x) simp_all
  moreover have "\<exists>obj. x = AService obj" if "of_kind RService x" for x using that by (cases x) simp_all
  moreover have "\<exists>obj. x = ASecret obj" if "of_kind RSecret x" for x using that by (cases x) simp_all
  moreover have "\<exists>obj. x = ANamespace obj" if "of_kind RNamespace x" for x using that by (cases x) simp_all
  moreover have "\<exists>obj. x = ASource obj" if "of_kind (RSource k) x" for x using that by (cases x) simp_all
  moreover have "\<exists>obj. x = ARelease obj" if "of_kind RRelease x" for x using that by (cases x) simp_all
  ultimately show
    "kind_of RCluster ACluster (\<lambda>x. case x of ACluster obj \<Rightarrow> Some obj | _ \<Rightarrow> None)"
    "kind_of RConfig AConfig (\<lambda>x. case x of AConfig obj \<Rightarrow> Some obj | _ \<Rightarrow> None)"
    "kind_of RService AService (\<lambda>x. case x of AService obj \<Rightarrow> Some obj | _ \<Rightarrow> None)"
    "kind_of RSecret ASecret (\<lambda>x. case x of ASecret obj \<Rightarrow> Some obj | _ \<Rightarrow> None)"
    "kind_of RNamespace ANamespace (\<lambda>x. case x of ANamespace obj \<Rightarrow> Some obj | _ \<Rightarrow> None)"
    "kind_of (RSource k) ASource (\<lambda>x. case x of ASource obj \<Rightarrow> Some obj | _ \<Rightarrow> None)"
    "kind_of RRelease ARelease (\<lambda>x. case x of ARelease obj \<Rightarrow> Some obj | _ \<Rightarrow> None)"
    by (auto simp: kind_of_def object_key_def)
qed

lemma store_kind_reliable:
  assumes kind: "kind_of res wrap unwrap"
  shows "kind_reliable store_view sd res wrap (store_api sd res wrap unwrap)"
proof -
  note at = stored_at_iff [OF kind]
  have keyed: "object_key obj = k" if "store_view w (sd, res, k) = Some (wrap obj)" for w k obj
    using store_view_placeable [OF that] kind by (simp add: placeable_def kind_of_def)
  have base: "object_key (case stored_at sd res unwrap w (object_key obj) of None \<Rightarrow> obj | Some old \<Rightarrow> old) = object_key obj"
    for w obj using keyed by (auto simp: at split: option.split)
  have upsert: "\<exists>new. fst (api_upsert (store_api sd res wrap unwrap) obj f w) = Returned (Inr new)"
    if "\<forall>base. object_key base = object_key obj \<longrightarrow> (\<exists>new. f base = Mutated new \<and> object_key new = object_key obj)" for obj f w
  proof -
    from that base [of obj w] obtain new where
      "f (case stored_at sd res unwrap w (object_key obj) of None \<Rightarrow> obj | Some old \<Rightarrow> old) = Mutated new"
      "object_key new = object_key obj" by blast
    then show ?thesis by (simp add: store_api_def)
  qed
  have "\<exists>obj. fst (api_patch (store_api sd res wrap unwrap) old new w) = Inr obj"
    if "store_view w (sd, res, object_key new) \<noteq> None" for old new w
    using that at(2) [of sd w "object_key new"] by (auto simp: store_api_def split: option.split)
  moreover have "fst (api_get (store_api sd res wrap unwrap) k w) = Inr obj"
    if "store_view w (sd, res, k) = Some (wrap obj)" for k w obj
    using that at(1) [of sd w k obj] by (simp add: store_api_def)
  moreover have "fst (api_get (store_api sd res wrap unwrap) k w) = Inl NotFound"
    if "store_view w (sd, res, k) = None" for k w
    using that at(2) [of sd w k] by (simp add: store_api_def)
  moreover have "fst (api_create (store_api sd res wrap unwrap) obj w) \<in> {None, Some AlreadyExists}"
    "fst (api_delete (store_api sd res wrap unwrap) k w) \<in> {None, Some NotFound}"
    "\<exists>objs. fst (api_list (store_api sd res wrap unwrap) ns ls w) = Inr objs" for obj k ns ls w
    by (simp_all add: store_api_def split: option.split)
  ultimately show ?thesis using upsert unfolding kind_reliable_def by blast
qed

lemma store_client_reliable: "client_reliable store_view sd (store_client sd)"
  by (simp add: client_reliable_def store_client_def store_kind_reliable store_kinds)

lemma store_client_honest: "client_honest {''by'', ''for''} store_view sd (store_client sd)"
  by (simp add: client_honest_def store_client_def store_kind_honest store_kinds)

subsection \<open>Libraries and a reconciler\<close>

definition store_lib :: "store lib" where
  "store_lib =
     \<lparr>lib_client_of = (\<lambda>a. Some (store_client (OnTarget a))),
      lib_remove_annotation = (\<lambda>k c w.
        let c' = c\<lparr>meta_annotations := (meta_annotations c)(k := None)\<rparr>
        in (Inr c', put_object (OnPlatform, RCluster, object_key c) (ACluster c') w)),
      lib_shorten = (\<lambda>s n.
        if n < 0 then Panicked LibraryPanic
        else if int (length s) \<le> n then Returned s else Returned (take (nat n) s)),
      lib_max_name_length = 63,
      lib_merge = foldl (++) Map.empty,
      lib_set_owner = (\<lambda>c os. Inr (if meta_name c \<in> set os then os else os @ [meta_name c])),
      lib_add_finalizer = (\<lambda>f fs. if f \<in> set fs then (False, fs) else (True, fs @ [f])),
      lib_remove_finalizer = (\<lambda>f fs. (f \<in> set fs, filter (\<lambda>g. g \<noteq> f) fs)),
      lib_project_sources = map,
      lib_project_requests = map,
      lib_range = (\<lambda>w xs. rev xs),
      lib_range_clusters = rev,
      lib_managed_by_label = ''by'',
      lib_managed_purpose_label = ''for'',
      lib_operation_annotation = ''op'',
      lib_operation_ignore = ''ignore'',
      lib_operation_reconcile = ''reconcile'',
      lib_openmcp_group = ''openmcp'',
      lib_flux_api_version = ''v1'',
      lib_create_replace = ''CreateReplace'',
      lib_kubeconfig_key = ''kubeconfig''\<rparr>"

definition store_reconciler :: "store reconciler" where
  "store_reconciler =
     \<lparr>platform = store_client OnPlatform, event_recorder = None, provider_name = ''dns'',
      provider_namespace = ''sys'', environment = ''dev'',
      access_reconciler =
        \<lparr>access_reconcile = (\<lambda>k w. ((\<lparr>requeue_after = 0\<rparr>, None), w)),
         access_request_of = (\<lambda>k w. ((Some granted_request, None), w)),
         access_cluster = (\<lambda>k w. ((Some 0, None), w)),
         access_reconcile_delete = (\<lambda>k w. ((\<lparr>requeue_after = 0\<rparr>, None), w))\<rparr>\<rparr>"

lemma store_annotation_honest: "annotation_honest store_view store_lib"
proof -
  have "placeable (OnPlatform, RCluster, object_key c) (ACluster (c\<lparr>meta_annotations := anns\<rparr>))" for c anns
    by (simp add: placeable_def object_key_def)
  then show ?thesis by (auto simp: annotation_honest_def store_lib_def Let_def)
qed

lemma store_laws: "outcome_laws store_view store_lib store_reconciler"
proof -
  have "managed_labels store_lib = {''by'', ''for''}" "platform store_reconciler = store_client OnPlatform"
    "lib_client_of store_lib = (\<lambda>a. Some (store_client (OnTarget a)))"
    by (simp_all add: managed_labels_def store_lib_def store_reconciler_def)
  then have "server_law store_view store_lib store_reconciler"
    by (simp add: server_law_def store_client_honest store_annotation_honest)
       (simp add: access_honest_def event_honest_def store_reconciler_def)
  then show ?thesis
    by (auto simp: outcome_laws_def merge_law_def owner_law_def project_law_def range_law_def
        finalizer_law_def store_lib_def)
qed

subsection \<open>Outcomes of sample runs\<close>

definition at_platform :: "resource \<Rightarrow> any_object \<Rightarrow> place \<times> any_object" where
  "at_platform res obj = ((OnPlatform, res, object_key (any_meta obj)), obj)"

definition start_store :: "cluster \<Rightarrow> store" where
  "start_store c =
     [at_platform RCluster (ACluster c), at_platform RConfig (AConfig (sample_config [sample_purpose])),
      at_platform RService (AService sample_service),
      at_platform RSecret (ASecret (sample_secret ''sys'' ''pull'' Map.empty)),
      at_platform RSecret (ASecret (sample_secret ''sys'' ''cred'' Map.empty)),
      at_platform RSecret (ASecret (sample_secret ''c'' ''old'' own_labels)),
      at_platform (RSource GitRepository) (ASource (sample_source ''git''))]"

definition store_run :: "cluster \<Rightarrow> (requeue_result \<times> failure option) outcome \<times> store controller_state" where
  "store_run c = Reconcile store_lib store_reconciler \<lparr>nn_namespace = ''c'', nn_name = ''c1''\<rparr>
     \<lparr>world = start_store c, known_clusters = []\<rparr>"

definition quiet :: "(requeue_result \<times> failure option) outcome \<Rightarrow> bool" where
  "quiet x = (case x of Returned (res, e) \<Rightarrow> requeue_after res \<le> 0 \<and> e = None | Panicked p \<Rightarrow> False)"

lemma quiet_Returned: "quiet (fst m) \<Longrightarrow> \<exists>res s'. m = (Returned (res, None), s') \<and> requeue_after res \<le> 0"
  by (cases m) (auto simp: quiet_def split: outcome.splits)

lemma store_runs_quiet:
  "quiet (fst (store_run (sample_cluster [] Map.empty False)))"
  "quiet (fst (store_run (sample_cluster [the_finalizer] Map.empty True)))"
  by code_simp+

lemma start_store_asked_for:
  assumes "object_key c = \<lparr>nn_namespace = ''c'', nn_name = ''c1''\<rparr>"
  shows "asked_for store_reconciler (store_view (start_store c)) \<lparr>nn_namespace = ''c'', nn_name = ''c1''\<rparr> c
    (sample_config [sample_purpose]) sample_service"
proof -
  have "meta_name c = ''c1''" "meta_namespace c = ''c''"
    using assms by (simp_all add: object_key_def)
  then show ?thesis
    by (simp add: asked_for_def start_store_def at_platform_def placeable_def object_key_def service_key_def
        store_reconciler_def sample_config_def sample_service_def)
qed

lemma first_run_ready:
  "asked_for store_reconciler (store_view (world \<lparr>world = start_store (sample_cluster [] Map.empty False), known_clusters = []\<rparr>))
     \<lparr>nn_namespace = ''c'', nn_name = ''c1''\<rparr> (sample_cluster [] Map.empty False) (sample_config [sample_purpose]) sample_service"
  "wanted_cluster (sample_cluster [] Map.empty False) (sample_config [sample_purpose])"
  "requested_operation store_lib (sample_cluster [] Map.empty False) \<noteq> Some (lib_operation_ignore store_lib)"
  "nn_namespace \<lparr>nn_namespace = ''c'', nn_name = ''c1''\<rparr> \<noteq> provider_namespace store_reconciler"
proof -
  show "asked_for store_reconciler (store_view (world \<lparr>world = start_store (sample_cluster [] Map.empty False), known_clusters = []\<rparr>))
     \<lparr>nn_namespace = ''c'', nn_name = ''c1''\<rparr> (sample_cluster [] Map.empty False) (sample_config [sample_purpose]) sample_service"
    using start_store_asked_for [of "sample_cluster [] Map.empty False"] by (simp add: sample_cluster_def object_key_def)
  show "wanted_cluster (sample_cluster [] Map.empty False) (sample_config [sample_purpose])" by code_simp
qed (simp_all add: requested_operation_def sample_cluster_def store_reconciler_def)

theorem successful_run_deploys_witness:
  "cluster_deployed store_lib store_reconciler \<lparr>nn_namespace = ''c'', nn_name = ''c1''\<rparr>
     (sample_config [sample_purpose]) sample_service
     (store_view (world (snd (store_run (sample_cluster [] Map.empty False)))))
     (known_clusters (snd (store_run (sample_cluster [] Map.empty False))))"
proof -
  let ?c = "sample_cluster [] Map.empty False"
  obtain res s' where run: "store_run ?c = (Returned (res, None), s')" "requeue_after res \<le> 0"
    using quiet_Returned [OF store_runs_quiet(1)] by blast
  show ?thesis
    using successful_run_deploys [OF store_laws first_run_ready run(1) [unfolded store_run_def] run(2)]
    by (simp add: run(1))
qed

text \<open>Access is always granted here, so nothing may stay on the Cluster.\<close>

lemma store_target_cleared:
  "target_cleared store_reconciler c expected w v \<Longrightarrow>
   tidy expected (OnTarget 0) RSecret target_cluster_namespace (\<lambda>nn. False) v"
  by (simp add: target_cleared_def store_reconciler_def granted_request_def object_meta.defs access_request.defs meta_of_def)

theorem successful_run_cleans_up_witness:
  "cluster_removed store_lib store_reconciler (sample_cluster [the_finalizer] Map.empty True)
     (store_view (world (snd (store_run (sample_cluster [the_finalizer] Map.empty True)))))
     (known_clusters (snd (store_run (sample_cluster [the_finalizer] Map.empty True)))) \<and>
   tidy (expected_labels store_lib store_reconciler ''c1'') (OnTarget 0) RSecret target_cluster_namespace (\<lambda>nn. False)
     (store_view (world (snd (store_run (sample_cluster [the_finalizer] Map.empty True)))))"
proof -
  let ?c = "sample_cluster [the_finalizer] Map.empty True"
  obtain res s' where run: "store_run ?c = (Returned (res, None), s')" "requeue_after res \<le> 0"
    using quiet_Returned [OF store_runs_quiet(2)] by blast
  have "asked_for store_reconciler (store_view (world \<lparr>world = start_store ?c, known_clusters = []\<rparr>))
      \<lparr>nn_namespace = ''c'', nn_name = ''c1''\<rparr> ?c (sample_config [sample_purpose]) sample_service"
    using start_store_asked_for [of ?c] by (simp add: sample_cluster_def object_key_def)
  moreover have "\<not> wanted_cluster ?c (sample_config [sample_purpose])"
    by (simp add: wanted_cluster_def sample_cluster_def)
  moreover have "cluster_finalizer store_lib \<in> set (meta_finalizers ?c)" by code_simp
  moreover have "requested_operation store_lib ?c \<noteq> Some (lib_operation_ignore store_lib)"
    by (simp add: requested_operation_def sample_cluster_def)
  ultimately have cleaned:
    "cluster_removed store_lib store_reconciler ?c (store_view (world s')) (known_clusters s') \<and>
     target_cleared store_reconciler ?c (expected_labels store_lib store_reconciler (meta_name ?c))
       (cleanup_world store_lib store_reconciler ?c (start_store ?c)) (store_view (world s'))"
    using successful_run_cleans_up [OF store_laws _ _ _ _ run(1) [unfolded store_run_def] run(2)] by simp
  have "meta_name ?c = ''c1''" by (simp add: sample_cluster_def)
  with cleaned store_target_cleared [OF conjunct2 [OF cleaned]] show ?thesis by (simp add: run(1))
qed

subsection \<open>Reliability\<close>

lemma store_reliable: "server_reliable store_view store_lib store_reconciler"
  by (simp add: server_reliable_def store_client_reliable store_lib_def store_reconciler_def Let_def)

lemma start_store_ready:
  "deploy_ready store_lib store_reconciler (sample_cluster [] Map.empty False) (sample_config [sample_purpose])
     sample_service 0 granted_request (store_view (start_store (sample_cluster [] Map.empty False)))"
proof -
  let ?c = "sample_cluster [] Map.empty False" and ?config = "sample_config [sample_purpose]"
  have "cluster_based_resource_name store_lib (meta_name ?c) = Returned ''c1.external-dns''" by code_simp
  then have named: "nameable store_lib ?c" by (auto simp: nameable_def)
  have owned: "ownable store_lib ?c" by (simp add: ownable_def store_lib_def)
  have granted: "access_granted store_lib store_reconciler (object_key ?c) 0 granted_request"
    by (simp add: access_granted_def store_lib_def store_reconciler_def granted_request_def
        object_meta.defs access_request.defs)
  have "configured_source (spec_source (service_spec ?config)) \<noteq> None" by code_simp
  moreover have "select_config (spec_purposes (service_spec ?config)) (cluster_purposes ?c) = Some sample_purpose"
    "config_helm_values sample_purpose \<noteq> None"
    by (simp_all add: sample_config_def sample_purpose_def selector_matches_def)
  moreover have entries: "secret_entries ?config sample_service PlatformClusterCopy = [(''pull'', ''pull'')]"
    "secret_entries ?config sample_service TargetClusterCopy = [(''pull'', ''pull''), (''cred'', ''creds'')]"
    by code_simp+
  have "secrets_ready store_reconciler (expected_labels store_lib store_reconciler (meta_name ?c)) OnPlatform
      (meta_namespace ?c) (secret_entries ?config sample_service PlatformClusterCopy) (store_view (start_store ?c))"
    "secrets_ready store_reconciler (expected_labels store_lib store_reconciler (meta_name ?c)) (OnTarget 0)
      target_cluster_namespace (secret_entries ?config sample_service TargetClusterCopy) (store_view (start_store ?c))"
    unfolding entries
    by (simp_all add: secrets_ready_def start_store_def at_platform_def placeable_def object_key_def
        store_reconciler_def sample_secret_def sample_cluster_def target_cluster_namespace_def)
  ultimately show ?thesis using named owned granted by (simp add: deploy_ready_def)
qed

theorem reliable_run_deploys_witness:
  "quiet (fst (store_run (sample_cluster [] Map.empty False)))"
proof -
  let ?c = "sample_cluster [] Map.empty False"
  let ?s = "\<lparr>world = start_store ?c, known_clusters = []\<rparr>"
  have "deploy_ready store_lib store_reconciler ?c (sample_config [sample_purpose])
      sample_service 0 granted_request (store_view (world ?s))"
    using start_store_ready by simp
  then obtain res s' where
    "Reconcile store_lib store_reconciler \<lparr>nn_namespace = ''c'', nn_name = ''c1''\<rparr> ?s = (Returned (res, None), s')"
    "requeue_after res \<le> 0"
    using reliable_run_deploys [OF store_laws store_reliable first_run_ready] by blast
  then show ?thesis by (simp add: store_run_def quiet_def)
qed

theorem reliable_run_cleans_up_witness:
  "quiet (fst (store_run (sample_cluster [the_finalizer] Map.empty True)))"
proof -
  let ?c = "sample_cluster [the_finalizer] Map.empty True"
  let ?s = "\<lparr>world = start_store ?c, known_clusters = []\<rparr>"
  let ?req = "\<lparr>nn_namespace = ''c'', nn_name = ''c1''\<rparr>"
  have "asked_for store_reconciler (store_view (world ?s)) ?req ?c (sample_config [sample_purpose]) sample_service"
    using start_store_asked_for [of ?c] by (simp add: sample_cluster_def object_key_def)
  moreover have "\<not> wanted_cluster ?c (sample_config [sample_purpose])"
    by (simp add: wanted_cluster_def sample_cluster_def)
  moreover have "cluster_finalizer store_lib \<in> set (meta_finalizers ?c)" by code_simp
  moreover have "requested_operation store_lib ?c \<noteq> Some (lib_operation_ignore store_lib)"
    by (simp add: requested_operation_def sample_cluster_def)
  moreover have "access_removable store_lib store_reconciler ?req"
    by (simp add: access_removable_def cluster_reachable_def store_lib_def store_reconciler_def ignore_not_found_def)
  moreover have "cluster_based_resource_name store_lib (meta_name ?c) = Returned ''c1.external-dns''" by code_simp
  then have "release_gone store_lib ?c (store_view (world ?s))"
    by (simp add: release_gone_def start_store_def at_platform_def)
  ultimately obtain res s' where
    "Reconcile store_lib store_reconciler ?req ?s = (Returned (res, None), s')" "requeue_after res \<le> 0"
    using reliable_run_cleans_up [OF store_laws store_reliable] by blast
  then show ?thesis by (simp add: store_run_def quiet_def)
qed

subsection \<open>Further runs\<close>

text \<open>The objects after the first run, and what they have to satisfy as a test on the list.\<close>

definition store_settled :: "store \<Rightarrow> bool" where
  "store_settled w \<longleftrightarrow> list_all (\<lambda>(_, obj). \<not> meta_deleting (any_meta obj)) w \<and>
     (case store_view w (OnPlatform, RCluster, \<lparr>nn_namespace = ''c'', nn_name = ''c1''\<rparr>) of
        Some (ACluster c) \<Rightarrow> wanted_cluster c (sample_config [sample_purpose]) \<and> requested_operation store_lib c = None
      | _ \<Rightarrow> False)"

lemma store_view_entry: "store_view w pl = Some obj \<Longrightarrow> (pl, obj) \<in> set w"
  by (induction w pl rule: store_view.induct) (auto split: if_splits)

lemma settled_store:
  assumes "store_settled w"
  shows "settled store_lib store_reconciler \<lparr>nn_namespace = ''c'', nn_name = ''c1''\<rparr>
    (sample_config [sample_purpose]) sample_service (store_view w)"
proof -
  have "nothing_fading expected (store_view w)" for expected
    using assms by (auto simp: store_settled_def nothing_fading_def list_all_iff dest!: store_view_entry)
  moreover have "secret_entries (sample_config [sample_purpose]) sample_service PlatformClusterCopy = [(''pull'', ''pull'')]"
    "secret_entries (sample_config [sample_purpose]) sample_service TargetClusterCopy = [(''pull'', ''pull''), (''cred'', ''creds'')]"
    by code_simp+
  then have "distinct (map snd (secret_entries (sample_config [sample_purpose]) sample_service ct))" for ct
    by (cases ct) simp_all
  ultimately show ?thesis using assms by (auto simp: store_settled_def settled_def)
qed

definition second_run :: "(requeue_result \<times> failure option) outcome \<times> store controller_state" where
  "second_run = Reconcile store_lib store_reconciler \<lparr>nn_namespace = ''c'', nn_name = ''c1''\<rparr>
     (snd (store_run (sample_cluster [] Map.empty False)))"

lemma first_run_deploys:
  "cluster_deployed store_lib store_reconciler \<lparr>nn_namespace = ''c'', nn_name = ''c1''\<rparr>
     (sample_config [sample_purpose]) sample_service
     (store_view (world (snd (store_run (sample_cluster [] Map.empty False)))))
     (known_clusters (snd (store_run (sample_cluster [] Map.empty False))))"
proof -
  let ?c = "sample_cluster [] Map.empty False"
  obtain res s' where run: "store_run ?c = (Returned (res, None), s')" "requeue_after res \<le> 0"
    using quiet_Returned [OF store_runs_quiet(1)] by blast
  show ?thesis
    using run_deploys [OF store_laws first_run_ready run(1) [unfolded store_run_def] run(2)]
    by (simp add: run(1))
qed

theorem deployed_cluster_left_alone_witness:
  "store_view (world (snd second_run)) = store_view (world (snd (store_run (sample_cluster [] Map.empty False))))"
proof -
  let ?s = "snd (store_run (sample_cluster [] Map.empty False))"
  let ?key = "\<lparr>nn_namespace = ''c'', nn_name = ''c1''\<rparr>"
  have "store_settled (world ?s)" by code_simp
  moreover obtain c rr where rr: "deployed_by store_lib store_reconciler ?key (sample_config [sample_purpose]) sample_service
      (store_view (world ?s)) c rr" and known: "?key \<in> set (known_clusters ?s)"
    using first_run_deploys unfolding cluster_deployed_by by blast
  moreover have "access_unchanged store_view store_reconciler ?key rr (store_view (world ?s))"
    using rr by (auto simp: deployed_by_def accessed_def access_unchanged_def store_reconciler_def)
  moreover have "repeated store_lib store_reconciler ?key ?s (snd second_run)"
    unfolding second_run_def by (rule one_more [OF no_run prod.collapse [symmetric]])
  ultimately show ?thesis
    using deployed_cluster_left_alone [OF store_laws first_run_ready(4) known rr _ settled_store] by blast
qed

end
