(* ===== verification/Sample_Neighbours.thy ===== *)
theory Sample_Neighbours
  imports Isolation Sample_Store
begin

section \<open>A second Cluster in the sample store\<close>

text \<open>
  After the first Cluster of the sample store is deployed, a second one appears in its namespace, which
  the configuration matches as well.
\<close>

definition second_cluster :: cluster where
  "second_cluster = (sample_cluster [] Map.empty False)\<lparr>meta_name := ''c2''\<rparr>"

abbreviation "first_key \<equiv> \<lparr>nn_namespace = ''c'', nn_name = ''c1''\<rparr>"

abbreviation "second_key \<equiv> \<lparr>nn_namespace = ''c'', nn_name = ''c2''\<rparr>"

definition crowded :: "store controller_state" where
  "crowded = (let s = snd (store_run (sample_cluster [] Map.empty False))
     in s\<lparr>world := put_object (OnPlatform, RCluster, second_key) (ACluster second_cluster) (world s)\<rparr>)"

definition neighbour_run :: "(requeue_result \<times> failure option) outcome \<times> store controller_state" where
  "neighbour_run = Reconcile store_lib store_reconciler second_key crowded"

lemma crowded_view:
  "store_view (world crowded) =
     (store_view (world (snd (store_run (sample_cluster [] Map.empty False)))))
       ((OnPlatform, RCluster, second_key) \<mapsto> ACluster second_cluster)"
  by (simp add: crowded_def Let_def placeable_def second_cluster_def sample_cluster_def object_key_def)

lemma sample_separate: "separate store_lib store_reconciler second_key first_key"
proof -
  have "cluster_based_resource_name store_lib ''c1'' \<noteq> cluster_based_resource_name store_lib ''c2''" by code_simp
  then show ?thesis by (simp add: separate_def store_reconciler_def)
qed

lemma crowded_deployed:
  "cluster_deployed store_lib store_reconciler first_key (sample_config [sample_purpose]) sample_service
     (store_view (world crowded)) (known_clusters crowded)"
proof (rule deployed_survives [OF _ store_laws sample_separate _ first_run_deploys])
  show "own_step (expected_labels store_lib store_reconciler (nn_name second_key)) (nn_namespace second_key)
      (own_places store_lib second_key) (store_view (world (snd (store_run (sample_cluster [] Map.empty False)))))
      (store_view (world crowded))"
    unfolding crowded_view by (rule own_step_update) (auto simp: own_places_def)
  show "first_key \<in> set (known_clusters crowded)"
    using first_run_deploys by (simp add: cluster_deployed_def crowded_def Let_def)
qed

lemma second_asked_for:
  "asked_for store_reconciler (store_view (world crowded)) second_key second_cluster (sample_config [sample_purpose]) sample_service"
  using crowded_deployed crowded_view by (auto simp: cluster_deployed_def asked_for_def)

subsection \<open>Witnesses\<close>

theorem neighbours_stay_deployed_witness:
  "cluster_deployed store_lib store_reconciler first_key (sample_config [sample_purpose]) sample_service
     (store_view (world (snd neighbour_run))) (known_clusters (snd neighbour_run))"
proof -
  have "runs_for_others store_lib store_reconciler first_key crowded (snd neighbour_run)"
    unfolding neighbour_run_def
    by (rule runs_for_others.run_for [OF runs_for_others.no_run sample_separate prod.collapse [symmetric]])
  with store_laws show ?thesis using crowded_deployed by (rule neighbours_stay_deployed)
qed

theorem namespace_serves_one_cluster_witness: "\<not> quiet (fst neighbour_run)"
proof -
  have "secret_entries (sample_config [sample_purpose]) sample_service PlatformClusterCopy \<noteq> []" by code_simp
  moreover have "wanted_cluster second_cluster (sample_config [sample_purpose])" by code_simp
  moreover have "requested_operation store_lib second_cluster \<noteq> Some (lib_operation_ignore store_lib)"
    by (simp add: requested_operation_def second_cluster_def sample_cluster_def)
  moreover have "nn_namespace second_key \<noteq> provider_namespace store_reconciler"
    by (simp add: store_reconciler_def)
  ultimately have "\<forall>res. fst neighbour_run = Returned (res, None) \<longrightarrow> 0 < requeue_after res"
    using namespace_serves_one_cluster [OF store_laws _ _ _ crowded_deployed _ second_asked_for _ _
        prod.collapse [symmetric]] by (simp add: neighbour_run_def)
  then show ?thesis by (auto simp: quiet_def split: outcome.splits)
qed

end
