(* ===== verification/Go_Heap.thy ===== *)
theory Go_Heap
  imports Prelude
begin

section \<open>Memory and deep copies\<close>

text \<open>
  Structs that pointers and slices refer to live in cells of a heap, addressed by position; a fresh
  cell holds \<open>None\<close>, the zero value, until it is written. A slice is nil or the list of the addresses
  of its elements. Structs of imported packages are values of a type \<open>'x\<close> whose own references lead
  into a memory \<open>'m\<close> that only their package reads and writes. The theory has the allocating
  computations, the two patterns of generated deep-copy code for slices and pointers, and the contract
  of a deep copy: the copy reads the same, and everything it refers to is new.
\<close>

type_synonym cell_addr = nat

record ('c, 'm) go_heap =
  heap_cells :: "'c option list"
  heap_foreign :: 'm

text \<open>\<open>None\<close> is a computation that has not returned with the fuel given.\<close>

type_synonym ('c, 'm, 'a) alloc = "('c, 'm) go_heap \<Rightarrow> ('a \<times> ('c, 'm) go_heap) outcome option"

definition ret_alloc :: "'a \<Rightarrow> ('c, 'm, 'a) alloc" where
  "ret_alloc a h = Some (Returned (a, h))"

definition bind_alloc :: "('c, 'm, 'a) alloc \<Rightarrow> ('a \<Rightarrow> ('c, 'm, 'b) alloc) \<Rightarrow> ('c, 'm, 'b) alloc" where
  "bind_alloc m f h =
     (case m h of
        None \<Rightarrow> None
      | Some (Panicked p) \<Rightarrow> Some (Panicked p)
      | Some (Returned (a, h1)) \<Rightarrow> f a h1)"

text \<open>An address outside the heap or of an unwritten cell, which no pointer to a struct holds, panics.\<close>

definition read_cell :: "cell_addr \<Rightarrow> ('c, 'm, 'c) alloc" where
  "read_cell a h =
     (case (if a < length (heap_cells h) then heap_cells h ! a else None) of
        None \<Rightarrow> Some (Panicked NilDereference)
      | Some c \<Rightarrow> Some (Returned (c, h)))"

definition write_cell :: "cell_addr \<Rightarrow> 'c \<Rightarrow> ('c, 'm, unit) alloc" where
  "write_cell a c h = Some (Returned ((), h\<lparr>heap_cells := (heap_cells h)[a := Some c]\<rparr>))"

definition allocate :: "nat \<Rightarrow> ('c, 'm, cell_addr list) alloc" where
  "allocate n h =
     Some (Returned ([length (heap_cells h)..<length (heap_cells h) + n],
       h\<lparr>heap_cells := heap_cells h @ replicate n None\<rparr>))"

subsection \<open>The patterns of generated code\<close>

text \<open>
  The loop over the elements of a slice, or the single element behind a pointer: read the old cell,
  copy its struct, write the new cell.
\<close>

primrec copy_elements ::
  "('c \<Rightarrow> ('c, 'm, 'c) alloc) \<Rightarrow> (cell_addr \<times> cell_addr) list \<Rightarrow> ('c, 'm, unit) alloc" where
  "copy_elements f [] = ret_alloc ()"
| "copy_elements f (p # ps) =
     bind_alloc (read_cell (fst p)) (\<lambda>c.
     bind_alloc (f c) (\<lambda>d.
     bind_alloc (write_cell (snd p) d) (\<lambda>_.
     copy_elements f ps)))"

text \<open>\<open>if in.F != nil { *out = make([]T, len(*in)); for i := range *in { (*in)[i].DeepCopyInto(&(*out)[i]) } }\<close>\<close>

definition copy_slice ::
  "('c \<Rightarrow> ('c, 'm, 'c) alloc) \<Rightarrow> cell_addr list option \<Rightarrow> ('c, 'm, cell_addr list option) alloc" where
  "copy_slice f s =
     (case s of
        None \<Rightarrow> ret_alloc None
      | Some as \<Rightarrow>
          bind_alloc (allocate (length as)) (\<lambda>bs.
          bind_alloc (copy_elements f (zip as bs)) (\<lambda>_.
          ret_alloc (Some bs))))"

text \<open>\<open>if in.F != nil { *out = new(T); (*in).DeepCopyInto(*out) }\<close>\<close>

definition copy_pointer ::
  "('c \<Rightarrow> ('c, 'm, 'c) alloc) \<Rightarrow> cell_addr option \<Rightarrow> ('c, 'm, cell_addr option) alloc" where
  "copy_pointer f p =
     (case p of
        None \<Rightarrow> ret_alloc None
      | Some a \<Rightarrow>
          bind_alloc (allocate 1) (\<lambda>bs.
          bind_alloc (copy_elements f (zip [a] bs)) (\<lambda>_.
          ret_alloc (Some (hd bs)))))"

text \<open>The struct in a cell: the cell's content is of the pointer's type.\<close>

definition on_cell :: "('c \<Rightarrow> bool) \<Rightarrow> ('c \<Rightarrow> 'v) \<Rightarrow> ('v \<Rightarrow> 'c) \<Rightarrow> ('v \<Rightarrow> ('c, 'm, 'v) alloc) \<Rightarrow> 'c \<Rightarrow> ('c, 'm, 'c) alloc" where
  "on_cell is_v the_v wrap f c =
     (if is_v c then bind_alloc (f (the_v c)) (\<lambda>v. ret_alloc (wrap v))
      else (\<lambda>h. Some (Panicked NilDereference)))"

lemma bind_alloc_simps [seq_simps]:
  "m h = Some (Returned (a, h1)) \<Longrightarrow> bind_alloc m f h = f a h1"
  "m h = Some (Panicked p) \<Longrightarrow> bind_alloc m f h = Some (Panicked p)"
  "m h = None \<Longrightarrow> bind_alloc m f h = None"
  "bind_alloc (ret_alloc x) g h = g x h"
  by (simp_all add: bind_alloc_def ret_alloc_def)

subsection \<open>What can be read from a heap\<close>

text \<open>
  How the memory of the imported packages is seen: how much of it is in use, which of it a value refers
  to, and what a value means to its reader.
\<close>

record ('x, 'm, 'k) foreign_view =
  foreign_limit :: "'m \<Rightarrow> nat"
  foreign_refs :: "'m \<Rightarrow> 'x \<Rightarrow> nat set"
  foreign_content :: "'m \<Rightarrow> 'x \<Rightarrow> 'k"

text \<open>The readable part of a heap: the cells, and the foreign values, from a limit on.\<close>

type_synonym ('c, 'x, 'k) readable = "(cell_addr \<rightharpoonup> 'c) \<times> ('x \<rightharpoonup> 'k)"

definition limits :: "('x, 'm, 'k) foreign_view \<Rightarrow> ('c, 'm) go_heap \<Rightarrow> nat \<times> nat" where
  "limits X h = (length (heap_cells h), foreign_limit X (heap_foreign h))"

definition readable_from ::
  "('x, 'm, 'k) foreign_view \<Rightarrow> nat \<times> nat \<Rightarrow> ('c, 'm) go_heap \<Rightarrow> ('c, 'x, 'k) readable" where
  "readable_from X lo h =
     (\<lambda>a. if fst lo \<le> a \<and> a < length (heap_cells h) then heap_cells h ! a else None,
      \<lambda>x. if foreign_refs X (heap_foreign h) x \<subseteq> {snd lo..<foreign_limit X (heap_foreign h)}
          then Some (foreign_content X (heap_foreign h) x) else None)"

abbreviation readable :: "('x, 'm, 'k) foreign_view \<Rightarrow> ('c, 'm) go_heap \<Rightarrow> ('c, 'x, 'k) readable" where
  "readable X \<equiv> readable_from X (0, 0)"

definition readable_le :: "('c, 'x, 'k) readable \<Rightarrow> ('c, 'x, 'k) readable \<Rightarrow> bool" where
  "readable_le \<mu> \<mu>' \<longleftrightarrow> fst \<mu> \<subseteq>\<^sub>m fst \<mu>' \<and> snd \<mu> \<subseteq>\<^sub>m snd \<mu>'"

text \<open>A heap that has grown: what was there is unchanged.\<close>

definition extends :: "('x, 'm, 'k) foreign_view \<Rightarrow> ('c, 'm) go_heap \<Rightarrow> ('c, 'm) go_heap \<Rightarrow> bool" where
  "extends X h h' \<longleftrightarrow>
     (\<exists>new. heap_cells h' = heap_cells h @ new) \<and>
     foreign_limit X (heap_foreign h) \<le> foreign_limit X (heap_foreign h') \<and>
     (\<forall>x. foreign_refs X (heap_foreign h) x \<subseteq> {..<foreign_limit X (heap_foreign h)} \<longrightarrow>
        foreign_refs X (heap_foreign h') x = foreign_refs X (heap_foreign h) x \<and>
        foreign_content X (heap_foreign h') x = foreign_content X (heap_foreign h) x)"

lemma readable_le_refl [simp]: "readable_le \<mu> \<mu>"
  by (simp add: readable_le_def)

lemma readable_le_trans: "readable_le \<mu> \<nu> \<Longrightarrow> readable_le \<nu> \<rho> \<Longrightarrow> readable_le \<mu> \<rho>"
  by (auto simp: readable_le_def intro: map_le_trans)

lemma readable_leD: "readable_le \<mu> \<mu>' \<Longrightarrow> fst \<mu> a = Some c \<Longrightarrow> fst \<mu>' a = Some c"
  "readable_le \<mu> \<mu>' \<Longrightarrow> snd \<mu> x = Some k \<Longrightarrow> snd \<mu>' x = Some k"
  by (auto simp: readable_le_def map_le_def dom_def)

lemma extends_refl [simp]: "extends X h h"
  by (simp add: extends_def)

lemma extends_trans:
  assumes "extends X h1 h2" and "extends X h2 h3"
  shows "extends X h1 h3"
  unfolding extends_def
proof (intro conjI allI impI)
  show "\<exists>new. heap_cells h3 = heap_cells h1 @ new" using assms by (auto simp: extends_def)
  show "foreign_limit X (heap_foreign h1) \<le> foreign_limit X (heap_foreign h3)"
    using assms by (auto simp: extends_def)
  fix x
  assume x: "foreign_refs X (heap_foreign h1) x \<subseteq> {..<foreign_limit X (heap_foreign h1)}"
  then have x2: "foreign_refs X (heap_foreign h2) x = foreign_refs X (heap_foreign h1) x"
    "foreign_content X (heap_foreign h2) x = foreign_content X (heap_foreign h1) x"
    and limit: "foreign_limit X (heap_foreign h1) \<le> foreign_limit X (heap_foreign h2)"
    using assms(1) by (auto simp: extends_def)
  then have "foreign_refs X (heap_foreign h2) x \<subseteq> {..<foreign_limit X (heap_foreign h2)}"
    using x by auto
  then show "foreign_refs X (heap_foreign h3) x = foreign_refs X (heap_foreign h1) x"
    "foreign_content X (heap_foreign h3) x = foreign_content X (heap_foreign h1) x"
    using assms(2) x2 unfolding extends_def by metis+
qed

lemma extends_trans3: "extends X h1 h2 \<Longrightarrow> extends X h2 h3 \<Longrightarrow> extends X h3 h4 \<Longrightarrow> extends X h1 h4"
  by (blast intro: extends_trans)

lemma extends_limits: "extends X h h' \<Longrightarrow> fst (limits X h) \<le> fst (limits X h') \<and> snd (limits X h) \<le> snd (limits X h')"
  by (auto simp: extends_def limits_def)

lemma readable_extends:
  assumes "extends X h h'"
  shows "readable_le (readable_from X lo h) (readable_from X lo h')"
proof -
  have "foreign_refs X (heap_foreign h') x = foreign_refs X (heap_foreign h) x \<and>
      foreign_content X (heap_foreign h') x = foreign_content X (heap_foreign h) x"
    if "foreign_refs X (heap_foreign h) x \<subseteq> {snd lo..<foreign_limit X (heap_foreign h)}" for x
  proof -
    have "{snd lo..<foreign_limit X (heap_foreign h)} \<subseteq> {..<foreign_limit X (heap_foreign h)}" by auto
    with that assms show ?thesis unfolding extends_def by (meson order_trans)
  qed
  moreover have "foreign_limit X (heap_foreign h) \<le> foreign_limit X (heap_foreign h')"
    using assms by (simp add: extends_def)
  ultimately show ?thesis
    using assms
    by (fastforce simp: readable_le_def readable_from_def map_le_def extends_def nth_append split: if_splits)
qed

lemma readable_from_antimono:
  "fst lo \<le> fst lo' \<Longrightarrow> snd lo \<le> snd lo' \<Longrightarrow> readable_le (readable_from X lo' h) (readable_from X lo h)"
  by (fastforce simp: readable_le_def readable_from_def map_le_def split: if_splits)

text \<open>A write below the limit does not show, and neither does the growth by unwritten cells.\<close>

lemma readable_from_write:
  "b < fst lo \<Longrightarrow> readable_from X lo (h\<lparr>heap_cells := (heap_cells h)[b := c]\<rparr>) = readable_from X lo h"
  by (auto simp: readable_from_def)

lemma extends_write:
  assumes "extends X h h'" and "length (heap_cells h) \<le> b"
  shows "extends X h (h'\<lparr>heap_cells := (heap_cells h')[b := c]\<rparr>)"
  using assms by (auto simp: extends_def list_update_append)

lemma extends_allocate: "extends X h (h\<lparr>heap_cells := heap_cells h @ new\<rparr>)"
  by (simp add: extends_def)

text \<open>Later writes to cells.\<close>

definition overwrite :: "(cell_addr \<times> 'c) list \<Rightarrow> ('c, 'm) go_heap \<Rightarrow> ('c, 'm) go_heap" where
  "overwrite = fold (\<lambda>(a, c) h. h\<lparr>heap_cells := (heap_cells h)[a := Some c]\<rparr>)"

lemma overwrite_simps [simp]:
  "overwrite [] h = h"
  "overwrite ((a, c) # ws) h = overwrite ws (h\<lparr>heap_cells := (heap_cells h)[a := Some c]\<rparr>)"
  by (simp_all add: overwrite_def)

lemma extends_overwrite:
  "extends X h h' \<Longrightarrow> \<forall>w \<in> set ws. length (heap_cells h) \<le> fst w \<Longrightarrow> extends X h (overwrite ws h')"
proof (induction ws arbitrary: h')
  case (Cons w ws)
  obtain a c where w: "w = (a, c)" by (cases w)
  with Cons.prems have "extends X h (h'\<lparr>heap_cells := (heap_cells h')[a := Some c]\<rparr>)"
    by (intro extends_write) simp_all
  with Cons w show ?case by simp
qed simp

lemma readable_from_overwrite:
  "\<forall>w \<in> set ws. fst w < fst lo \<Longrightarrow> readable_from X lo (overwrite ws h) = readable_from X lo h"
  by (induction ws arbitrary: h) (auto simp: readable_from_write)

text \<open>
  Later writes of the imported packages, which may change all of their memory but the part from \<open>lo\<close> to
  \<open>hi\<close>: values that refer to nothing else mean what they meant.
\<close>

definition foreign_kept :: "('x, 'm, 'k) foreign_view \<Rightarrow> nat \<Rightarrow> nat \<Rightarrow> 'm \<Rightarrow> 'm \<Rightarrow> bool" where
  "foreign_kept X lo hi m m' \<longleftrightarrow>
     foreign_limit X m \<le> foreign_limit X m' \<and>
     (\<forall>x. foreign_refs X m x \<subseteq> {lo..<hi} \<longrightarrow>
        foreign_refs X m' x = foreign_refs X m x \<and> foreign_content X m' x = foreign_content X m x)"

lemma foreign_kept_refl [simp]: "foreign_kept X lo hi m m"
  by (simp add: foreign_kept_def)

lemma overwrite_foreign [simp]: "heap_foreign (overwrite ws h) = heap_foreign h"
  by (induction ws arbitrary: h) auto

lemma extends_foreign:
  assumes "extends X h h'" and "foreign_kept X 0 (foreign_limit X (heap_foreign h)) (heap_foreign h') m"
  shows "extends X h (h'\<lparr>heap_foreign := m\<rparr>)"
  using assms by (auto simp: extends_def foreign_kept_def lessThan_atLeast0)

lemma readable_foreign_kept:
  assumes "foreign_kept X (snd lo) (foreign_limit X (heap_foreign h)) (heap_foreign h) m"
  shows "readable_le (readable_from X lo h) (readable X (h\<lparr>heap_foreign := m\<rparr>))"
proof -
  let ?old = "readable_from X lo h" and ?new = "readable X (h\<lparr>heap_foreign := m\<rparr>)"
  have "snd ?new x = snd ?old x" if "snd ?old x \<noteq> None" for x
  proof -
    from that have "foreign_refs X (heap_foreign h) x \<subseteq> {snd lo..<foreign_limit X (heap_foreign h)}"
      by (simp add: readable_from_def split: if_splits)
    with assms show ?thesis unfolding foreign_kept_def readable_from_def by fastforce
  qed
  moreover have "fst ?new a = fst ?old a" if "fst ?old a \<noteq> None" for a
    using that by (simp add: readable_from_def split: if_splits)
  ultimately show ?thesis by (simp add: readable_le_def map_le_def dom_def)
qed

subsection \<open>The contract of a deep copy\<close>

text \<open>
  \<open>R \<mu> v t\<close>: what can be read through the struct \<open>v\<close> is the value \<open>t\<close>. A deep copy of a struct that
  reads as \<open>t\<close> returns, leaves the heap as it was but for new cells, and yields a struct that reads as
  \<open>t\<close> from the new part of the heap alone.
\<close>

locale deep_copy =
  fixes X :: "('x, 'm, 'k) foreign_view"
    and f :: "'v \<Rightarrow> ('c, 'm, 'v) alloc"
    and R :: "('c, 'x, 'k) readable \<Rightarrow> 'v \<Rightarrow> 't \<Rightarrow> bool"
  assumes mono: "R \<mu> v t \<Longrightarrow> readable_le \<mu> \<mu>' \<Longrightarrow> R \<mu>' v t"
    and copied: "R (readable X h) v t \<Longrightarrow>
      \<exists>v' h'. f v h = Some (Returned (v', h')) \<and> extends X h h' \<and> R (readable_from X (limits X h) h') v' t"
begin

text \<open>One copy in a sequence that began with the heap \<open>h0\<close>.\<close>

lemma step:
  assumes "R (readable X h0) v t" and "extends X h0 h"
  obtains v' h' where "f v h = Some (Returned (v', h'))" and "extends X h h'" and "extends X h0 h'"
    and "R (readable_from X (limits X h0) h') v' t"
proof -
  have "R (readable X h) v t" using assms by (blast intro: mono readable_extends)
  then obtain v' h' where copy: "f v h = Some (Returned (v', h'))" "extends X h h'"
    "R (readable_from X (limits X h) h') v' t" using copied by blast
  have "readable_le (readable_from X (limits X h) h') (readable_from X (limits X h0) h')"
    using extends_limits [OF assms(2)] by (intro readable_from_antimono) auto
  with copy assms(2) show thesis by (blast intro: that mono extends_trans)
qed

text \<open>The same as a rule for the sequence, with what is left of it in \<open>g\<close>.\<close>

lemma bind_copied:
  assumes "R (readable X h0) v t" and "extends X h0 h"
    and "\<And>v' h'. extends X h h' \<Longrightarrow> extends X h0 h' \<Longrightarrow>
      (\<And>h2. extends X h' h2 \<Longrightarrow> R (readable_from X (limits X h0) h2) v' t) \<Longrightarrow>
      \<exists>w h2. g v' h' = Some (Returned (w, h2)) \<and> extends X h0 h2 \<and> Q w h2"
  shows "\<exists>w h2. bind_alloc (f v) g h = Some (Returned (w, h2)) \<and> extends X h0 h2 \<and> Q w h2"
proof -
  obtain v' h' where copy: "f v h = Some (Returned (v', h'))" "extends X h h'" "extends X h0 h'"
    "R (readable_from X (limits X h0) h') v' t" by (rule step [OF assms(1,2)])
  moreover have "R (readable_from X (limits X h0) h2) v' t" if "extends X h' h2" for h2
    using copy(4) that by (blast intro: mono readable_extends)
  ultimately show ?thesis using assms(3) [of h' v'] by (simp add: bind_alloc_def)
qed

lemma kept: "R (readable_from X lo h) v t \<Longrightarrow> extends X h h' \<Longrightarrow> R (readable_from X lo h') v t"
  by (blast intro: mono readable_extends)

end

lemma ret_copied:
  "extends X h0 h \<Longrightarrow> Q x h \<Longrightarrow> \<exists>w h2. ret_alloc x h = Some (Returned (w, h2)) \<and> extends X h0 h2 \<and> Q w h2"
  by (simp add: ret_alloc_def)

text \<open>A struct without references is copied by assignment.\<close>

lemma deep_copy_values: "deep_copy X ret_alloc (\<lambda>\<mu> v t. P v t)"
  by unfold_locales (simp_all add: ret_alloc_def)

text \<open>What can be read through a slice and a pointer, with \<open>Q\<close> for the cells.\<close>

definition slice_reads ::
  "('c, 'x, 'k) readable \<Rightarrow> ('c \<Rightarrow> 't \<Rightarrow> bool) \<Rightarrow> cell_addr list option \<Rightarrow> 't list \<Rightarrow> bool" where
  "slice_reads \<mu> Q s ts =
     (case s of
        None \<Rightarrow> ts = []
      | Some as \<Rightarrow> list_all2 (\<lambda>a t. \<exists>c. fst \<mu> a = Some c \<and> Q c t) as ts)"

definition pointer_reads ::
  "('c, 'x, 'k) readable \<Rightarrow> ('c \<Rightarrow> 't \<Rightarrow> bool) \<Rightarrow> cell_addr option \<Rightarrow> 't option \<Rightarrow> bool" where
  "pointer_reads \<mu> Q = rel_option (\<lambda>a t. \<exists>c. fst \<mu> a = Some c \<and> Q c t)"

lemma slice_reads_cong [fundef_cong]:
  assumes "s = s'" and "ts = ts'" and "\<And>c t. t \<in> set ts' \<Longrightarrow> Q c t = Q' c t"
  shows "slice_reads \<mu> Q s ts = slice_reads \<mu> Q' s' ts'"
  using assms by (auto simp: slice_reads_def split: option.split elim!: list.rel_mono_strong)

lemma pointer_reads_cong [fundef_cong]:
  assumes "p = p'" and "t = t'" and "\<And>c u. u \<in> set_option t' \<Longrightarrow> Q c u = Q' c u"
  shows "pointer_reads \<mu> Q p t = pointer_reads \<mu> Q' p' t'"
  using assms by (auto simp: pointer_reads_def elim!: option.rel_mono_strong)

lemma slice_reads_mono:
  assumes "slice_reads \<mu> Q s ts" and "readable_le \<mu> \<mu>'" and "\<And>c t. t \<in> set ts \<Longrightarrow> Q c t \<Longrightarrow> Q' c t"
  shows "slice_reads \<mu>' Q' s ts"
  using assms readable_leD(1) [OF assms(2)]
  by (force simp: slice_reads_def list_all2_conv_all_nth split: option.splits)

lemma pointer_reads_mono:
  assumes "pointer_reads \<mu> Q p t" and "readable_le \<mu> \<mu>'" and "\<And>c u. u \<in> set_option t \<Longrightarrow> Q c u \<Longrightarrow> Q' c u"
  shows "pointer_reads \<mu>' Q' p t"
  using assms readable_leD(1) [OF assms(2)]
  by (force simp: pointer_reads_def option_rel_Some1 elim!: option.rel_cases)

text \<open>Copies of whole cells carry over to slices and pointers.\<close>

locale cell_copy = deep_copy X f R
  for X :: "('x, 'm, 'k) foreign_view"
    and f :: "'c \<Rightarrow> ('c, 'm, 'c) alloc"
    and R :: "('c, 'x, 'k) readable \<Rightarrow> 'c \<Rightarrow> 't \<Rightarrow> bool"
begin

lemma elements_copied:
  assumes "list_all2 (\<lambda>a t. \<exists>c. fst (readable X h0) a = Some c \<and> R (readable X h0) c t) as ts"
    and "length bs = length as" and "distinct bs" and "extends X h0 h"
    and "\<forall>b \<in> set bs. length (heap_cells h0) \<le> b \<and> b < lo" and "lo \<le> length (heap_cells h)"
  shows "\<exists>h'. copy_elements f (zip as bs) h = Some (Returned ((), h')) \<and> extends X h0 h' \<and>
    length (heap_cells h) \<le> length (heap_cells h') \<and>
    (\<forall>b < lo. b \<notin> set bs \<longrightarrow> heap_cells h' ! b = heap_cells h ! b) \<and>
    readable_le (readable_from X (lo, snd (limits X h0)) h) (readable_from X (lo, snd (limits X h0)) h') \<and>
    list_all2 (\<lambda>b t. \<exists>c. heap_cells h' ! b = Some c \<and> R (readable_from X (lo, snd (limits X h0)) h') c t) bs ts"
  using assms
proof (induction as arbitrary: ts bs h)
  case Nil
  then show ?case by (simp add: ret_alloc_def)
next
  case (Cons a as)
  from Cons.prems(1) obtain t ts' c where ts: "ts = t # ts'"
    and c: "fst (readable X h0) a = Some c" "R (readable X h0) c t"
    and rest: "list_all2 (\<lambda>a t. \<exists>c. fst (readable X h0) a = Some c \<and> R (readable X h0) c t) as ts'"
    by (auto simp: list_all2_Cons1)
  from Cons.prems(2) obtain b bs' where bs: "bs = b # bs'" by (cases bs) auto
  let ?lo = "(lo, snd (limits X h0))"
  from readable_leD(1) [OF readable_extends [OF Cons.prems(4)] c(1)]
  have read: "read_cell a h = Some (Returned (c, h))"
    by (auto simp: read_cell_def readable_from_def split: if_splits)
  from step [OF c(2) Cons.prems(4)] obtain c' h1 where copy: "f c h = Some (Returned (c', h1))"
    "extends X h h1" "extends X h0 h1" by blast
  have "R (readable X h) c t" using c(2) Cons.prems(4) by (rule kept)
  then have "R (readable_from X (limits X h) h1) c' t" using copied copy(1) by force
  moreover have "readable_le (readable_from X (limits X h) h1) (readable_from X ?lo h1)"
    using extends_limits [OF Cons.prems(4)] Cons.prems(6)
    by (intro readable_from_antimono) (auto simp: limits_def)
  ultimately have new: "R (readable_from X ?lo h1) c' t" by (rule mono)
  obtain cs where h1: "heap_cells h1 = heap_cells h @ cs" using copy(2) by (auto simp: extends_def)
  define h2 where "h2 = h1\<lparr>heap_cells := (heap_cells h1)[b := Some c']\<rparr>"
  have b: "length (heap_cells h0) \<le> b" "b < lo" "b \<notin> set bs'" "b < length (heap_cells h1)"
    using Cons.prems(3,5,6) bs h1 by auto
  have same: "readable_from X ?lo h2 = readable_from X ?lo h1"
    unfolding h2_def using b(2) by (simp add: readable_from_write)
  have "extends X h0 h2" unfolding h2_def using copy(3) b(1) by (rule extends_write)
  moreover have "lo \<le> length (heap_cells h2)" using Cons.prems(6) h1 by (simp add: h2_def)
  ultimately obtain h' where tail: "copy_elements f (zip as bs') h2 = Some (Returned ((), h'))"
    "extends X h0 h'" "length (heap_cells h2) \<le> length (heap_cells h')"
    "\<forall>b < lo. b \<notin> set bs' \<longrightarrow> heap_cells h' ! b = heap_cells h2 ! b"
    "readable_le (readable_from X ?lo h2) (readable_from X ?lo h')"
    "list_all2 (\<lambda>b t. \<exists>c. heap_cells h' ! b = Some c \<and> R (readable_from X ?lo h') c t) bs' ts'"
    using Cons.IH [OF rest, of bs' h2] Cons.prems(2,3,5) bs by auto
  have "copy_elements f (zip (a # as) bs) h = Some (Returned ((), h'))"
    using read copy(1) tail(1) bs by (simp add: bind_alloc_def write_cell_def h2_def)
  moreover have "\<forall>d < lo. d \<notin> set bs \<longrightarrow> heap_cells h' ! d = heap_cells h ! d"
    using tail(4) bs h1 Cons.prems(6) by (auto simp: h2_def nth_append)
  moreover have "readable_le (readable_from X ?lo h) (readable_from X ?lo h')"
    using readable_extends [OF copy(2), of ?lo] tail(5) unfolding same by (rule readable_le_trans)
  moreover have "heap_cells h' ! b = Some c'" using tail(4) b by (simp add: h2_def)
  moreover have "R (readable_from X ?lo h') c' t" using new tail(5) unfolding same by (rule mono)
  ultimately show ?case using tail(2,3,6) h1 bs ts by (auto simp: h2_def)
qed

text \<open>All elements of a slice, into cells that have just been allocated.\<close>

lemma elements_copied_to_new:
  assumes "list_all2 (\<lambda>a t. \<exists>c. fst (readable X h) a = Some c \<and> R (readable X h) c t) as ts"
  obtains bs h1 h' where "allocate (length as) h = Some (Returned (bs, h1))" and "length bs = length as"
    and "copy_elements f (zip as bs) h1 = Some (Returned ((), h'))" and "extends X h h'"
    and "list_all2 (\<lambda>b t. \<exists>c. fst (readable_from X (limits X h) h') b = Some c \<and>
           R (readable_from X (limits X h) h') c t) bs ts"
proof -
  define n where "n = length (heap_cells h)"
  define bs where "bs = [n..<n + length as]"
  define h1 where "h1 = h\<lparr>heap_cells := heap_cells h @ replicate (length as) None\<rparr>"
  let ?lo = "(n + length as, snd (limits X h))"
  have "extends X h h1" unfolding h1_def by (rule extends_allocate)
  from elements_copied [OF assms _ _ this, of bs "n + length as"] obtain h' where
    run: "copy_elements f (zip as bs) h1 = Some (Returned ((), h'))" "extends X h h'"
    and len: "length (heap_cells h1) \<le> length (heap_cells h')"
    and new: "list_all2 (\<lambda>b t. \<exists>c. heap_cells h' ! b = Some c \<and> R (readable_from X ?lo h') c t) bs ts"
    by (auto simp: bs_def h1_def n_def)
  have le: "readable_le (readable_from X ?lo h') (readable_from X (limits X h) h')"
    by (rule readable_from_antimono) (simp_all add: limits_def n_def)
  have "fst (readable_from X (limits X h) h') b = heap_cells h' ! b" if "b \<in> set bs" for b
    using that len by (simp add: readable_from_def limits_def bs_def n_def h1_def)
  then have "list_all2 (\<lambda>b t. \<exists>c. fst (readable_from X (limits X h) h') b = Some c \<and>
      R (readable_from X (limits X h) h') c t) bs ts"
    using new by (auto elim!: list.rel_mono_strong intro: mono [OF _ le])
  moreover have "allocate (length as) h = Some (Returned (bs, h1))" "length bs = length as"
    by (simp_all add: allocate_def bs_def h1_def n_def)
  ultimately show thesis using run that by blast
qed

end

sublocale cell_copy \<subseteq> slice: deep_copy X "copy_slice f" "\<lambda>\<mu>. slice_reads \<mu> (R \<mu>)"
proof
  show "slice_reads \<mu>' (R \<mu>') s ts" if "slice_reads \<mu> (R \<mu>) s ts" "readable_le \<mu> \<mu>'" for \<mu> \<mu>' s ts
    using that mono by (blast intro: slice_reads_mono)
  show "\<exists>s' h'. copy_slice f s h = Some (Returned (s', h')) \<and> extends X h h' \<and>
      slice_reads (readable_from X (limits X h) h') (R (readable_from X (limits X h) h')) s' ts"
    if "slice_reads (readable X h) (R (readable X h)) s ts" for h s ts
  proof (cases s)
    case None
    with that show ?thesis by (simp add: copy_slice_def ret_alloc_def slice_reads_def)
  next
    case (Some as)
    with that have "list_all2 (\<lambda>a t. \<exists>c. fst (readable X h) a = Some c \<and> R (readable X h) c t) as ts"
      by (simp add: slice_reads_def)
    then show ?thesis
      by (rule elements_copied_to_new)
         (auto simp: Some copy_slice_def slice_reads_def ret_alloc_def bind_alloc_def)
  qed
qed

sublocale cell_copy \<subseteq> pointer: deep_copy X "copy_pointer f" "\<lambda>\<mu>. pointer_reads \<mu> (R \<mu>)"
proof
  show "pointer_reads \<mu>' (R \<mu>') p t" if "pointer_reads \<mu> (R \<mu>) p t" "readable_le \<mu> \<mu>'" for \<mu> \<mu>' p t
    using that mono by (blast intro: pointer_reads_mono)
  show "\<exists>p' h'. copy_pointer f p h = Some (Returned (p', h')) \<and> extends X h h' \<and>
      pointer_reads (readable_from X (limits X h) h') (R (readable_from X (limits X h) h')) p' t"
    if "pointer_reads (readable X h) (R (readable X h)) p t" for h p t
  proof (cases p)
    case None
    with that show ?thesis by (simp add: copy_pointer_def ret_alloc_def pointer_reads_def)
  next
    case (Some a)
    with that obtain u where "t = Some u"
      and "list_all2 (\<lambda>a t. \<exists>c. fst (readable X h) a = Some c \<and> R (readable X h) c t) [a] [u]"
      by (auto simp: pointer_reads_def option_rel_Some1)
    from this(2) show ?thesis
      by (rule elements_copied_to_new)
         (auto simp: Some \<open>t = Some u\<close> copy_pointer_def pointer_reads_def ret_alloc_def bind_alloc_def
           length_Suc_conv)
  qed
qed

context cell_copy
begin

lemma deep_copy_slice: "deep_copy X (copy_slice f) (\<lambda>\<mu>. slice_reads \<mu> (R \<mu>))"
  by unfold_locales

lemma deep_copy_pointer: "deep_copy X (copy_pointer f) (\<lambda>\<mu>. pointer_reads \<mu> (R \<mu>))"
  by unfold_locales

text \<open>
  What the contract is for: the copy has an address of its own, and whatever is written later to the cells
  and the imported structs of one of the two, the other reads as before.
\<close>

lemma independent:
  assumes "pointer_reads (readable X h) (R (readable X h)) (Some a) (Some t)"
  shows "\<exists>b h'. copy_pointer f (Some a) h = Some (Returned (Some b, h')) \<and> length (heap_cells h) \<le> b \<and>
    (\<forall>ws m. (\<forall>w \<in> set ws. length (heap_cells h) \<le> fst w) \<and>
       foreign_kept X 0 (foreign_limit X (heap_foreign h)) (heap_foreign h') m \<longrightarrow>
       (let h2 = (overwrite ws h')\<lparr>heap_foreign := m\<rparr> in pointer_reads (readable X h2) (R (readable X h2)) (Some a) (Some t))) \<and>
    (\<forall>ws m. (\<forall>w \<in> set ws. fst w < length (heap_cells h)) \<and>
       foreign_kept X (foreign_limit X (heap_foreign h)) (foreign_limit X (heap_foreign h')) (heap_foreign h') m \<longrightarrow>
       (let h2 = (overwrite ws h')\<lparr>heap_foreign := m\<rparr> in pointer_reads (readable X h2) (R (readable X h2)) (Some b) (Some t)))"
proof -
  obtain p h' where copy: "copy_pointer f (Some a) h = Some (Returned (p, h'))" "extends X h h'"
    "pointer_reads (readable_from X (limits X h) h') (R (readable_from X (limits X h) h')) p (Some t)"
    using pointer.copied [OF assms] by blast
  then obtain b where p: "p = Some b" and b: "fst (readable_from X (limits X h) h') b \<noteq> None"
    by (auto simp: pointer_reads_def option_rel_Some2)
  have fresh: "length (heap_cells h) \<le> b"
    using b by (simp add: readable_from_def limits_def split: if_splits)
  have "pointer_reads (readable X h2) (R (readable X h2)) (Some a) (Some t)" if "extends X h h2" for h2
    using assms that by (rule pointer.kept)
  moreover have "extends X h ((overwrite ws h')\<lparr>heap_foreign := m\<rparr>)"
    if "\<forall>w \<in> set ws. length (heap_cells h) \<le> fst w"
      "foreign_kept X 0 (foreign_limit X (heap_foreign h)) (heap_foreign h') m" for ws m
    using extends_foreign [OF extends_overwrite [OF copy(2) that(1)]] that(2) by simp
  moreover have "pointer_reads (readable X h2) (R (readable X h2)) (Some b) (Some t)"
    if ws: "\<forall>w \<in> set ws. fst w < length (heap_cells h)"
      and m: "foreign_kept X (foreign_limit X (heap_foreign h)) (foreign_limit X (heap_foreign h')) (heap_foreign h') m"
      and h2: "h2 = (overwrite ws h')\<lparr>heap_foreign := m\<rparr>" for ws m h2
  proof -
    have "readable_from X (limits X h) (overwrite ws h') = readable_from X (limits X h) h'"
      using ws by (intro readable_from_overwrite) (simp add: limits_def)
    moreover have "readable_le (readable_from X (limits X h) (overwrite ws h')) (readable X h2)"
      unfolding h2 using m by (intro readable_foreign_kept) (simp add: limits_def)
    ultimately show ?thesis using copy(3) p by (metis pointer.mono)
  qed
  ultimately show ?thesis using copy(1) fresh by (auto simp: p Let_def)
qed

end

text \<open>A struct in a cell.\<close>

lemma cell_copy_on_cell:
  assumes "deep_copy X f R" and "\<And>v. is_v (wrap v)" and "\<And>v. the_v (wrap v) = v"
  shows "cell_copy X (on_cell is_v the_v wrap f) (\<lambda>\<mu> c t. \<exists>v. c = wrap v \<and> R \<mu> v t)"
proof (unfold_locales, goal_cases)
  case (1 \<mu> c t \<mu>')
  then show ?case using deep_copy.mono [OF assms(1)] by blast
next
  case (2 h c t)
  then obtain v where "c = wrap v" "R (readable X h) v t" by blast
  with deep_copy.copied [OF assms(1)] show ?case
    by (fastforce simp: on_cell_def assms(2,3) bind_alloc_def ret_alloc_def)
qed


end
