(* ===== verification/Deep_Copies.thy ===== *)
theory Deep_Copies
  imports Go_Heap Config_Types
begin

section \<open>Deep copies of the configuration\<close>

text \<open>
  \<open>api/dns/v1alpha1/zz_generated.deepcopy.go\<close>: \<open>DeepCopyInto\<close>, \<open>DeepCopy\<close> and \<open>DeepCopyObject\<close> of all
  types of the DNS API. A client that reads from a cache hands out deep copies, so what the controller
  does to an object must not show in the cache. Here the structs are as Go has them in memory, with
  nil slices and pointers into the heap; \<open>DeepCopyInto\<close> takes the struct behind \<open>in\<close> and gives the one
  that it leaves behind \<open>out\<close>. The \<open>DeepCopyInto\<close> of imported types is a parameter.
\<close>

subsection \<open>Structs in memory\<close>

record requirement_struct =
  rs_and :: "cell_addr list option"
  rs_or :: "cell_addr list option"
  rs_not :: "cell_addr option"
  rs_name :: string

record purpose_config_struct =
  ps_name :: string
  ps_selector :: "cell_addr option"
  ps_interval :: "cell_addr option"
  ps_values :: "cell_addr option"

record secret_copy_struct =
  cs_source :: string
  cs_target :: "cell_addr option"

record secrets_to_copy_struct =
  ss_platform :: "cell_addr list option"
  ss_target :: "cell_addr list option"

record source_struct =
  xs_chart :: string
  xs_helm :: "cell_addr option"
  xs_git :: "cell_addr option"
  xs_oci :: "cell_addr option"

record spec_struct =
  sp_source :: source_struct
  sp_secrets :: "cell_addr option"
  sp_interval :: "cell_addr option"
  sp_purposes :: "cell_addr list option"

record type_meta =
  tm_kind :: string
  tm_version :: string

record 'x config_struct =
  cf_type :: type_meta
  cf_meta :: 'x
  cf_spec :: spec_struct

record 'x config_list_struct =
  ls_type :: type_meta
  ls_meta :: 'x
  ls_items :: "cell_addr list option"

text \<open>
  What a pointer or a slice of the API can refer to. \<open>PurposeSelector\<close> is a struct with the requirement
  as its only, embedded field. \<open>Duration\<close> and \<open>LocalObjectReference\<close> hold no references.
\<close>

datatype 'x cell =
  is_Requirement: RequirementCell (the_Requirement: requirement_struct)
| is_Selector: SelectorCell (the_Selector: requirement_struct)
| is_PurposeConfig: PurposeConfigCell (the_PurposeConfig: purpose_config_struct)
| is_SecretCopy: SecretCopyCell (the_SecretCopy: secret_copy_struct)
| is_SecretsToCopy: SecretsToCopyCell (the_SecretsToCopy: secrets_to_copy_struct)
| is_Source: SourceCell (the_Source: source_struct)
| is_Spec: SpecCell (the_Spec: spec_struct)
| is_Config: ConfigCell (the_Config: "'x config_struct")
| is_ConfigList: ConfigListCell (the_ConfigList: "'x config_list_struct")
| is_Duration: DurationCell (the_Duration: duration)
| is_Reference: ReferenceCell (the_Reference: string)
| is_Foreign: ForeignCell (the_Foreign: 'x)

type_synonym ('x, 'm, 'a) copying = "('x cell, 'm, 'a) alloc"

subsection \<open>DeepCopyInto\<close>

text \<open>\<open>DeepCopyInto\<close> of an imported type.\<close>

type_synonym ('x, 'm) foreign_copy = "'x \<Rightarrow> 'm \<Rightarrow> 'x \<times> 'm"

definition foreign_copy_into :: "('x, 'm) foreign_copy \<Rightarrow> 'x \<Rightarrow> ('x, 'm, 'x) copying" where
  "foreign_copy_into F x h =
     (case F x (heap_foreign h) of (y, m) \<Rightarrow> Some (Returned (y, h\<lparr>heap_foreign := m\<rparr>)))"

text \<open>The first argument is fuel: one unit for each nested requirement.\<close>

primrec requirement_copy_into :: "nat \<Rightarrow> requirement_struct \<Rightarrow> ('x, 'm, requirement_struct) copying" where
  "requirement_copy_into 0 = (\<lambda>v h. None)"
| "requirement_copy_into (Suc n) =
     (\<lambda>out.
        let element = on_cell is_Requirement the_Requirement RequirementCell (requirement_copy_into n) in
        bind_alloc (copy_slice element (rs_and out)) (\<lambda>s. let out = out\<lparr>rs_and := s\<rparr> in
        bind_alloc (copy_slice element (rs_or out)) (\<lambda>s. let out = out\<lparr>rs_or := s\<rparr> in
        bind_alloc (copy_pointer element (rs_not out)) (\<lambda>p.
        ret_alloc (out\<lparr>rs_not := p\<rparr>)))))"

text \<open>\<open>PurposeSelector\<close>: the embedded requirement is copied in place.\<close>

definition selector_copy_into :: "nat \<Rightarrow> requirement_struct \<Rightarrow> ('x, 'm, requirement_struct) copying" where
  "selector_copy_into n out = requirement_copy_into n out"

definition secret_copy_copy_into :: "secret_copy_struct \<Rightarrow> ('x, 'm, secret_copy_struct) copying" where
  "secret_copy_copy_into out =
     bind_alloc (copy_pointer (on_cell is_Reference the_Reference ReferenceCell ret_alloc) (cs_target out)) (\<lambda>p.
     ret_alloc (out\<lparr>cs_target := p\<rparr>))"

definition secrets_to_copy_copy_into :: "secrets_to_copy_struct \<Rightarrow> ('x, 'm, secrets_to_copy_struct) copying" where
  "secrets_to_copy_copy_into out =
     (let element = on_cell is_SecretCopy the_SecretCopy SecretCopyCell secret_copy_copy_into in
      bind_alloc (copy_slice element (ss_platform out)) (\<lambda>s. let out = out\<lparr>ss_platform := s\<rparr> in
      bind_alloc (copy_slice element (ss_target out)) (\<lambda>s.
      ret_alloc (out\<lparr>ss_target := s\<rparr>))))"

definition source_copy_into :: "('x, 'm) foreign_copy \<Rightarrow> source_struct \<Rightarrow> ('x, 'm, source_struct) copying" where
  "source_copy_into F out =
     (let spec = on_cell is_Foreign the_Foreign ForeignCell (foreign_copy_into F) in
      bind_alloc (copy_pointer spec (xs_helm out)) (\<lambda>p. let out = out\<lparr>xs_helm := p\<rparr> in
      bind_alloc (copy_pointer spec (xs_git out)) (\<lambda>p. let out = out\<lparr>xs_git := p\<rparr> in
      bind_alloc (copy_pointer spec (xs_oci out)) (\<lambda>p.
      ret_alloc (out\<lparr>xs_oci := p\<rparr>)))))"

definition purpose_config_copy_into ::
  "('x, 'm) foreign_copy \<Rightarrow> nat \<Rightarrow> purpose_config_struct \<Rightarrow> ('x, 'm, purpose_config_struct) copying" where
  "purpose_config_copy_into F n out =
     bind_alloc (copy_pointer (on_cell is_Selector the_Selector SelectorCell (selector_copy_into n))
       (ps_selector out)) (\<lambda>p. let out = out\<lparr>ps_selector := p\<rparr> in
     bind_alloc (copy_pointer (on_cell is_Duration the_Duration DurationCell ret_alloc)
       (ps_interval out)) (\<lambda>p. let out = out\<lparr>ps_interval := p\<rparr> in
     bind_alloc (copy_pointer (on_cell is_Foreign the_Foreign ForeignCell (foreign_copy_into F))
       (ps_values out)) (\<lambda>p.
     ret_alloc (out\<lparr>ps_values := p\<rparr>))))"

definition spec_copy_into :: "('x, 'm) foreign_copy \<Rightarrow> nat \<Rightarrow> spec_struct \<Rightarrow> ('x, 'm, spec_struct) copying" where
  "spec_copy_into F n out =
     bind_alloc (source_copy_into F (sp_source out)) (\<lambda>s. let out = out\<lparr>sp_source := s\<rparr> in
     bind_alloc (copy_pointer (on_cell is_SecretsToCopy the_SecretsToCopy SecretsToCopyCell
       secrets_to_copy_copy_into) (sp_secrets out)) (\<lambda>p. let out = out\<lparr>sp_secrets := p\<rparr> in
     bind_alloc (copy_pointer (on_cell is_Duration the_Duration DurationCell ret_alloc)
       (sp_interval out)) (\<lambda>p. let out = out\<lparr>sp_interval := p\<rparr> in
     bind_alloc (copy_slice (on_cell is_PurposeConfig the_PurposeConfig PurposeConfigCell
       (purpose_config_copy_into F n)) (sp_purposes out)) (\<lambda>s.
     ret_alloc (out\<lparr>sp_purposes := s\<rparr>)))))"

definition config_copy_into ::
  "('x, 'm) foreign_copy \<Rightarrow> nat \<Rightarrow> 'x config_struct \<Rightarrow> ('x, 'm, 'x config_struct) copying" where
  "config_copy_into F n out =
     bind_alloc (foreign_copy_into F (cf_meta out)) (\<lambda>x. let out = out\<lparr>cf_meta := x\<rparr> in
     bind_alloc (spec_copy_into F n (cf_spec out)) (\<lambda>s.
     ret_alloc (out\<lparr>cf_spec := s\<rparr>)))"

definition config_list_copy_into ::
  "('x, 'm) foreign_copy \<Rightarrow> nat \<Rightarrow> 'x config_list_struct \<Rightarrow> ('x, 'm, 'x config_list_struct) copying" where
  "config_list_copy_into F n out =
     bind_alloc (foreign_copy_into F (ls_meta out)) (\<lambda>x. let out = out\<lparr>ls_meta := x\<rparr> in
     bind_alloc (copy_slice (on_cell is_Config the_Config ConfigCell (config_copy_into F n)) (ls_items out)) (\<lambda>s.
     ret_alloc (out\<lparr>ls_items := s\<rparr>)))"

subsection \<open>DeepCopy and DeepCopyObject\<close>

text \<open>
  \<open>DeepCopy\<close> of every type is the pattern for pointers: nil for nil, otherwise a new struct that
  \<open>DeepCopyInto\<close> fills.
\<close>

definition requirement_deep_copy :: "nat \<Rightarrow> cell_addr option \<Rightarrow> ('x, 'm, cell_addr option) copying" where
  "requirement_deep_copy n =
     copy_pointer (on_cell is_Requirement the_Requirement RequirementCell (requirement_copy_into n))"

definition selector_deep_copy :: "nat \<Rightarrow> cell_addr option \<Rightarrow> ('x, 'm, cell_addr option) copying" where
  "selector_deep_copy n =
     copy_pointer (on_cell is_Selector the_Selector SelectorCell (selector_copy_into n))"

definition secret_copy_deep_copy :: "cell_addr option \<Rightarrow> ('x, 'm, cell_addr option) copying" where
  "secret_copy_deep_copy =
     copy_pointer (on_cell is_SecretCopy the_SecretCopy SecretCopyCell secret_copy_copy_into)"

definition secrets_to_copy_deep_copy :: "cell_addr option \<Rightarrow> ('x, 'm, cell_addr option) copying" where
  "secrets_to_copy_deep_copy =
     copy_pointer (on_cell is_SecretsToCopy the_SecretsToCopy SecretsToCopyCell secrets_to_copy_copy_into)"

definition source_deep_copy :: "('x, 'm) foreign_copy \<Rightarrow> cell_addr option \<Rightarrow> ('x, 'm, cell_addr option) copying" where
  "source_deep_copy F = copy_pointer (on_cell is_Source the_Source SourceCell (source_copy_into F))"

definition purpose_config_deep_copy ::
  "('x, 'm) foreign_copy \<Rightarrow> nat \<Rightarrow> cell_addr option \<Rightarrow> ('x, 'm, cell_addr option) copying" where
  "purpose_config_deep_copy F n =
     copy_pointer (on_cell is_PurposeConfig the_PurposeConfig PurposeConfigCell (purpose_config_copy_into F n))"

definition spec_deep_copy ::
  "('x, 'm) foreign_copy \<Rightarrow> nat \<Rightarrow> cell_addr option \<Rightarrow> ('x, 'm, cell_addr option) copying" where
  "spec_deep_copy F n = copy_pointer (on_cell is_Spec the_Spec SpecCell (spec_copy_into F n))"

definition config_deep_copy ::
  "('x, 'm) foreign_copy \<Rightarrow> nat \<Rightarrow> cell_addr option \<Rightarrow> ('x, 'm, cell_addr option) copying" where
  "config_deep_copy F n = copy_pointer (on_cell is_Config the_Config ConfigCell (config_copy_into F n))"

definition config_list_deep_copy ::
  "('x, 'm) foreign_copy \<Rightarrow> nat \<Rightarrow> cell_addr option \<Rightarrow> ('x, 'm, cell_addr option) copying" where
  "config_list_deep_copy F n =
     copy_pointer (on_cell is_ConfigList the_ConfigList ConfigListCell (config_list_copy_into F n))"

text \<open>\<open>DeepCopyObject\<close> wraps the pointer in an interface; \<open>None\<close> is the nil interface.\<close>

definition config_deep_copy_object ::
  "('x, 'm) foreign_copy \<Rightarrow> nat \<Rightarrow> cell_addr option \<Rightarrow> ('x, 'm, cell_addr option) copying" where
  "config_deep_copy_object F n a =
     bind_alloc (config_deep_copy F n a) (\<lambda>c.
     case c of Some b \<Rightarrow> ret_alloc (Some b) | None \<Rightarrow> ret_alloc None)"

definition config_list_deep_copy_object ::
  "('x, 'm) foreign_copy \<Rightarrow> nat \<Rightarrow> cell_addr option \<Rightarrow> ('x, 'm, cell_addr option) copying" where
  "config_list_deep_copy_object F n a =
     bind_alloc (config_list_deep_copy F n a) (\<lambda>c.
     case c of Some b \<Rightarrow> ret_alloc (Some b) | None \<Rightarrow> ret_alloc None)"

subsection \<open>What the structs mean\<close>

text \<open>
  The values of \<open>Config_Types\<close>, read from memory. The content of an imported struct is text, or the
  metadata of an object.
\<close>

datatype content = TextContent string | MetaContent object_meta

type_synonym 'x config_memory = "('x cell, 'x, content) readable"

fun requirement_reads :: "'x config_memory \<Rightarrow> requirement_struct \<Rightarrow> requirement \<Rightarrow> bool" where
  "requirement_reads \<mu> v (Requirement ands ors nt name) \<longleftrightarrow>
     rs_name v = name \<and>
     slice_reads \<mu> (\<lambda>c t. \<exists>w. c = RequirementCell w \<and> requirement_reads \<mu> w t) (rs_and v) ands \<and>
     slice_reads \<mu> (\<lambda>c t. \<exists>w. c = RequirementCell w \<and> requirement_reads \<mu> w t) (rs_or v) ors \<and>
     pointer_reads \<mu> (\<lambda>c t. \<exists>w. c = RequirementCell w \<and> requirement_reads \<mu> w t) (rs_not v) nt"

definition text_reads :: "'x config_memory \<Rightarrow> 'x cell \<Rightarrow> string \<Rightarrow> bool" where
  "text_reads \<mu> c s \<longleftrightarrow> (\<exists>x. c = ForeignCell x \<and> snd \<mu> x = Some (TextContent s))"

definition secret_copy_reads :: "'x config_memory \<Rightarrow> secret_copy_struct \<Rightarrow> secret_copy \<Rightarrow> bool" where
  "secret_copy_reads \<mu> v t \<longleftrightarrow>
     cs_source v = copy_source t \<and>
     pointer_reads \<mu> (\<lambda>c s. c = ReferenceCell s) (cs_target v) (copy_target t)"

definition secrets_to_copy_reads :: "'x config_memory \<Rightarrow> secrets_to_copy_struct \<Rightarrow> secrets_to_copy \<Rightarrow> bool" where
  "secrets_to_copy_reads \<mu> v t \<longleftrightarrow>
     slice_reads \<mu> (\<lambda>c s. \<exists>w. c = SecretCopyCell w \<and> secret_copy_reads \<mu> w s) (ss_platform v) (to_platform_cluster t) \<and>
     slice_reads \<mu> (\<lambda>c s. \<exists>w. c = SecretCopyCell w \<and> secret_copy_reads \<mu> w s) (ss_target v) (to_target_cluster t)"

definition source_reads :: "'x config_memory \<Rightarrow> source_struct \<Rightarrow> external_dns_source \<Rightarrow> bool" where
  "source_reads \<mu> v t \<longleftrightarrow>
     xs_chart v = chart_name t \<and>
     pointer_reads \<mu> (text_reads \<mu>) (xs_helm v) (source_helm t) \<and>
     pointer_reads \<mu> (text_reads \<mu>) (xs_git v) (source_git t) \<and>
     pointer_reads \<mu> (text_reads \<mu>) (xs_oci v) (source_oci t)"

definition selector_reads :: "'x config_memory \<Rightarrow> requirement_struct \<Rightarrow> purpose_selector \<Rightarrow> bool" where
  "selector_reads \<mu> v t \<longleftrightarrow> requirement_reads \<mu> v (selector_requirement t)"

definition purpose_config_reads :: "'x config_memory \<Rightarrow> purpose_config_struct \<Rightarrow> purpose_config \<Rightarrow> bool" where
  "purpose_config_reads \<mu> v t \<longleftrightarrow>
     ps_name v = config_name t \<and>
     pointer_reads \<mu> (\<lambda>c s. \<exists>w. c = SelectorCell w \<and> selector_reads \<mu> w s) (ps_selector v) (config_selector t) \<and>
     pointer_reads \<mu> (\<lambda>c d. c = DurationCell d) (ps_interval v) (config_interval t) \<and>
     pointer_reads \<mu> (text_reads \<mu>) (ps_values v) (config_helm_values t)"

definition spec_reads :: "'x config_memory \<Rightarrow> spec_struct \<Rightarrow> service_config_spec \<Rightarrow> bool" where
  "spec_reads \<mu> v t \<longleftrightarrow>
     source_reads \<mu> (sp_source v) (spec_source t) \<and>
     pointer_reads \<mu> (\<lambda>c s. \<exists>w. c = SecretsToCopyCell w \<and> secrets_to_copy_reads \<mu> w s) (sp_secrets v) (spec_secrets t) \<and>
     pointer_reads \<mu> (\<lambda>c d. c = DurationCell d) (sp_interval v) (spec_interval t) \<and>
     slice_reads \<mu> (\<lambda>c s. \<exists>w. c = PurposeConfigCell w \<and> purpose_config_reads \<mu> w s) (sp_purposes v) (spec_purposes t)"

text \<open>A configuration with its type, and a list of them with the text of its own metadata.\<close>

definition config_reads :: "'x config_memory \<Rightarrow> 'x config_struct \<Rightarrow> type_meta \<times> service_config \<Rightarrow> bool" where
  "config_reads \<mu> v t \<longleftrightarrow>
     cf_type v = fst t \<and> snd \<mu> (cf_meta v) = Some (MetaContent (object_meta.truncate (snd t))) \<and>
     spec_reads \<mu> (cf_spec v) (service_spec (snd t))"

definition config_list_reads ::
  "'x config_memory \<Rightarrow> 'x config_list_struct \<Rightarrow> type_meta \<times> string \<times> (type_meta \<times> service_config) list \<Rightarrow> bool" where
  "config_list_reads \<mu> v t \<longleftrightarrow>
     ls_type v = fst t \<and> snd \<mu> (ls_meta v) = Some (TextContent (fst (snd t))) \<and>
     slice_reads \<mu> (\<lambda>c s. \<exists>w. c = ConfigCell w \<and> config_reads \<mu> w s) (ls_items v) (snd (snd t))"

subsection \<open>The copies keep the contract\<close>

lemma requirement_reads_mono:
  "requirement_reads \<mu> v t \<Longrightarrow> readable_le \<mu> \<mu>' \<Longrightarrow> requirement_reads \<mu>' v t"
proof (induction t arbitrary: v)
  case (Requirement ands ors nt name)
  have reads: "requirement_reads \<mu> w u \<Longrightarrow> requirement_reads \<mu>' w u"
    if "u \<in> set ands \<union> set ors \<union> set_option nt" for w u
    using that Requirement.IH Requirement.prems(2) by blast
  show ?case
    using Requirement.prems
    by (auto intro!: slice_reads_mono [OF _ Requirement.prems(2)] pointer_reads_mono [OF _ Requirement.prems(2)]
        intro: reads)
qed

text \<open>With fuel for its size, a requirement is copied.\<close>

lemma requirement_copied:
  "deep_copy X (requirement_copy_into n) (\<lambda>\<mu> v t. requirement_reads \<mu> v t \<and> size t < n)"
proof (induction n)
  case 0
  show ?case by unfold_locales simp_all
next
  case (Suc n)
  let ?R = "\<lambda>\<mu> c t. \<exists>w. c = RequirementCell w \<and> requirement_reads \<mu> w t \<and> size t < n"
  let ?el = "on_cell is_Requirement the_Requirement RequirementCell (requirement_copy_into n)"
  have "cell_copy X ?el ?R" by (rule cell_copy_on_cell [OF Suc]) simp_all
  note slice = cell_copy.deep_copy_slice [OF this] and pointer = cell_copy.deep_copy_pointer [OF this]
  show ?case
  proof (unfold_locales, goal_cases)
    case (1 \<mu> v t \<mu>')
    then show ?case by (blast intro: requirement_reads_mono)
  next
    case (2 h v t)
    obtain ands ors nt name where t: "t = Requirement ands ors nt name" by (cases t)
    let ?\<mu> = "readable X h"
    have small: "size u < n" if "u \<in> set ands \<union> set ors \<union> set_option nt" for u
      using 2 that t by (auto dest!: size_list_estimation' [where f = size, OF _ order_refl] split: option.splits)
    have reads: "slice_reads ?\<mu> (?R ?\<mu>) (rs_and v) ands" "slice_reads ?\<mu> (?R ?\<mu>) (rs_or v) ors"
      "pointer_reads ?\<mu> (?R ?\<mu>) (rs_not v) nt"
      using 2 t by (auto elim!: slice_reads_mono [OF _ readable_le_refl] pointer_reads_mono [OF _ readable_le_refl]
          intro: small)
    have "\<exists>w h2. requirement_copy_into (Suc n) v h = Some (Returned (w, h2)) \<and> extends X h h2 \<and>
        requirement_reads (readable_from X (limits X h) h2) w t"
      unfolding requirement_copy_into.simps Let_def
    proof (rule deep_copy.bind_copied [OF slice reads(1) extends_refl],
        rule deep_copy.bind_copied [OF slice, where t = ors], simp add: reads, assumption,
        rule deep_copy.bind_copied [OF pointer, where t = nt], simp add: reads, assumption, rule ret_copied, assumption)
      fix s1 s2 p h1 h2 h3
      assume ext: "extends X h1 h2" "extends X h2 h3"
        and "\<And>h2. extends X h1 h2 \<Longrightarrow> slice_reads (readable_from X (limits X h) h2) (?R (readable_from X (limits X h) h2)) s1 ands"
        and "\<And>h3. extends X h2 h3 \<Longrightarrow> slice_reads (readable_from X (limits X h) h3) (?R (readable_from X (limits X h) h3)) s2 ors"
        and "\<And>h4. extends X h3 h4 \<Longrightarrow> pointer_reads (readable_from X (limits X h) h4) (?R (readable_from X (limits X h) h4)) p nt"
      from this(3) [OF extends_trans [OF ext]] this(4) [OF ext(2)] this(5) [OF extends_refl]
      show "requirement_reads (readable_from X (limits X h) h3) (v\<lparr>rs_and := s1, rs_or := s2, rs_not := p\<rparr>) t"
        using 2 t
        by (auto elim!: slice_reads_mono [OF _ readable_le_refl] pointer_reads_mono [OF _ readable_le_refl])
    qed
    with 2 show ?case by blast
  qed
qed

text \<open>
  What an imported \<open>DeepCopyInto\<close> promises: the copy has the same content and refers only to memory
  that was not in use, and values of the memory in use stay as they are.
\<close>

definition foreign_law :: "('x, 'm) foreign_copy \<Rightarrow> ('x, 'm, content) foreign_view \<Rightarrow> bool" where
  "foreign_law F X \<longleftrightarrow>
     (\<forall>x m y m'. F x m = (y, m') \<and> foreign_refs X m x \<subseteq> {..<foreign_limit X m} \<longrightarrow>
        foreign_limit X m \<le> foreign_limit X m' \<and>
        foreign_refs X m' y \<subseteq> {foreign_limit X m..<foreign_limit X m'} \<and>
        foreign_content X m' y = foreign_content X m x \<and>
        (\<forall>z. foreign_refs X m z \<subseteq> {..<foreign_limit X m} \<longrightarrow>
           foreign_refs X m' z = foreign_refs X m z \<and> foreign_content X m' z = foreign_content X m z))"

lemma foreign_copied:
  assumes "foreign_law F X"
  shows "deep_copy X (foreign_copy_into F) (\<lambda>\<mu> x t. snd \<mu> x = Some (g t))"
proof (unfold_locales, goal_cases)
  case (1 \<mu> v t \<mu>')
  then show ?case by (rule readable_leD(2) [rotated])
next
  case (2 h x t)
  obtain y m' where copy: "F x (heap_foreign h) = (y, m')" by (cases "F x (heap_foreign h)")
  have "foreign_refs X (heap_foreign h) x \<subseteq> {..<foreign_limit X (heap_foreign h)}"
    and content: "foreign_content X (heap_foreign h) x = g t"
    using 2 by (auto simp: readable_from_def split: if_splits)
  with assms copy have new: "foreign_limit X (heap_foreign h) \<le> foreign_limit X m'"
    "foreign_refs X m' y \<subseteq> {foreign_limit X (heap_foreign h)..<foreign_limit X m'}"
    "foreign_content X m' y = g t"
    and old: "\<forall>z. foreign_refs X (heap_foreign h) z \<subseteq> {..<foreign_limit X (heap_foreign h)} \<longrightarrow>
      foreign_refs X m' z = foreign_refs X (heap_foreign h) z \<and>
      foreign_content X m' z = foreign_content X (heap_foreign h) z"
    unfolding foreign_law_def by metis+
  have "extends X h (h\<lparr>heap_foreign := m'\<rparr>)"
    using new(1) old by (simp add: extends_def)
  with new(2,3) copy show ?case
    by (simp add: foreign_copy_into_def readable_from_def limits_def)
qed

lemma text_cells:
  assumes "foreign_law F X"
  shows "cell_copy X (on_cell is_Foreign the_Foreign ForeignCell (foreign_copy_into F)) text_reads"
  unfolding text_reads_def [abs_def] by (rule cell_copy_on_cell [OF foreign_copied [OF assms]]) simp_all

interpretation reference_cell: cell_copy X "on_cell is_Reference the_Reference ReferenceCell ret_alloc"
  "\<lambda>\<mu> c s. c = ReferenceCell s" for X :: "('x, 'm, 'k) foreign_view"
  by unfold_locales (auto simp: on_cell_def bind_alloc_def ret_alloc_def)

interpretation duration_cell: cell_copy X "on_cell is_Duration the_Duration DurationCell ret_alloc"
  "\<lambda>\<mu> c d. c = DurationCell d" for X :: "('x, 'm, 'k) foreign_view"
  by unfold_locales (auto simp: on_cell_def bind_alloc_def ret_alloc_def)

interpretation secret_copy: deep_copy X secret_copy_copy_into secret_copy_reads
  for X :: "('x, 'm, content) foreign_view"
proof (unfold_locales, goal_cases)
  case (1 \<mu> v t \<mu>')
  then show ?case by (auto simp: secret_copy_reads_def intro: reference_cell.pointer.mono)
next
  case (2 h v t)
  show ?case
    unfolding secret_copy_copy_into_def
    by (rule reference_cell.pointer.bind_copied [where t = "copy_target t"], rule 2 [unfolded secret_copy_reads_def, THEN conjunct2],
        rule extends_refl, rule ret_copied, assumption)
       (use 2 in \<open>auto simp: secret_copy_reads_def\<close>)
qed

interpretation secret_copy_cell: cell_copy X "on_cell is_SecretCopy the_SecretCopy SecretCopyCell secret_copy_copy_into"
  "\<lambda>\<mu> c s. \<exists>w. c = SecretCopyCell w \<and> secret_copy_reads \<mu> w s" for X :: "('x, 'm, content) foreign_view"
  by (rule cell_copy_on_cell [OF secret_copy.deep_copy_axioms]) simp_all

interpretation secrets_to_copy: deep_copy X secrets_to_copy_copy_into secrets_to_copy_reads
  for X :: "('x, 'm, content) foreign_view"
proof (unfold_locales, goal_cases)
  case (1 \<mu> v t \<mu>')
  then show ?case by (auto simp: secrets_to_copy_reads_def intro: secret_copy_cell.slice.mono)
next
  case (2 h v t)
  show ?case
    unfolding secrets_to_copy_copy_into_def Let_def
    by (rule secret_copy_cell.slice.bind_copied [where t = "to_platform_cluster t"],
        use 2 in \<open>simp add: secrets_to_copy_reads_def\<close>, rule extends_refl,
        rule secret_copy_cell.slice.bind_copied [where t = "to_target_cluster t"],
        use 2 in \<open>simp add: secrets_to_copy_reads_def\<close>, assumption, rule ret_copied, assumption)
       (auto simp: secrets_to_copy_reads_def)
qed

interpretation secrets_cell: cell_copy X
  "on_cell is_SecretsToCopy the_SecretsToCopy SecretsToCopyCell secrets_to_copy_copy_into"
  "\<lambda>\<mu> c s. \<exists>w. c = SecretsToCopyCell w \<and> secrets_to_copy_reads \<mu> w s" for X :: "('x, 'm, content) foreign_view"
  by (rule cell_copy_on_cell [OF secrets_to_copy.deep_copy_axioms]) simp_all

lemma source_copied:
  assumes "foreign_law F X"
  shows "deep_copy X (source_copy_into F) source_reads"
proof (unfold_locales, goal_cases)
  case (1 \<mu> v t \<mu>')
  then show ?case
    by (auto simp: source_reads_def intro: deep_copy.mono [OF cell_copy.deep_copy_pointer [OF text_cells [OF assms]]])
next
  case (2 h v t)
  note imported = deep_copy.bind_copied [OF cell_copy.deep_copy_pointer [OF text_cells [OF assms]]]
  have reads: "pointer_reads (readable X h) (text_reads (readable X h)) (xs_helm v) (source_helm t)"
    "pointer_reads (readable X h) (text_reads (readable X h)) (xs_git v) (source_git t)"
    "pointer_reads (readable X h) (text_reads (readable X h)) (xs_oci v) (source_oci t)"
    and chart: "xs_chart v = chart_name t" using 2 by (simp_all add: source_reads_def)
  show ?case
    unfolding source_copy_into_def Let_def
    by (rule imported [OF reads(1) extends_refl], rule imported [where t = "source_git t"], simp add: reads, assumption,
        rule imported [where t = "source_oci t"], simp add: reads, assumption, rule ret_copied, assumption)
       (auto simp: source_reads_def chart intro: extends_trans)
qed

definition purpose_fits :: "nat \<Rightarrow> purpose_config \<Rightarrow> bool" where
  "purpose_fits n t \<longleftrightarrow> pred_option (\<lambda>sel. size (selector_requirement sel) < n) (config_selector t)"

definition selectors_fit :: "nat \<Rightarrow> service_config \<Rightarrow> bool" where
  "selectors_fit n t \<longleftrightarrow> list_all (purpose_fits n) (spec_purposes (service_spec t))"

interpretation selector_cell: cell_copy X "on_cell is_Selector the_Selector SelectorCell (selector_copy_into n)"
  "\<lambda>\<mu> c s. \<exists>w. c = SelectorCell w \<and> selector_reads \<mu> w s \<and> size (selector_requirement s) < n"
  for X :: "('x, 'm, content) foreign_view" and n
proof (rule cell_copy_on_cell)
  show "deep_copy X (selector_copy_into n) (\<lambda>\<mu> v t. selector_reads \<mu> v t \<and> size (selector_requirement t) < n)"
    unfolding selector_reads_def selector_copy_into_def
    by unfold_locales (blast intro: requirement_reads_mono, rule deep_copy.copied [OF requirement_copied])
qed simp_all

lemma purpose_config_copied:
  assumes "foreign_law F X"
  shows "deep_copy X (purpose_config_copy_into F n) (\<lambda>\<mu> v t. purpose_config_reads \<mu> v t \<and> purpose_fits n t)"
proof (unfold_locales, goal_cases)
  case (1 \<mu> v t \<mu>')
  have "selector_reads \<mu> w s \<Longrightarrow> selector_reads \<mu>' w s" for w s
    using 1(2) by (simp add: selector_reads_def requirement_reads_mono)
  moreover have "text_reads \<mu> c s \<Longrightarrow> text_reads \<mu>' c s" for c s
    using readable_leD(2) [OF 1(2)] by (auto simp: text_reads_def)
  ultimately show ?case
    using 1(1) by (auto simp: purpose_config_reads_def elim!: pointer_reads_mono [OF _ 1(2)])
next
  case (2 h v t)
  let ?R = "\<lambda>\<mu> c s. \<exists>w. c = SelectorCell w \<and> selector_reads \<mu> w s \<and> size (selector_requirement s) < n"
  note imported = deep_copy.bind_copied [OF cell_copy.deep_copy_pointer [OF text_cells [OF assms]]]
  have name: "ps_name v = config_name t" and fits: "purpose_fits n t"
    and reads: "pointer_reads (readable X h) (\<lambda>c d. c = DurationCell d) (ps_interval v) (config_interval t)"
      "pointer_reads (readable X h) (text_reads (readable X h)) (ps_values v) (config_helm_values t)"
    and selector: "pointer_reads (readable X h) (?R (readable X h)) (ps_selector v) (config_selector t)"
    using 2 by (auto simp: purpose_config_reads_def purpose_fits_def option.pred_set
        elim!: pointer_reads_mono [OF _ readable_le_refl])
  have weaken: "pointer_reads \<mu> (\<lambda>c s. \<exists>w. c = SelectorCell w \<and> selector_reads \<mu> w s) p s"
    if "pointer_reads \<mu> (?R \<mu>) p s" for \<mu> p s
    using that by (auto elim!: pointer_reads_mono [OF _ readable_le_refl])
  show ?case
    unfolding purpose_config_copy_into_def Let_def
    by (rule selector_cell.pointer.bind_copied [OF selector extends_refl],
        rule duration_cell.pointer.bind_copied [where t = "config_interval t"], simp add: reads, assumption,
        rule imported [where t = "config_helm_values t"], simp add: reads, assumption, rule ret_copied, assumption)
       (auto simp: purpose_config_reads_def name fits intro: extends_trans weaken)
qed

lemma spec_copied:
  assumes "foreign_law F X"
  shows "deep_copy X (spec_copy_into F n)
    (\<lambda>\<mu> v t. spec_reads \<mu> v t \<and> list_all (purpose_fits n) (spec_purposes t))"
proof -
  let ?R = "\<lambda>\<mu> c s. \<exists>w. c = PurposeConfigCell w \<and> purpose_config_reads \<mu> w s \<and> purpose_fits n s"
  have cells: "cell_copy X (on_cell is_PurposeConfig the_PurposeConfig PurposeConfigCell (purpose_config_copy_into F n)) ?R"
    by (rule cell_copy_on_cell [OF purpose_config_copied [OF assms]]) simp_all
  note purposes = cell_copy.deep_copy_slice [OF cells]
  have weaken: "slice_reads \<mu> (\<lambda>c s. \<exists>w. c = PurposeConfigCell w \<and> purpose_config_reads \<mu> w s) p s"
    if "slice_reads \<mu> (?R \<mu>) p s" for \<mu> p s
    using that by (auto elim!: slice_reads_mono [OF _ readable_le_refl])
  have strengthen: "slice_reads \<mu> (?R \<mu>) p s"
    if "slice_reads \<mu> (\<lambda>c s. \<exists>w. c = PurposeConfigCell w \<and> purpose_config_reads \<mu> w s) p s"
      "list_all (purpose_fits n) s" for \<mu> p s
    using that by (auto simp: list_all_iff elim!: slice_reads_mono [OF _ readable_le_refl])
  show ?thesis
  proof (unfold_locales, goal_cases)
    case (1 \<mu> v t \<mu>')
    then have "slice_reads \<mu>' (?R \<mu>') (sp_purposes v) (spec_purposes t)"
      by (intro deep_copy.mono [OF purposes strengthen]) (simp_all add: spec_reads_def)
    with 1 show ?case
      by (auto simp: spec_reads_def intro: duration_cell.pointer.mono secrets_cell.pointer.mono
          deep_copy.mono [OF source_copied [OF assms]] weaken)
  next
    case (2 h v t)
    have reads: "source_reads (readable X h) (sp_source v) (spec_source t)"
      "pointer_reads (readable X h) (\<lambda>c s. \<exists>w. c = SecretsToCopyCell w \<and> secrets_to_copy_reads (readable X h) w s)
         (sp_secrets v) (spec_secrets t)"
      "pointer_reads (readable X h) (\<lambda>c d. c = DurationCell d) (sp_interval v) (spec_interval t)"
      "slice_reads (readable X h) (?R (readable X h)) (sp_purposes v) (spec_purposes t)"
      using 2 by (auto simp: spec_reads_def intro: strengthen)
    show ?case
      unfolding spec_copy_into_def Let_def
      by (rule deep_copy.bind_copied [OF source_copied [OF assms] reads(1) extends_refl],
          rule secrets_cell.pointer.bind_copied [where t = "spec_secrets t"], simp add: reads, assumption,
          rule duration_cell.pointer.bind_copied [where t = "spec_interval t"], simp add: reads, assumption,
          rule deep_copy.bind_copied [OF purposes, where t = "spec_purposes t"], simp add: reads, assumption,
          rule ret_copied, assumption)
         (use 2 in \<open>auto simp: spec_reads_def intro: extends_trans extends_trans3 weaken\<close>)
  qed
qed

lemma config_copied:
  assumes "foreign_law F X"
  shows "deep_copy X (config_copy_into F n) (\<lambda>\<mu> v t. config_reads \<mu> v t \<and> selectors_fit n (snd t))"
proof (unfold_locales, goal_cases)
  case (1 \<mu> v t \<mu>')
  then show ?case
    using deep_copy.mono [OF spec_copied [OF assms]] readable_leD(2) [OF 1(2)]
    unfolding config_reads_def selectors_fit_def by blast
next
  case (2 h v t)
  have reads: "snd (readable X h) (cf_meta v) = Some (MetaContent (object_meta.truncate (snd t)))"
    "spec_reads (readable X h) (cf_spec v) (service_spec (snd t)) \<and>
     list_all (purpose_fits n) (spec_purposes (service_spec (snd t)))" and type: "cf_type v = fst t"
    using 2 by (simp_all add: config_reads_def selectors_fit_def)
  show ?case
    unfolding config_copy_into_def Let_def
    by (rule deep_copy.bind_copied [OF foreign_copied [OF assms, where g = "\<lambda>t. MetaContent (object_meta.truncate (snd t))"]
            reads(1) extends_refl],
        rule deep_copy.bind_copied [OF spec_copied [OF assms], where t = "service_spec (snd t)"], simp add: reads, assumption,
        rule ret_copied, assumption)
       (use 2 in \<open>auto simp: config_reads_def type\<close>)
qed

lemma config_cells:
  assumes "foreign_law F X"
  shows "cell_copy X (on_cell is_Config the_Config ConfigCell (config_copy_into F n))
    (\<lambda>\<mu> c t. \<exists>w. c = ConfigCell w \<and> config_reads \<mu> w t \<and> selectors_fit n (snd t))"
  by (rule cell_copy_on_cell [OF config_copied [OF assms]]) simp_all

lemma config_list_copied:
  assumes "foreign_law F X"
  shows "deep_copy X (config_list_copy_into F n)
    (\<lambda>\<mu> v t. config_list_reads \<mu> v t \<and> list_all (selectors_fit n \<circ> snd) (snd (snd t)))"
proof -
  let ?R = "\<lambda>\<mu> c t. \<exists>w. c = ConfigCell w \<and> config_reads \<mu> w t \<and> selectors_fit n (snd t)"
  note items = cell_copy.deep_copy_slice [OF config_cells [OF assms]]
  have iff: "config_list_reads \<mu> v t \<and> list_all (selectors_fit n \<circ> snd) (snd (snd t)) \<longleftrightarrow>
      ls_type v = fst t \<and> snd \<mu> (ls_meta v) = Some (TextContent (fst (snd t))) \<and>
      list_all (selectors_fit n \<circ> snd) (snd (snd t)) \<and> slice_reads \<mu> (?R \<mu>) (ls_items v) (snd (snd t))" for \<mu> v t
    unfolding config_list_reads_def
    by (auto simp: list_all_iff elim!: slice_reads_mono [OF _ readable_le_refl])
  show ?thesis
    unfolding iff
  proof (unfold_locales, goal_cases)
    case (1 \<mu> v t \<mu>')
    then show ?case using deep_copy.mono [OF items] readable_leD(2) [OF 1(2)] by blast
  next
    case (2 h v t)
    then have meta: "snd (readable X h) (ls_meta v) = Some (TextContent (fst (snd t)))" by blast
    show ?case
      unfolding config_list_copy_into_def Let_def
      by (rule deep_copy.bind_copied [OF foreign_copied [OF assms, where g = "\<lambda>t. TextContent (fst (snd t))"]
              meta extends_refl],
          rule deep_copy.bind_copied [OF items, where t = "snd (snd t)"], use 2 in simp, assumption,
          rule ret_copied, assumption)
         (use 2 in auto)
  qed
qed

subsection \<open>Selectors in memory\<close>

text \<open>
  The requirements of a heap as \<open>Purpose_Selector\<close> has them, for \<open>Matches\<close> on a selector in memory. The
  embedded requirement of a selector is at the selector's own address.
\<close>

definition node_of :: "requirement_struct \<Rightarrow> req_node" where
  "node_of v =
     \<lparr>node_and = (case rs_and v of None \<Rightarrow> [] | Some as \<Rightarrow> as),
      node_or = (case rs_or v of None \<Rightarrow> [] | Some as \<Rightarrow> as),
      node_not = rs_not v, node_name = rs_name v\<rparr>"

definition selector_heap :: "('x cell, 'm) go_heap \<Rightarrow> req_heap" where
  "selector_heap h =
     map (\<lambda>c. case c of
            Some (RequirementCell v) \<Rightarrow> node_of v
          | Some (SelectorCell v) \<Rightarrow> node_of v
          | _ \<Rightarrow> \<lparr>node_and = [], node_or = [], node_not = None, node_name = []\<rparr>) (heap_cells h)"

lemma reads_cell:
  "fst (readable_from X lo h) a = Some c \<longleftrightarrow> fst lo \<le> a \<and> a < length (heap_cells h) \<and> heap_cells h ! a = Some c"
  by (auto simp: readable_from_def)

lemma reads_represents:
  assumes "requirement_reads (readable X h) v t" and "a < length (heap_cells h)"
    and "heap_cells h ! a \<in> {Some (RequirementCell v), Some (SelectorCell v)}"
  shows "represents (selector_heap h) a t"
  using assms
proof (induction t arbitrary: v a)
  case (Requirement ands ors nt name)
  have node: "selector_heap h ! a = node_of v" using Requirement.prems by (auto simp: selector_heap_def)
  have child: "represents (selector_heap h) b u"
    if "u \<in> set ands \<union> set ors \<union> set_option nt" "fst (readable X h) b = Some (RequirementCell w)"
      "requirement_reads (readable X h) w u" for b w u
    using that Requirement.IH unfolding reads_cell by blast
  have slice: "list_all2 (represents (selector_heap h)) (case s of None \<Rightarrow> [] | Some as \<Rightarrow> as) us"
    if "slice_reads (readable X h) (\<lambda>c t. \<exists>w. c = RequirementCell w \<and> requirement_reads (readable X h) w t) s us"
      "set us \<subseteq> set ands \<union> set ors" for s us
    using that by (auto simp: slice_reads_def split: option.splits elim!: list.rel_mono_strong intro!: child)
  have "rel_option (represents (selector_heap h)) (rs_not v) nt"
    using Requirement.prems(1)
    by (auto simp: pointer_reads_def elim!: option.rel_mono_strong intro!: child)
  with node slice Requirement.prems show ?case by (simp add: node_of_def selector_heap_def)
qed

subsection \<open>Properties\<close>

text \<open>What a pointer to a configuration shows.\<close>

definition config_at :: "('x, 'm, content) foreign_view \<Rightarrow> ('x cell, 'm) go_heap \<Rightarrow> cell_addr \<Rightarrow> type_meta \<Rightarrow> service_config \<Rightarrow> bool" where
  "config_at X h a tm t \<longleftrightarrow>
     (\<exists>w. fst (readable X h) a = Some (ConfigCell w) \<and> config_reads (readable X h) w (tm, t))"

text \<open>
  C19. A deep copy of a configuration ends, shows the same configuration, and shares no memory with the
  original, neither its own cells nor the memory behind its imported structs (object metadata, the specs
  of the sources, Helm values). Whatever is written later to new cells, and whatever happens to the
  imported structs outside the memory that was in use before, the original shows the same; and whatever is
  written to the cells there were, and happens to the imported structs outside the memory that the copy
  took into use, the copy shows the same.
\<close>

theorem config_copies_are_independent:
  assumes "foreign_law F X" and "config_at X h a tm t" and "selectors_fit n t"
  shows "\<exists>b h'. config_deep_copy_object F n (Some a) h = Some (Returned (Some b, h')) \<and>
    config_at X h' a tm t \<and> config_at X h' b tm t \<and>
    (\<forall>ws m. (\<forall>w \<in> set ws. length (heap_cells h) \<le> fst w) \<and>
       foreign_kept X 0 (foreign_limit X (heap_foreign h)) (heap_foreign h') m \<longrightarrow>
       config_at X ((overwrite ws h')\<lparr>heap_foreign := m\<rparr>) a tm t) \<and>
    (\<forall>ws m. (\<forall>w \<in> set ws. fst w < length (heap_cells h)) \<and>
       foreign_kept X (foreign_limit X (heap_foreign h)) (foreign_limit X (heap_foreign h')) (heap_foreign h') m \<longrightarrow>
       config_at X ((overwrite ws h')\<lparr>heap_foreign := m\<rparr>) b tm t)"
proof -
  let ?R = "\<lambda>\<mu> c t. \<exists>w. c = ConfigCell w \<and> config_reads \<mu> w t \<and> selectors_fit n (snd t)"
  have at: "config_at X h a tm t \<longleftrightarrow> pointer_reads (readable X h) (?R (readable X h)) (Some a) (Some (tm, t))" for h a
    using assms(3) by (auto simp: config_at_def pointer_reads_def)
  from cell_copy.independent [OF config_cells [OF assms(1)], OF assms(2) [unfolded at]]
  obtain b h' where copy: "config_deep_copy F n (Some a) h = Some (Returned (Some b, h'))"
    and keep: "\<forall>ws m. (\<forall>w \<in> set ws. length (heap_cells h) \<le> fst w) \<and>
        foreign_kept X 0 (foreign_limit X (heap_foreign h)) (heap_foreign h') m \<longrightarrow>
        config_at X ((overwrite ws h')\<lparr>heap_foreign := m\<rparr>) a tm t"
      "\<forall>ws m. (\<forall>w \<in> set ws. fst w < length (heap_cells h)) \<and>
        foreign_kept X (foreign_limit X (heap_foreign h)) (foreign_limit X (heap_foreign h')) (heap_foreign h') m \<longrightarrow>
        config_at X ((overwrite ws h')\<lparr>heap_foreign := m\<rparr>) b tm t"
    unfolding at config_deep_copy_def Let_def by blast
  from keep [THEN spec, of "[]", THEN spec, of "heap_foreign h'"] keep copy show ?thesis
    by (simp add: config_deep_copy_object_def bind_alloc_def ret_alloc_def)
qed

text \<open>
  C20. A copied selector gives the verdicts of the original, evaluated in memory with the map of
  requirements on the path.
\<close>

theorem copied_selector_matches_alike:
  assumes "fst (readable X h) a = Some (SelectorCell v)" and "selector_reads (readable X h) v sel"
    and "size (selector_requirement sel) < n"
  shows "\<exists>b h'. selector_deep_copy n (Some a) h = Some (Returned (Some b, h')) \<and> b \<noteq> a \<and>
    heap_selector_matches (selector_heap h') (Some b) purposes = heap_selector_matches (selector_heap h) (Some a) purposes"
proof -
  let ?R = "\<lambda>\<mu> c s. \<exists>w. c = SelectorCell w \<and> selector_reads \<mu> w s \<and> size (selector_requirement s) < n"
  have matches: "heap_selector_matches (selector_heap h) (Some a) purposes =
      Some (Returned (selector_matches (Some sel) purposes))"
    if "pointer_reads (readable X h) (?R (readable X h)) (Some a) (Some sel)" for h a
  proof -
    from that obtain w where "fst (readable X h) a = Some (SelectorCell w)" "selector_reads (readable X h) w sel"
      by (auto simp: pointer_reads_def)
    then have "represents (selector_heap h) a (selector_requirement sel)"
      by (intro reads_represents [of X h w]) (simp_all add: selector_reads_def reads_cell)
    then show ?thesis by (rule heap_selector_refines)
  qed
  have at: "pointer_reads (readable X h) (?R (readable X h)) (Some a) (Some sel)"
    using assms by (simp add: pointer_reads_def)
  from selector_cell.independent [OF this] obtain b h' where
    copy: "selector_deep_copy n (Some a) h = Some (Returned (Some b, h'))" "length (heap_cells h) \<le> b"
    and keep: "\<forall>ws m. (\<forall>w \<in> set ws. fst w < length (heap_cells h)) \<and>
        foreign_kept X (foreign_limit X (heap_foreign h)) (foreign_limit X (heap_foreign h')) (heap_foreign h') m \<longrightarrow>
      (let h2 = (overwrite ws h')\<lparr>heap_foreign := m\<rparr> in
       pointer_reads (readable X h2) (?R (readable X h2)) (Some b) (Some sel))"
    unfolding selector_deep_copy_def by blast
  have "a < length (heap_cells h)" using assms(1) by (simp add: reads_cell)
  with copy keep [THEN spec, of "[]", THEN spec, of "heap_foreign h'"] show ?thesis
    by (auto simp: matches [OF at] matches)
qed

text \<open>
  C23. For a requirement that negates itself the two disagree: its evaluation reports the circle by a
  panic, but copying it never returns, whatever the fuel.
\<close>

theorem circular_requirement_is_never_copied:
  assumes "a < length (heap_cells h)" and "heap_cells h ! a = Some (RequirementCell v)"
    and "v = \<lparr>rs_and = None, rs_or = None, rs_not = Some a, rs_name = []\<rparr>"
  shows "requirement_deep_copy n (Some a) h = None \<and>
    heap_selector_matches (selector_heap h) (Some a) purposes = Some (Panicked CircularReference)"
proof
  have into: "requirement_copy_into n v h = None"
    if "a < length (heap_cells h)" "heap_cells h ! a = Some (RequirementCell v)" for n h
    using that
  proof (induction n arbitrary: h)
    case (Suc n)
    let ?h = "h\<lparr>heap_cells := heap_cells h @ [None]\<rparr>"
    have "a < length (heap_cells ?h)" "heap_cells ?h ! a = Some (RequirementCell v)"
      using Suc.prems by (simp_all add: nth_append)
    with Suc.IH have "requirement_copy_into n v ?h = None" by blast
    with Suc.prems show ?case
      by (simp add: assms(3) copy_slice_def copy_pointer_def bind_alloc_def ret_alloc_def allocate_def
          read_cell_def nth_append on_cell_def)
  qed simp
  let ?h = "h\<lparr>heap_cells := heap_cells h @ [None]\<rparr>"
  have "requirement_copy_into n v ?h = None"
    using assms(1,2) by (intro into) (simp_all add: nth_append)
  with assms(1,2) show "requirement_deep_copy n (Some a) h = None"
    by (simp add: requirement_deep_copy_def copy_pointer_def bind_alloc_def allocate_def read_cell_def nth_append
        on_cell_def)
  obtain k where k: "length (selector_heap h) = Suc k"
    using assms(1) by (cases "heap_cells h") (simp_all add: selector_heap_def)
  have "selector_heap h ! a = \<lparr>node_and = [], node_or = [], node_not = Some a, node_name = []\<rparr>"
    using assms by (simp add: selector_heap_def node_of_def)
  moreover have "a < length (selector_heap h)" using assms(1) by (simp add: selector_heap_def)
  ultimately show "heap_selector_matches (selector_heap h) (Some a) purposes = Some (Panicked CircularReference)"
    using k by (simp add: heap_selector_matches_def)
qed

end
