(* ===== verification/Program.thy ===== *)
theory Program
  imports Startup Controller
begin

section \<open>The program\<close>

text \<open>
  What holds the parts together: \<open>NewClusterReconciler\<close> of \<open>controller.go\<close>, which makes the reconciler
  from the options of the run command, the tree of commands of \<open>app.go\<close>, \<open>init.go\<close> and \<open>run.go\<close>, and
  \<open>main.go\<close>. The access library's builder and the command line library are parameters.
\<close>

subsection \<open>NewClusterReconciler\<close>

text \<open>
  The builder functions of \<open>accesslib\<close> on a builder \<open>'b\<close>, a registration \<open>'g\<close> and a generator \<open>'n\<close>.
  \<open>al_interface\<close> is what the controller uses of the reconciler that is built, for one cluster id.
\<close>

record role_ref =
  role_kind :: string
  role_name :: string

record ('w, 'b, 'g, 'n) access_lib =
  al_new :: "'w client \<Rightarrow> string \<Rightarrow> 'b"
  al_with_managed_labels :: "(string \<Rightarrow> namespaced_name \<Rightarrow> string \<times> string \<times> (string \<times> string) list) \<Rightarrow> 'b \<Rightarrow> 'b"
  al_register :: "'g \<Rightarrow> 'b \<Rightarrow> 'b"
  al_existing_cluster :: "string \<Rightarrow> string \<Rightarrow> 'n \<Rightarrow> 'g"
  al_with_token_access :: "role_ref list \<Rightarrow> 'g \<Rightarrow> 'g"
  al_with_namespace_generator :: "'n \<Rightarrow> 'g \<Rightarrow> 'g"
  al_build :: "'g \<Rightarrow> 'g"
  al_identity_reference :: 'n
  al_request_namespace :: 'n
  al_interface :: "'b \<Rightarrow> string \<Rightarrow> 'w access_api"

definition cluster_id :: string where
  "cluster_id = ''cluster''"

text \<open>The labels of the objects that the access library creates for a request.\<close>

definition access_labels :: "string \<Rightarrow> string \<Rightarrow> namespaced_name \<Rightarrow> string \<times> string \<times> (string \<times> string) list" where
  "access_labels provider = (\<lambda>controller req. (provider @ ''.'' @ controller, nn_name req, []))"

definition cluster_registration :: "('w, 'b, 'g, 'n) access_lib \<Rightarrow> 'g" where
  "cluster_registration A =
     al_build A (al_with_namespace_generator A (al_request_namespace A)
       (al_with_token_access A [\<lparr>role_kind = ''ClusterRole'', role_name = ''cluster-admin''\<rparr>]
         (al_existing_cluster A cluster_id [] (al_identity_reference A))))"

definition new_cluster_reconciler ::
  "('w, 'b, 'g, 'n) access_lib \<Rightarrow> 'w client \<Rightarrow> (event \<Rightarrow> 'w \<Rightarrow> 'w) option \<Rightarrow> string \<Rightarrow> string \<Rightarrow> string \<Rightarrow>
   'w reconciler \<times> registry" where
  "new_cluster_reconciler A cl recorder name ns env =
     (\<lparr>platform = cl, event_recorder = recorder, provider_name = name, provider_namespace = ns,
       environment = env,
       access_reconciler = al_interface A
         (al_register A (cluster_registration A)
           (al_with_managed_labels A (access_labels name) (al_new A cl controller_name))) cluster_id\<rparr>,
      initial_known_clusters)"

text \<open>
  The access library labels its objects as it is told: with the pair that the function gives for the
  name of the controller it was made for, under the two label keys of openMCP.
\<close>

definition access_label_law ::
  "('w, 'b, 'g, 'n) access_lib \<Rightarrow> 'w lib \<Rightarrow> ('w access_api \<Rightarrow> namespaced_name \<Rightarrow> labels) \<Rightarrow> bool" where
  "access_label_law A L labels_of \<longleftrightarrow>
     (\<forall>g f cl name cid req. labels_of
        (al_interface A (al_register A g (al_with_managed_labels A f (al_new A cl name))) cid) req =
        (case f name req of (by, purpose, extra) \<Rightarrow>
           map_of ([(lib_managed_by_label L, by), (lib_managed_purpose_label L, purpose)] @ extra)))"

subsection \<open>The tree of commands\<close>

record command_spec =
  command_use :: string
  command_flags :: "(string \<times> option_value) list"

record command_tree =
  tree_use :: string
  persistent_flags :: "(string \<times> option_value) list"
  subcommands :: "command_spec list"

text \<open>
  \<open>cobra\<close> and \<open>fips\<close>: the flags that the libraries for logging and clusters add, the parser, which
  gives an error, the wish for help, or a subcommand with its flags, and the check of \<open>fips.Verify\<close>.
\<close>

record 'w process_lib =
  library_flags :: "(string \<times> option_value) list"
  parse_command :: "command_tree \<Rightarrow> string list \<Rightarrow> string + (string \<times> given_flags) option"
  fips_verify :: "('w, unit) comp"

definition init_spec :: command_spec where
  "init_spec = \<lparr>command_use = ''init'', command_flags = []\<rparr>"

definition run_spec :: command_spec where
  "run_spec = \<lparr>command_use = ''run'', command_flags = run_flags\<rparr>"

definition platform_service_dns_command :: "'w process_lib \<Rightarrow> command_tree" where
  "platform_service_dns_command P =
     \<lparr>tree_use = ''platform-service-dns'', persistent_flags = library_flags P @ shared_flags,
      subcommands = [init_spec, run_spec]\<rparr>"

text \<open>\<open>Execute\<close> returns an error of the command line; the commands themselves panic.\<close>

datatype execution = Executed "string option" | Panicking command_end

definition execution_of :: "command_end \<Rightarrow> execution" where
  "execution_of ce = (if ce = CommandDone then Executed None else Panicking ce)"

definition execute_command ::
  "'w process_lib \<Rightarrow> 'w app_lib \<Rightarrow> 's scheme_lib \<Rightarrow> ('s, 'w) startup_lib \<Rightarrow> string list \<Rightarrow> 'w process \<Rightarrow>
   execution \<times> 'w process" where
  "execute_command P A S T args p =
     (case parse_command P (platform_service_dns_command P) args of
        Inl e \<Rightarrow> (Executed (Some e), p)
      | Inr None \<Rightarrow> (Executed None, p)
      | Inr (Some (name, given)) \<Rightarrow>
          if name = command_use init_spec then
            apfst execution_of (init_command A S T (raw_shared_of given) p)
          else
            apfst execution_of
              (run_command A S T (new_run_options (raw_shared_of given) (raw_run_of given)) p))"

subsection \<open>main\<close>

datatype process_end = ExitOk | ExitFailure | Aborted command_end

definition main_program ::
  "'w process_lib \<Rightarrow> 'w app_lib \<Rightarrow> 's scheme_lib \<Rightarrow> ('s, 'w) startup_lib \<Rightarrow> string list \<Rightarrow> 'w process \<Rightarrow>
   process_end \<times> 'w process" where
  "main_program P A S T args p =
     (case fips_verify P (app_world (app_state p)) of
        (Panicked pn, w) \<Rightarrow> (Aborted (CommandPanicked pn), p\<lparr>app_state := (app_state p)\<lparr>app_world := w\<rparr>\<rparr>)
      | (Returned _, w) \<Rightarrow>
          (case execute_command P A S T args (p\<lparr>app_state := (app_state p)\<lparr>app_world := w\<rparr>\<rparr>) of
             (Panicking ce, p1) \<Rightarrow> (Aborted ce, p1)
           | (Executed (Some e), p1) \<Rightarrow> (ExitFailure, say (OutText e) p1)
           | (Executed None, p1) \<Rightarrow> (ExitOk, p1)))"

lemma app_state_say [simp]: "app_state (say out p) = app_state p"
  by (simp add: say_def)

lemma app_state_print [simp]:
  "app_state (print_raw_run_options A o' p) = app_state p"
  "app_state (print_completed_run_options A o' p) = app_state p"
  by (simp_all add: print_raw_run_options_def print_completed_run_options_def raw_frame_def completed_frame_def
      print_raw_run_def print_raw_shared_def print_completed_run_def print_completed_shared_def print_yaml_def
      split: sum.split)

lemma finish_command_done:
  "fst (finish_command run p) = CommandDone \<longleftrightarrow> fst (run (app_world (app_state p))) = Returned None"
  by (auto simp: finish_command_def split: prod.splits outcome.splits option.splits)

lemma run_command_done:
  "fst (run_command A S T o0 p) = CommandDone \<longleftrightarrow>
     (\<exists>o' st. complete_run A o0 (app_state p) = ((None, o'), st) \<and>
        (raw_dry_run (shared_raw o0) \<or> fst (run_manager S T o' (app_world st)) = Returned None))"
proof -
  obtain err o' st where complete: "complete_run A o0 (app_state p) = ((err, o'), st)"
    by (metis prod.collapse)
  have "fst (run_command A S T o0 p) = CommandDone \<longleftrightarrow>
      err = None \<and> (raw_dry_run (shared_raw o0) \<or> fst (run_manager S T o' (app_world st)) = Returned None)"
    by (cases err) (simp_all add: run_command_def Let_def complete finish_command_done complete_run_shared_raw [OF complete])
  with complete show ?thesis by simp
qed

subsection \<open>Properties\<close>

text \<open>
  C39. What the program's exit status says about \<open>run\<close>: it is success exactly if the options could be
  completed and, unless it was a dry run, the manager was started and ended without error. A failure
  status only ever stands for a wrong command line; a command that fails aborts.
\<close>

theorem run_exit_status:
  assumes "parse_command P (platform_service_dns_command P) args = Inr (Some (''run'', given))"
    and "fips_verify P (app_world (app_state p)) = (Returned (), w)"
  defines "o0 \<equiv> new_run_options (raw_shared_of given) (raw_run_of given)"
  shows "fst (main_program P A S T args p) \<noteq> ExitFailure \<and>
    (fst (main_program P A S T args p) = ExitOk \<longleftrightarrow>
       (\<exists>o' st. complete_run A o0 ((app_state p)\<lparr>app_world := w\<rparr>) = ((None, o'), st) \<and>
          (raw_dry_run (raw_shared_of given) \<or> fst (run_manager S T o' (app_world st)) = Returned None)))"
proof -
  let ?p = "p\<lparr>app_state := (app_state p)\<lparr>app_world := w\<rparr>\<rparr>"
  obtain ce p1 where run: "run_command A S T o0 ?p = (ce, p1)" by (cases "run_command A S T o0 ?p")
  have main: "fst (main_program P A S T args p) = (if ce = CommandDone then ExitOk else Aborted ce)"
    using assms(1,2) run
    by (simp add: main_program_def execute_command_def init_spec_def o0_def [symmetric] execution_of_def)
  have "shared_raw o0 = raw_shared_of given" by (simp add: o0_def new_run_options_def)
  with run_command_done [of A S T o0 ?p] main run show ?thesis by simp
qed

text \<open>
  C40. The objects that the access library creates for a Cluster carry the labels that the controller
  expects on everything that belongs to the Cluster.
\<close>

theorem access_objects_carry_expected_labels:
  assumes "access_label_law A L labels_of" and "lib_managed_by_label L \<noteq> lib_managed_purpose_label L"
    and "new_cluster_reconciler A cl recorder name ns env = (r, known)"
  shows "has_labels (expected_labels L r (nn_name req)) (labels_of (access_reconciler r) req)"
proof -
  have "labels_of (access_reconciler r) req =
      map_of [(lib_managed_by_label L, name @ ''.'' @ controller_name), (lib_managed_purpose_label L, nn_name req)]"
    using assms(1,3) unfolding access_label_law_def
    by (auto simp: new_cluster_reconciler_def access_labels_def)
  with assms(2,3) show ?thesis
    by (auto simp: new_cluster_reconciler_def has_labels_def expected_labels_def)
qed

end
