(* ===== verification/Program_Witnesses.thy ===== *)
theory Program_Witnesses
  imports Deep_Copies Program Command_Witnesses
begin

section \<open>Witnesses for copies and the program\<close>

text \<open>
  The properties of the deep copies and of the program as a whole, each at a concrete input where its
  hypotheses hold.
\<close>

subsection \<open>Copies\<close>

text \<open>An imported struct is the position of its content in a list; its copy is the next position.\<close>

definition sample_foreign :: "(nat, content list) foreign_copy" where
  "sample_foreign x m = (length m, m @ [if x < length m then m ! x else TextContent []])"

definition sample_view :: "(nat, content list, content) foreign_view" where
  "sample_view =
     \<lparr>foreign_limit = length, foreign_refs = (\<lambda>m x. {x}),
      foreign_content = (\<lambda>m x. if x < length m then m ! x else TextContent [])\<rparr>"

lemma sample_foreign_law: "foreign_law sample_foreign sample_view"
  by (auto simp: foreign_law_def sample_foreign_def sample_view_def nth_append)

definition sample_type :: type_meta where
  "sample_type = \<lparr>tm_kind = ''DNSServiceConfig'', tm_version = ''dns.openmcp.cloud/v1alpha1''\<rparr>"

definition cached_config :: service_config where
  "cached_config = object_meta.extend (meta_of [] ''dns'') (service_config.fields
     \<lparr>spec_source = \<lparr>chart_name = ''dns'', source_helm = Some ''url'', source_git = None, source_oci = None\<rparr>,
      spec_secrets = None, spec_interval = Some 60,
      spec_purposes = [\<lparr>config_name = ''p'', config_selector = Some \<lparr>selector_requirement = req_name_is ''foo''\<rparr>,
        config_interval = None, config_helm_values = None\<rparr>]\<rparr>)"

definition cache :: "(nat cell, content list) go_heap" where
  "cache = \<lparr>heap_cells =
      [Some (ConfigCell \<lparr>cf_type = sample_type, cf_meta = 0, cf_spec =
         \<lparr>sp_source = \<lparr>xs_chart = ''dns'', xs_helm = Some 1, xs_git = None, xs_oci = None\<rparr>,
          sp_secrets = None, sp_interval = Some 2, sp_purposes = Some [3]\<rparr>\<rparr>),
       Some (ForeignCell 1), Some (DurationCell 60),
       Some (PurposeConfigCell \<lparr>ps_name = ''p'', ps_selector = Some 4, ps_interval = None, ps_values = None\<rparr>),
       Some (SelectorCell \<lparr>rs_and = None, rs_or = None, rs_not = None, rs_name = ''foo''\<rparr>)],
     heap_foreign = [MetaContent (meta_of [] ''dns''), TextContent ''url'']\<rparr>"

lemma cached_config_at: "config_at sample_view cache 0 sample_type cached_config"
  by (simp add: config_at_def config_reads_def spec_reads_def source_reads_def pointer_reads_def slice_reads_def
      purpose_config_reads_def selector_reads_def text_reads_def readable_from_def cache_def sample_view_def
      cached_config_def object_meta.defs service_config.defs meta_of_def numeral_nat)

lemma cached_selector:
  "fst (readable sample_view cache) 4 = Some (SelectorCell \<lparr>rs_and = None, rs_or = None, rs_not = None, rs_name = ''foo''\<rparr>)"
  "selector_reads (readable sample_view cache) \<lparr>rs_and = None, rs_or = None, rs_not = None, rs_name = ''foo''\<rparr>
     \<lparr>selector_requirement = req_name_is ''foo''\<rparr>"
  by (simp_all add: readable_from_def cache_def selector_reads_def slice_reads_def pointer_reads_def)

text \<open>After the copy, two structs and both imported structs of the original are overwritten.\<close>

definition spoiled :: "(nat cell, content list) go_heap \<Rightarrow> (nat cell, content list) go_heap" where
  "spoiled h = (overwrite [(0, DurationCell 1), (2, DurationCell 1)] h)
     \<lparr>heap_foreign := (heap_foreign h)[0 := TextContent ''gone'', 1 := TextContent ''other url'']\<rparr>"

theorem config_copies_are_independent_witness:
  "\<exists>b h'. config_deep_copy_object sample_foreign 9 (Some 0) cache = Some (Returned (Some b, h')) \<and>
     config_at sample_view h' 0 sample_type cached_config \<and>
     config_at sample_view (spoiled h') b sample_type cached_config"
proof -
  have "selectors_fit 9 cached_config"
    by (simp add: selectors_fit_def purpose_fits_def cached_config_def object_meta.defs service_config.defs)
  from config_copies_are_independent [OF sample_foreign_law cached_config_at this] obtain b h' where
    copy: "config_deep_copy_object sample_foreign 9 (Some 0) cache = Some (Returned (Some b, h'))"
      "config_at sample_view h' 0 sample_type cached_config"
    and keep: "\<And>ws m. (\<forall>w \<in> set ws. fst w < length (heap_cells cache)) \<and>
      foreign_kept sample_view (foreign_limit sample_view (heap_foreign cache))
        (foreign_limit sample_view (heap_foreign h')) (heap_foreign h') m \<Longrightarrow>
      config_at sample_view ((overwrite ws h')\<lparr>heap_foreign := m\<rparr>) b sample_type cached_config" by blast
  have "config_at sample_view (spoiled h') b sample_type cached_config"
    unfolding spoiled_def by (rule keep) (auto simp: cache_def foreign_kept_def sample_view_def)
  with copy show ?thesis by blast
qed

theorem copied_selector_matches_alike_witness:
  "\<exists>b h'. selector_deep_copy 9 (Some 4) cache = Some (Returned (Some b, h')) \<and> b \<noteq> 4 \<and>
     heap_selector_matches (selector_heap h') (Some b) [''foo''] = Some (Returned True)"
proof -
  have "heap_selector_matches (selector_heap cache) (Some 4) [''foo''] = Some (Returned True)"
    by (simp add: heap_selector_matches_def selector_heap_def cache_def node_of_def)
  then show ?thesis
    using copied_selector_matches_alike [OF cached_selector, of 9 "[''foo'']"] by simp
qed

theorem circular_requirement_is_never_copied_witness:
  "requirement_deep_copy 100 (Some 0) (\<lparr>heap_cells =
     [Some (RequirementCell \<lparr>rs_and = None, rs_or = None, rs_not = Some 0, rs_name = []\<rparr>)], heap_foreign = ()\<rparr>
     :: (unit cell, unit) go_heap) = None"
  by (rule circular_requirement_is_never_copied [THEN conjunct1]) simp_all

subsection \<open>The program\<close>

definition sample_given :: given_flags where
  "sample_given = [''environment'' \<mapsto> Text ''dev'', ''provider-name'' \<mapsto> Text ''dns'']"

definition sample_process :: "nat process_lib" where
  "sample_process =
     \<lparr>library_flags = [], parse_command = (\<lambda>tree args.
        case args of
          [] \<Rightarrow> Inr None
        | name # rest \<Rightarrow>
            if name \<in> command_use ` set (subcommands tree) then Inr (Some (name, sample_given))
            else Inl (''unknown command'')),
      fips_verify = return_st ()\<rparr>"

lemma sample_manager_runs: "fst (run_manager sample_schemes sample_startup o' w) = Returned None"
proof -
  obtain scheme where scheme: "install_operator_apis_platform sample_schemes {} = Returned scheme"
    using sample_platform_scheme by blast
  have "new_scheme sample_schemes = {}" by (simp add: sample_schemes_def)
  with scheme show ?thesis
    by (auto simp: run_manager_def bind_st_def of_outcome_def attempt_def sample_startup_def if_present_def
        return_st_def split: option.splits)
qed

theorem run_exit_status_witness:
  "fst (main_program sample_process sample_app sample_schemes sample_startup [''run'']
     \<lparr>app_state = sample_state, outputs = []\<rparr>) = ExitOk"
proof -
  let ?o = "new_run_options (raw_shared_of sample_given) (raw_run_of sample_given)"
  let ?p = "\<lparr>app_state = sample_state, outputs = []\<rparr>"
  have parse: "parse_command sample_process (platform_service_dns_command sample_process) [''run''] =
      Inr (Some (''run'', sample_given))"
    by (simp add: sample_process_def platform_service_dns_command_def init_spec_def run_spec_def)
  have verify: "fips_verify sample_process (app_world (app_state ?p)) = (Returned (), 0)"
    by (simp add: sample_process_def return_st_def sample_state_def)
  have "fst (fst (complete_run sample_app ?o sample_state)) = None" by code_simp
  then obtain o' st where "complete_run sample_app ?o sample_state = ((None, o'), st)" by (metis prod.collapse)
  moreover have "(app_state ?p)\<lparr>app_world := 0\<rparr> = sample_state" by (simp add: sample_state_def)
  ultimately show ?thesis
    using run_exit_status [OF parse verify, of sample_app sample_schemes sample_startup] sample_manager_runs by simp
qed

text \<open>A builder that keeps the name and the labels, and shows the labels on the AccessRequest.\<close>

definition sample_access_lib ::
  "(server, string \<times> (string \<Rightarrow> namespaced_name \<Rightarrow> string \<times> string \<times> (string \<times> string) list), unit, unit) access_lib" where
  "sample_access_lib =
     \<lparr>al_new = (\<lambda>cl name. (name, \<lambda>_ _. ([], [], []))), al_with_managed_labels = (\<lambda>f b. (fst b, f)),
      al_register = (\<lambda>g b. b), al_existing_cluster = (\<lambda>_ _ _. ()), al_with_token_access = (\<lambda>_ g. g),
      al_with_namespace_generator = (\<lambda>_ g. g), al_build = (\<lambda>g. g),
      al_identity_reference = (), al_request_namespace = (),
      al_interface = (\<lambda>b cid. sample_access\<lparr>access_request_of := (\<lambda>req w.
        ((Some (granted_request\<lparr>meta_labels := (case (snd b) (fst b) req of (by, purpose, extra) \<Rightarrow>
           map_of ([(''by'', by), (''for'', purpose)] @ extra))\<rparr>), None), w))\<rparr>)\<rparr>"

definition request_labels :: "server access_api \<Rightarrow> namespaced_name \<Rightarrow> labels" where
  "request_labels acc req = (case access_request_of acc req deploy_server of
     ((Some ar, _), _) \<Rightarrow> meta_labels ar | _ \<Rightarrow> Map.empty)"

theorem access_objects_carry_expected_labels_witness:
  "request_labels (access_reconciler (fst (new_cluster_reconciler sample_access_lib sample_platform None ''dns'' ''sys'' ''dev'')))
     \<lparr>nn_namespace = ''c'', nn_name = ''c1''\<rparr> ''by'' = Some ''dns.DNSCluster''"
proof -
  obtain r known where made: "new_cluster_reconciler sample_access_lib sample_platform None ''dns'' ''sys'' ''dev'' = (r, known)"
    by (metis prod.collapse)
  have "access_label_law sample_access_lib sample_lib request_labels"
    by (simp add: access_label_law_def sample_access_lib_def request_labels_def sample_lib_def split: prod.split)
  moreover have "lib_managed_by_label sample_lib \<noteq> lib_managed_purpose_label sample_lib" by (simp add: sample_lib_def)
  ultimately have "has_labels (expected_labels sample_lib r ''c1'') (request_labels (access_reconciler r)
      \<lparr>nn_namespace = ''c'', nn_name = ''c1''\<rparr>)"
    using access_objects_carry_expected_labels [OF _ _ made, of sample_lib request_labels
        "\<lparr>nn_namespace = ''c'', nn_name = ''c1''\<rparr>"] by simp
  moreover have "provider_name r = ''dns''" using made by (auto simp: new_cluster_reconciler_def)
  ultimately show ?thesis
    using made by (simp add: has_labels_def expected_labels_def sample_lib_def controller_name_def)
qed

end
