(* ===== verification/Spec2Isabelle.thy ===== *)
theory Spec2Isabelle
  imports Witnesses Command_Witnesses Sample_Neighbours Program_Witnesses
begin

text \<open>
  \<^bold>\<open>platform-service-dns: a verification library.\<close>

  The program is a Kubernetes controller. For every \<open>Cluster\<close> of the platform whose purposes match the
  \<open>DNSServiceConfig\<close> of its provider it deploys external-dns: it copies secrets, stores a Flux source
  and a Flux HelmRelease next to the Cluster, and takes all of it away again when the Cluster is deleted
  or no longer matched. The executable has two commands, \<open>init\<close> (apply the CRDs) and \<open>run\<close> (start the
  controller).

  \<^bold>\<open>1. Parts, theories and sources.\<close> Each theory follows one part of the source, in the order
  of the code; a definition has the name of the Go function or the part of it that it models.

  Foundations.
  \<open>Prelude\<close>: a Go call returns or panics (\<open>outcome\<close>); computations that act on a world (\<open>comp\<close>,
  \<open>bind_st\<close>); keys of objects. \<open>Go_Strings\<close>, \<open>Go_Slices\<close>: the parts of the language and of its package
  \<open>strings\<close> that the code uses on data: \<open>strings.Split\<close>, \<open>strings.ReplaceAll\<close>, and slices as windows
  onto arrays in a store, where \<open>append\<close> may share. \<open>Go_Heap\<close>: structs behind pointers and slices, the two
  patterns of generated copying code, and the contract of a deep copy. \<open>Kube_Api\<close>: the clients and
  libraries, as parameters.

  \<open>api/dns/v1alpha1\<close>.
  \<open>Purpose_Selector\<close> and \<open>Config_Types\<close> are \<open>config_types.go\<close>: the types of the configuration, and the
  evaluation of purpose selectors twice, on trees and on a heap with the map of requirements on the
  current path. \<open>Deep_Copies\<close> is \<open>zz_generated.deepcopy.go\<close>, every function of it. \<open>Schemes\<close> is
  \<open>groupversion_info.go\<close> and \<open>api/install/install.go\<close>.

  \<open>internal/controllers/cluster/controller.go\<close>.
  \<open>Reconcile_Base\<close>: \<open>ReconcileResult\<close>, the guard between phases (\<open>chain\<close>), the reconciler's fields,
  constants, labels and names. \<open>Secrets\<close>: \<open>copySecrets\<close>, \<open>removeSecrets\<close>, \<open>extractReferencedSecretNames\<close>.
  \<open>Flux_Sources\<close>: \<open>deployHelmChartSource\<close>, \<open>undeployHelmChartSource\<close>. \<open>Helm_Values\<close> and \<open>Helm_Release\<close>:
  \<open>deployHelmRelease\<close>, \<open>undeployHelmRelease\<close>, \<open>ensureTargetClusterNamespace\<close>. \<open>Known_Clusters\<close>: the
  registry of known Clusters and the event mappings. \<open>Controller\<close>: \<open>Reconcile\<close>, \<open>reconcile\<close>,
  \<open>handleCreateOrUpdate\<close>, \<open>handleDelete\<close>. \<open>Watches\<close>: \<open>SetupWithManager\<close>.

  \<open>cmd/platform-service-dns/app\<close>.
  \<open>Command_Line\<close>: the options of \<open>app.go\<close> and \<open>run.go\<close> with their flags and \<open>Complete\<close>.
  \<open>Startup\<close>: \<open>Run\<close> of both commands, the command bodies, \<open>print.go\<close>, and \<open>CRDs\<close> of \<open>api/crds\<close>.
  \<open>Program\<close>: what joins the parts, \<open>NewClusterReconciler\<close>, the tree of commands and \<open>main.go\<close>.

  \<^bold>\<open>2. State and interaction.\<close> The state of the controller is \<open>controller_state\<close>: the world behind its
  clients, of an arbitrary type, and the registry of known Clusters (\<open>KnownClusters\<close>). An event passes
  the filters of \<open>Watches\<close>, becomes requests, by way of the registry when a configuration or a secret
  changed, and each request is one \<open>Reconcile\<close>. That loads Cluster, configuration and PlatformService and
  dispatches to the creating or the deleting handler; a handler is a chain of phases, each of which takes
  the \<open>reconcile_result\<close> of those before it. Handlers, phases and \<open>Reconcile\<close> are state-passing functions
  with every early return, error and nil dereference as a branch. The commands end in \<open>run_manager\<close>, whose
  library calls are steps that may each fail.

  \<^bold>\<open>3. Parameters and laws.\<close> What the repository does not contain is an argument: the client of each
  kind of object, the access library, the helpers of controller-utils and controller-runtime, the watch
  predicates, the command line parser, the encoder, the certificate watcher, the scheme functions. Their
  documented behaviour is stated in predicates with \<open>law\<close> in their name, and a theorem names those it
  needs. Three levels are kept apart. The safety properties hold for every server, with failing calls,
  panics and changes by others in between (\<open>run_laws\<close> only says that reads answer with the object asked
  for and that keys do not change). The outcomes need an honest server on which nobody else acts
  (\<open>server_law\<close>, \<open>outcome_laws\<close>; calls may fail). The liveness properties also need a reliable one
  (\<open>server_reliable\<close>).

  \<^bold>\<open>4. What is shown.\<close>
  \<open>Run_Logic\<close>, \<open>Run_Safety\<close>, \<open>Run_Properties\<close>: the clients are wrapped so that every call is logged
  (\<open>Request_Log\<close>); triples over logged computations show that each call of a run is allowed by the calls
  before it. From that: no foreign secret is overwritten, only labelled objects and the own release are
  deleted, the finalizer precedes all writes and goes last, the HelmRelease comes after its source and
  namespace. \<open>Registry_Runs\<close>: the registry under any sequence of reconciliations. \<open>Phases\<close>: the contract
  of phases as a locale, closed under sequencing, interpreted on every phase; results and errors are never
  lost. \<open>Server_Laws\<close>, \<open>Secret_Effects\<close>, \<open>Source_Effects\<close>, \<open>Reconcile_Effects\<close>, \<open>Outcomes\<close>: contracts with
  footprints over a view of all stored objects, up to the meaning of a whole run: deployed as configured,
  or nothing left, on the platform cluster and, while access is granted, on the Cluster itself
  (\<open>target_cleared\<close>). \<open>Progress\<close>, \<open>Liveness\<close>: with a reliable server such a run exists. \<open>Stability\<close>: a
  deployed Cluster is left alone, so the writing ends, as long as the access library gives the same access
  while no object changes (\<open>access_unchanged\<close>). \<open>Isolation\<close>: every change of a run is at a place of
  its own Cluster, to an object with its labels or at a free place; so deployed Clusters with other names
  stay deployed, and copies made for two Clusters of one namespace collide. The component
  theories hold the properties of selectors (refinement, termination), secret copies, sources, values and
  releases. \<open>Deep_Copies\<close>: a copy reads the same and shares no memory with the original, neither cells nor the
  memory behind imported structs; its locales are
  closed under slices, pointers and cells and interpreted on the copying functions. \<open>Program\<close>: the exit
  status, and that the access library is told the labels which the controller expects.
  \<open>Sample_Environment\<close>, \<open>Sample_Store\<close>, \<open>Sample_Neighbours\<close>, \<open>Witnesses\<close>, \<open>Command_Witnesses\<close> and \<open>Program_Witnesses\<close> apply
  every property at concrete inputs; the sample servers and libraries satisfy the laws.

  \<^bold>\<open>5. Fuel and bounds.\<close> The evaluation of selectors on the heap takes fuel, one unit for each nested
  call. \<open>Suc (length h)\<close> is enough for every heap \<open>h\<close> (\<open>heap_matches_enough\<close>): a nested call adds a new
  address to the path, and a repeated one panics. Deep copies take fuel for nested requirements; more than
  the size of the requirement is enough, and a circular one has no size and is never copied. All other
  recursion is structural. Durations are
  integers, as the code compares and stores them but never adds them.

  \<^bold>\<open>6. Abstractions.\<close> Error and event texts are values with one constructor for each format string.
  The specs of Flux sources and untouched parts of a HelmRelease are opaque text; helm values are the raw
  bytes. The objects that a failed read leaves half filled are not kept. The order in which a \<open>range\<close> loop
  visits a map is a parameter that may depend on the world. A body under a lock is one atomic step.
  \<open>controllerutil.CreateOrUpdate\<close> is one call with the mutate function as argument. \<open>filepath.Join\<close> is
  kept as the pair of its arguments. Log lines are left out.

  \<^bold>\<open>7. Not modelled.\<close> The content of the embedded CRD files of \<open>api/crds\<close>, which a library decodes.
\<close>

end
